(* ===== verification/Meson_Prelude.thy ===== *)
theory Meson_Prelude
  imports Main "HOL-Library.Word"
begin

text \<open>
  The vocabulary every component of the Meson client shares: Go's fixed-width integers, Go's
  \<open>error\<close> values, functions that may panic, bounds-checked array access, the big-endian
  integer encoding of \<^verbatim>\<open>encoding/binary\<close>, and the hexadecimal encoding of
  \<^verbatim>\<open>encoding/hex\<close>.  The lemmas on them are collected in \<open>go_simps\<close> (values and
  panics) and \<open>int_simps\<close> (fixed-width integers).
\<close>

named_theorems go_simps \<open>unfolding rules of Go values, panics and array accesses\<close>
named_theorems int_simps \<open>facts on Go's fixed-width integers\<close>

section \<open>Fixed-width integers\<close>

text \<open>
  Unsigned integers are words.  \<open>int64\<close> values (durations in nanoseconds, Unix times) are HOL
  integers on which every operation of the source that can overflow is wrapped by \<open>to_i64\<close>.
\<close>

type_synonym u8 = "8 word"
type_synonym u32 = "32 word"
type_synonym u64 = "64 word"
type_synonym bytes = "u8 list"

definition to_i64 :: "int \<Rightarrow> int" where
  "to_i64 x = (x + 2 ^ 63) mod 2 ^ 64 - 2 ^ 63"

definition is_i64 :: "int \<Rightarrow> bool" where
  "is_i64 x \<longleftrightarrow> - (2 ^ 63) \<le> x \<and> x < 2 ^ 63"

text \<open>Conversions: \<open>int64(w)\<close> of an unsigned word, \<open>uint64(x)\<close> of a signed value.\<close>

definition i64_of_u64 :: "u64 \<Rightarrow> int" where
  "i64_of_u64 w = to_i64 (uint w)"

definition u64_of_i64 :: "int \<Rightarrow> u64" where
  "u64_of_i64 x = word_of_int x"

text \<open>\<^verbatim>\<open>time.Millisecond\<close> and \<^verbatim>\<open>time.Second\<close> in nanoseconds.\<close>

definition Millisecond :: int where "Millisecond = 1000000"
definition Second :: int where "Second = 1000000000"

text \<open>\<open>t.Sub(u)\<close> on \<open>time.Time\<close> values (nanoseconds): the difference, saturated to a duration.\<close>

definition time_Sub :: "int \<Rightarrow> int \<Rightarrow> int" where
  "time_Sub t u = max (- (2 ^ 63)) (min (2 ^ 63 - 1) (t - u))"

section \<open>Errors\<close>

text \<open>
  Go errors as values.  \<open>Sentinel\<close> is a package-level error variable, compared by identity;
  \<open>Errorf\<close> is an error built by \<^verbatim>\<open>errors.New\<close> or \<^verbatim>\<open>fmt.Errorf\<close> from a format and its
  arguments; the three wrappers are the error types of \<^verbatim>\<open>minclient/connection.go\<close>;
  \<open>ExtError\<close> is an error that third-party code returned.
\<close>

datatype go_error =
    Sentinel string
  | Errorf string "err_arg list"
  | ConnectError go_error
  | PKIError go_error
  | ProtocolError go_error
  | ExtError string
and err_arg = ArgS string | ArgI int | ArgB "8 word list" | ArgE go_error

type_synonym 'a result = "go_error + 'a"

text \<open>The verb \<^verbatim>\<open>%v\<close> between single quotes, as many formats of the client have it.\<close>

definition quoted_v :: string where
  "quoted_v = [CHR 0x27] @ ''%v'' @ [CHR 0x27]"

section \<open>Functions that may panic\<close>

datatype 'a outcome = Ok 'a | Panic string

fun obind :: "'a outcome \<Rightarrow> ('a \<Rightarrow> 'b outcome) \<Rightarrow> 'b outcome" where
  "obind (Ok x) f = f x"
| "obind (Panic m) f = Panic m"

definition no_panic :: "'a outcome \<Rightarrow> bool" where
  "no_panic r \<longleftrightarrow> (case r of Ok _ \<Rightarrow> True | Panic _ \<Rightarrow> False)"

text \<open>Array and slice accesses: an index out of range panics.\<close>

definition get_at :: "'a list \<Rightarrow> int \<Rightarrow> 'a outcome" where
  "get_at xs i = (if 0 \<le> i \<and> i < int (length xs) then Ok (xs ! nat i)
                  else Panic ''index out of range'')"

definition set_at :: "'a list \<Rightarrow> int \<Rightarrow> 'a \<Rightarrow> 'a list outcome" where
  "set_at xs i v = (if 0 \<le> i \<and> i < int (length xs) then Ok (xs[nat i := v])
                    else Panic ''index out of range'')"

text \<open>\<open>xs[lo:hi]\<close> of a slice whose capacity is its length.\<close>

definition go_slice :: "'a list \<Rightarrow> nat \<Rightarrow> nat \<Rightarrow> 'a list outcome" where
  "go_slice xs lo hi = (if lo \<le> hi \<and> hi \<le> length xs then Ok (drop lo (take hi xs))
                     else Panic ''slice bounds out of range'')"

text \<open>\<open>copy(dst[at:], src)\<close>: as many bytes as fit are overwritten.\<close>

definition copy_into :: "'a list \<Rightarrow> nat \<Rightarrow> 'a list \<Rightarrow> 'a list" where
  "copy_into dst at src = take at dst @ take (length dst - at) src
                          @ drop (at + length src) dst"

text \<open>\<open>[]byte(s)\<close>.\<close>

definition bytes_of_string :: "string \<Rightarrow> bytes" where
  "bytes_of_string s = map (\<lambda>c. of_char c) s"

section \<open>Big-endian 32-bit integers (encoding/binary)\<close>

definition PutUint32 :: "u32 \<Rightarrow> bytes" where
  "PutUint32 w = [ucast (drop_bit 24 w), ucast (drop_bit 16 w), ucast (drop_bit 8 w), ucast w]"

definition Uint32 :: "bytes \<Rightarrow> u32 outcome" where
  "Uint32 b = (case b of
     b0 # b1 # b2 # b3 # _ \<Rightarrow>
       Ok (push_bit 24 (ucast b0) + push_bit 16 (ucast b1) + push_bit 8 (ucast b2) + ucast b3)
   | _ \<Rightarrow> Panic ''index out of range'')"

definition PutUint64 :: "u64 \<Rightarrow> bytes" where
  "PutUint64 w = [ucast (drop_bit 56 w), ucast (drop_bit 48 w), ucast (drop_bit 40 w), ucast (drop_bit 32 w),
     ucast (drop_bit 24 w), ucast (drop_bit 16 w), ucast (drop_bit 8 w), ucast w]"

section \<open>Hexadecimal text (encoding/hex)\<close>

definition hexdigit :: "nat \<Rightarrow> char" where
  "hexdigit n = ''0123456789abcdef'' ! n"

definition EncodeToString :: "bytes \<Rightarrow> string" where
  "EncodeToString bs = concat (map (\<lambda>b. [hexdigit (unat b div 16), hexdigit (unat b mod 16)]) bs)"

section \<open>Decimal text (the verbs \<open>%d\<close> and \<open>%v\<close> of fmt on integers)\<close>

fun itoa :: "nat \<Rightarrow> string" where
  "itoa n = (if n < 10 then [hexdigit n] else itoa (n div 10) @ [hexdigit (n mod 10)])"

declare itoa.simps [simp del]

section \<open>Lemmas\<close>

lemma length_EncodeToString [simp]: "length (EncodeToString bs) = 2 * length bs"
  by (induction bs) (simp_all add: EncodeToString_def)

lemma to_i64_id [int_simps]: "is_i64 x \<Longrightarrow> to_i64 x = x"
  by (simp add: to_i64_def is_i64_def)

lemma is_i64_to_i64 [simp, int_simps]: "is_i64 (to_i64 x)"
  by (simp add: to_i64_def is_i64_def)

lemma to_i64_idem [simp, int_simps]: "to_i64 (to_i64 x) = to_i64 x"
  by (simp add: to_i64_id)

lemma i64_of_u64_small [int_simps]: "uint w < 2 ^ 63 \<Longrightarrow> i64_of_u64 w = uint w"
  by (simp add: i64_of_u64_def to_i64_id is_i64_def order_trans [OF _ uint_ge_0])

lemma i64_of_u64_big [int_simps]: "2 ^ 63 \<le> uint w \<Longrightarrow> i64_of_u64 w = uint w - 2 ^ 64"
proof -
  assume big: "2 ^ 63 \<le> uint w"
  have lt: "uint w < 2 ^ 64" using uint_lt2p [of w] by simp
  have "(uint w + 2 ^ 63) mod 2 ^ 64 = (uint w - 2 ^ 63 + 2 ^ 64) mod 2 ^ 64"
    by (simp add: add.commute)
  also have "\<dots> = (uint w - 2 ^ 63) mod 2 ^ 64" by (rule mod_add_self2)
  also have "\<dots> = uint w - 2 ^ 63" using big lt by (intro mod_pos_pos_trivial) simp_all
  finally show ?thesis by (simp add: i64_of_u64_def to_i64_def)
qed

lemma uint_u64_of_i64 [int_simps]: "0 \<le> x \<Longrightarrow> x < 2 ^ 64 \<Longrightarrow> uint (u64_of_i64 x) = x"
  by (simp add: u64_of_i64_def uint_word_of_int)

lemma time_Sub_eq [int_simps]: "is_i64 (t - u) \<Longrightarrow> time_Sub t u = t - u"
  by (simp add: time_Sub_def is_i64_def)

lemma obind_eq_Ok [go_simps]: "obind r f = Ok y \<longleftrightarrow> (\<exists>x. r = Ok x \<and> f x = Ok y)"
  by (cases r) simp_all

lemma obindE:
  assumes "obind r f = Ok y"
  obtains x where "r = Ok x" and "f x = Ok y"
  using assms by (auto simp: obind_eq_Ok)

lemma no_panic_simps [simp]: "no_panic (Ok x)" "\<not> no_panic (Panic m)"
  by (simp_all add: no_panic_def)

lemma no_panic_iff: "no_panic r \<longleftrightarrow> (\<exists>x. r = Ok x)"
  by (cases r) simp_all

lemma get_at_Ok [go_simps]:
  "0 \<le> i \<Longrightarrow> i < int (length xs) \<Longrightarrow> get_at xs i = Ok (xs ! nat i)"
  by (simp add: get_at_def)

lemma set_at_Ok [go_simps]:
  "0 \<le> i \<Longrightarrow> i < int (length xs) \<Longrightarrow> set_at xs i v = Ok (xs[nat i := v])"
  by (simp add: set_at_def)

lemma go_slice_Ok [go_simps]: "lo \<le> hi \<Longrightarrow> hi \<le> length xs \<Longrightarrow> go_slice xs lo hi = Ok (drop lo (take hi xs))"
  by (simp add: go_slice_def)

lemma length_copy_into [simp]: "at \<le> length dst \<Longrightarrow> length (copy_into dst at src) = length dst"
  by (simp add: copy_into_def)

lemma copy_into_fits:
  "at + length src \<le> length dst \<Longrightarrow>
   copy_into dst at src = take at dst @ src @ drop (at + length src) dst"
  by (simp add: copy_into_def)

lemma length_PutUint32 [simp]: "length (PutUint32 w) = 4"
  by (simp add: PutUint32_def)

lemma Uint32_short [go_simps]: "length b < 4 \<Longrightarrow> Uint32 b = Panic ''index out of range''"
  by (auto simp: Uint32_def split: list.splits)

lemma ucast_byte: "ucast (ucast (x :: u32) :: u8) = (word_of_int (uint x mod 256) :: u32)"
  by (rule word_uint_eqI) (simp add: unsigned_ucast_eq uint_word_of_int take_bit_eq_mod uint_mod)

lemma base256_digits:
  "(n::int) = 256 * q1 + r0 \<Longrightarrow> q1 = 256 * q2 + r1 \<Longrightarrow> q2 = 256 * q3 + r2 \<Longrightarrow>
   n = 16777216 * q3 + 65536 * r2 + 256 * r1 + r0"
  by simp

lemma base256_split:
  fixes n :: int assumes "0 \<le> n" "n < 2 ^ 32"
  shows "2 ^ 24 * (n div 2 ^ 24 mod 256) + 2 ^ 16 * (n div 2 ^ 16 mod 256) + 2 ^ 8 * (n div 2 ^ 8 mod 256) + n mod 256 = n"
proof -
  have a: "n div 16777216 mod 256 = n div 16777216" using assms by (intro mod_pos_pos_trivial) auto
  have b: "n div 16777216 = n div 65536 div 256" "n div 65536 = n div 256 div 256"
    by (simp_all add: zdiv_zmult2_eq [symmetric])
  have c: "n = 256 * (n div 256) + n mod 256" "n div 256 = 256 * (n div 65536) + n div 256 mod 256"
    "n div 65536 = 256 * (n div 16777216) + n div 65536 mod 256"
    unfolding b by (simp_all add: mult_div_mod_eq)
  have p: "(2::int) ^ 24 = 16777216" "(2::int) ^ 16 = 65536" "(2::int) ^ 8 = 256" by simp_all
  show ?thesis unfolding p a by (rule base256_digits [OF c, symmetric])
qed

lemma join_bytes:
  "push_bit 24 (ucast (ucast (drop_bit 24 w) :: u8)) + push_bit 16 (ucast (ucast (drop_bit 16 w) :: u8)) +
      push_bit 8 (ucast (ucast (drop_bit 8 w) :: u8)) + ucast (ucast w :: u8) = (w :: u32)"
proof -
  have d: "uint (drop_bit k w) = uint w div 2 ^ k" for k 
  proof -
    have "take_bit 32 (uint w) = uint w" using uint_lt2p [of w] by (intro take_bit_int_eq_self) simp_all
    then show ?thesis by (simp add: unsigned_drop_bit_eq flip: drop_bit_eq_div)
  qed
  have p: "push_bit k (word_of_int m) = (word_of_int (2 ^ k * m) :: u32)" for k m
    by (simp add: push_bit_eq_mult mult.commute)
  have "word_of_int (2 ^ 24 * (uint w div 2 ^ 24 mod 256) + 2 ^ 16 * (uint w div 2 ^ 16 mod 256) +
      2 ^ 8 * (uint w div 2 ^ 8 mod 256) + uint w mod 256) = w"
    by (subst base256_split) (use uint_lt2p [of w] in simp_all)
  then show ?thesis by (simp only: ucast_byte d p wi_hom_add)
qed

lemma Uint32_PutUint32 [go_simps]: "Uint32 (PutUint32 w @ rest) = Ok w"
  using join_bytes [of w] by (simp add: Uint32_def PutUint32_def)

lemma find_unique: "x \<in> set xs \<Longrightarrow> P x \<Longrightarrow> \<forall>y \<in> set xs. P y \<longrightarrow> y = x \<Longrightarrow> find P xs = Some x"
proof (induction xs)
  case (Cons y ys)
  show ?case
  proof (cases "P y")
    case True
    with Cons.prems(3) have "y = x" by (meson list.set_intros(1))
    with True show ?thesis by simp
  next
    case False
    with Cons show ?thesis by (metis find.simps(2) list.set_intros(2) set_ConsD)
  qed
qed simp

lemma find_map: "find P (map f xs) = map_option f (find (P \<circ> f) xs)"
  by (induction xs) auto

section \<open>Runs\<close>

text \<open>
  The contract between a step relation and a property of its states that every step keeps: then every
  run keeps it.  The components interpret it for their goroutines, once for each invariant.
\<close>

locale preserved =
  fixes step :: "'s \<Rightarrow> 's \<Rightarrow> bool" and keeps :: "'s \<Rightarrow> bool"
  assumes step_keeps: "step x y \<Longrightarrow> keeps x \<Longrightarrow> keeps y"
begin

lemma along: "step\<^sup>*\<^sup>* x y \<Longrightarrow> keeps x \<Longrightarrow> keeps y"
  by (induction rule: rtranclp_induct) (auto intro: step_keeps)

end

end
