(* ===== verification/Meson_Queue.thy ===== *)
theory Meson_Queue
  imports Meson_Prelude
begin

text \<open>
  The egress queue (\<^verbatim>\<open>src/queue.go\<close>): the ring buffer \<open>Queue\<close> behind the interface
  \<open>EgressQueue\<close>.  The capacity \<^verbatim>\<open>constants.MaxEgressQueueSize\<close> comes from
  \<^verbatim>\<open>katzenpost/client\<close> and is the argument \<open>N\<close>; the fresh \<open>&Message{}\<close> that \<open>Pop\<close>
  writes over a slot is the argument \<open>blank\<close>.  A slot is \<open>None\<close> while it holds the nil
  interface.  The interfaces \<open>nqueue\<close> (\<open>Push\<close> only, of \<^verbatim>\<open>src/timer_queue.go\<close>) and
  \<open>EgressQueue\<close> are the locales \<open>nqueue\<close> and \<open>egress_queue\<close>; the ring buffer interprets
  both, and is shown to refine a bounded first-in-first-out list.
\<close>

section \<open>Definitions\<close>

definition ErrQueueFull :: go_error where
  "ErrQueueFull = Sentinel ''queue is full''"

definition ErrQueueEmpty :: go_error where
  "ErrQueueEmpty = Sentinel ''queue is empty''"

record 'i queue =
  content :: "'i option list"
  readHead :: int
  writeHead :: int
  len :: int

text \<open>\<open>new(Queue)\<close>: the zero value.\<close>

definition new_Queue :: "nat \<Rightarrow> 'i queue" where
  "new_Queue N = \<lparr>content = replicate N None, readHead = 0, writeHead = 0, len = 0\<rparr>"

definition Queue_Push :: "nat \<Rightarrow> 'i queue \<Rightarrow> 'i \<Rightarrow> ('i queue \<times> go_error option) outcome" where
  "Queue_Push N q e =
    (if len q \<ge> int N then Ok (q, Some ErrQueueFull)
     else obind (set_at (content q) (writeHead q) (Some e)) (\<lambda>c.
       Ok (q\<lparr>content := c,
             writeHead := (writeHead q + 1) mod int N,
             len := len q + 1\<rparr>, None)))"

definition Queue_Pop ::
  "nat \<Rightarrow> 'i \<Rightarrow> 'i queue \<Rightarrow> ('i queue \<times> 'i option result) outcome" where
  "Queue_Pop N blank q =
    (if len q \<le> 0 then Ok (q, Inl ErrQueueEmpty)
     else obind (get_at (content q) (readHead q)) (\<lambda>result.
       obind (set_at (content q) (readHead q) (Some blank)) (\<lambda>c.
         Ok (q\<lparr>content := c,
               readHead := (readHead q + 1) mod int N,
               len := len q - 1\<rparr>, Inr result))))"

definition Queue_Peek :: "'i queue \<Rightarrow> 'i option result outcome" where
  "Queue_Peek q =
    (if len q \<le> 0 then Ok (Inl ErrQueueEmpty)
     else obind (get_at (content q) (readHead q)) (\<lambda>result. Ok (Inr result)))"

text \<open>
  The representation invariant, and the queued items in the order they will be popped.
\<close>

definition q_slot :: "nat \<Rightarrow> 'i queue \<Rightarrow> nat \<Rightarrow> nat" where
  "q_slot N q k = nat ((readHead q + int k) mod int N)"

definition q_inv :: "nat \<Rightarrow> 'i queue \<Rightarrow> bool" where
  "q_inv N q \<longleftrightarrow>
     length (content q) = N \<and>
     0 \<le> readHead q \<and> readHead q < int N \<and>
     0 \<le> len q \<and> len q \<le> int N \<and>
     writeHead q = (readHead q + len q) mod int N \<and>
     (\<forall>k < nat (len q). content q ! q_slot N q k \<noteq> None)"

definition q_list :: "nat \<Rightarrow> 'i queue \<Rightarrow> 'i list" where
  "q_list N q = map (\<lambda>k. the (content q ! q_slot N q k)) [0 ..< nat (len q)]"

text \<open>
  The specification: a first-in-first-out list of at most \<open>N\<close> items.  A client is a sequence
  of calls; both machines return the list of answers.
\<close>

datatype 'i q_op = PushOp 'i | PopOp | PeekOp
datatype 'i q_ret = PushRet "go_error option" | ItemRet "'i option result"

fun fifo_step :: "nat \<Rightarrow> 'i list \<Rightarrow> 'i q_op \<Rightarrow> 'i list \<times> 'i q_ret" where
  "fifo_step N xs (PushOp e) =
     (if length xs \<ge> N then (xs, PushRet (Some ErrQueueFull)) else (xs @ [e], PushRet None))"
| "fifo_step N xs PopOp =
     (case xs of [] \<Rightarrow> ([], ItemRet (Inl ErrQueueEmpty)) | x # ys \<Rightarrow> (ys, ItemRet (Inr (Some x))))"
| "fifo_step N xs PeekOp =
     (case xs of [] \<Rightarrow> ([], ItemRet (Inl ErrQueueEmpty)) | x # ys \<Rightarrow> (xs, ItemRet (Inr (Some x))))"

fun fifo_run :: "nat \<Rightarrow> 'i list \<Rightarrow> 'i q_op list \<Rightarrow> 'i list \<times> 'i q_ret list" where
  "fifo_run N xs [] = (xs, [])"
| "fifo_run N xs (c # cs) =
     (let (ys, r) = fifo_step N xs c; (zs, rs) = fifo_run N ys cs in (zs, r # rs))"

fun ring_step :: "nat \<Rightarrow> 'i \<Rightarrow> 'i queue \<Rightarrow> 'i q_op \<Rightarrow> ('i queue \<times> 'i q_ret) outcome" where
  "ring_step N blank q (PushOp e) = obind (Queue_Push N q e) (\<lambda>(q', r). Ok (q', PushRet r))"
| "ring_step N blank q PopOp = obind (Queue_Pop N blank q) (\<lambda>(q', r). Ok (q', ItemRet r))"
| "ring_step N blank q PeekOp = obind (Queue_Peek q) (\<lambda>r. Ok (q, ItemRet r))"

fun ring_run :: "nat \<Rightarrow> 'i \<Rightarrow> 'i queue \<Rightarrow> 'i q_op list \<Rightarrow> ('i queue \<times> 'i q_ret list) outcome" where
  "ring_run N blank q [] = Ok (q, [])"
| "ring_run N blank q (c # cs) =
     obind (ring_step N blank q c) (\<lambda>(q', r).
       obind (ring_run N blank q' cs) (\<lambda>(q'', rs). Ok (q'', r # rs)))"

text \<open>Pushing a sequence of items, as other goroutines may do between two calls of a client.\<close>

fun push_all :: "('q \<Rightarrow> 'i \<Rightarrow> ('q \<times> go_error option) outcome) \<Rightarrow> 'q \<Rightarrow> 'i list \<Rightarrow> 'q outcome" where
  "push_all push q [] = Ok q"
| "push_all push q (e # es) = obind (push q e) (\<lambda>(q', _). push_all push q' es)"

section \<open>The interfaces\<close>

locale nqueue =
  fixes inv :: "'q \<Rightarrow> bool"
    and items :: "'q \<Rightarrow> 'i list"
    and cap :: nat
    and push :: "'q \<Rightarrow> 'i \<Rightarrow> ('q \<times> go_error option) outcome"
  assumes push_room: "inv q \<Longrightarrow> length (items q) < cap \<Longrightarrow>
      \<exists>q'. push q e = Ok (q', None) \<and> inv q' \<and> items q' = items q @ [e]"
    and push_full: "inv q \<Longrightarrow> cap \<le> length (items q) \<Longrightarrow> push q e = Ok (q, Some ErrQueueFull)"
    and items_le_cap: "inv q \<Longrightarrow> length (items q) \<le> cap"
begin

lemma push_cases:
  assumes "inv q"
  obtains q' where "push q e = Ok (q', None)" "inv q'" "items q' = items q @ [e]"
    "length (items q) < cap"
  | "push q e = Ok (q, Some ErrQueueFull)" "length (items q) = cap"
  using push_room [OF assms] push_full [OF assms] items_le_cap [OF assms]
  by (metis le_less_linear le_antisym)

lemma push_all_take:
  "inv q \<Longrightarrow> \<exists>q'. push_all push q es = Ok q' \<and> inv q' \<and>
     items q' = items q @ take (cap - length (items q)) es"
proof (induction es arbitrary: q)
  case Nil
  then show ?case by simp
next
  case (Cons e es)
  from Cons.prems show ?case
  proof (cases rule: push_cases [where e = e])
    case (1 q')
    then obtain k where "cap - length (items q) = Suc k" "cap - length (items q') = k"
      by (metis Suc_diff_Suc diff_Suc_1 length_append_singleton diff_Suc_eq_diff_pred)
    with 1 Cons.IH [OF \<open>inv q'\<close>] show ?thesis by auto
  next
    case 2
    with Cons.IH [OF Cons.prems] show ?thesis by simp
  qed
qed

end

locale egress_queue = nqueue inv items cap push
  for inv :: "'q \<Rightarrow> bool" and items :: "'q \<Rightarrow> 'i list" and cap :: nat
    and push :: "'q \<Rightarrow> 'i \<Rightarrow> ('q \<times> go_error option) outcome" +
  fixes pop :: "'q \<Rightarrow> ('q \<times> 'i option result) outcome"
    and peek :: "'q \<Rightarrow> 'i option result outcome"
  assumes pop_empty: "inv q \<Longrightarrow> items q = [] \<Longrightarrow> pop q = Ok (q, Inl ErrQueueEmpty)"
    and pop_item: "inv q \<Longrightarrow> items q = x # xs \<Longrightarrow>
      \<exists>q'. pop q = Ok (q', Inr (Some x)) \<and> inv q' \<and> items q' = xs"
    and peek_empty: "inv q \<Longrightarrow> items q = [] \<Longrightarrow> peek q = Ok (Inl ErrQueueEmpty)"
    and peek_item: "inv q \<Longrightarrow> items q = x # xs \<Longrightarrow> peek q = Ok (Inr (Some x))"
begin

lemma peek_hd: "inv q \<Longrightarrow> peek q = Ok (Inr (Some x)) \<longleftrightarrow> (\<exists>xs. items q = x # xs)"
  using peek_empty [of q] peek_item [of q] by (cases "items q") auto

lemma peek_push_pop:
  assumes "inv q" and "peek q = Ok (Inr (Some x))" and "push_all push q es = Ok q1"
  shows "\<exists>q2. pop q1 = Ok (q2, Inr (Some x)) \<and> inv q2 \<and>
    items q2 = tl (items q) @ take (cap - length (items q)) es"
proof -
  from assms(1,2) obtain xs where xs: "items q = x # xs" using peek_hd by blast
  from push_all_take [OF assms(1), of es] assms(3) xs
  have q1: "inv q1 \<and> items q1 = x # (xs @ take (cap - length (items q)) es)"
    by auto
  with pop_item [of q1] xs show ?thesis by simp
qed

end

section \<open>The ring buffer implements the interface\<close>

lemma mod_shift: "0 \<le> r \<Longrightarrow> 0 < n \<Longrightarrow> ((r + 1) mod n + k) mod n = (r + (k + 1)) mod (n::int)"
  by (simp add: mod_simps algebra_simps)

lemma slot_inj:
  assumes "j < N" "k < N" "(r + int j) mod int N = (r + int k) mod int N"
  shows "j = k"
proof -
  have "int j mod int N = int k mod int N"
    using assms(3) by (simp add: mod_eq_dvd_iff)
  with assms(1,2) show ?thesis by simp
qed

lemma q_slot_less: "0 < N \<Longrightarrow> q_slot N q k < N"
  by (simp add: q_slot_def nat_less_iff)

lemma q_inv_pos: "q_inv N q \<Longrightarrow> 0 < N"
  by (auto simp: q_inv_def)

lemma length_q_list [simp]: "length (q_list N q) = nat (len q)"
  by (simp add: q_list_def)

lemma new_Queue_inv: "0 < N \<Longrightarrow> q_inv N (new_Queue N) \<and> q_list N (new_Queue N) = []"
  by (simp add: q_inv_def q_list_def new_Queue_def)

lemma Queue_Push_room:
  assumes inv: "q_inv N q" and room: "length (q_list N q) < N"
  shows "\<exists>q'. Queue_Push N q e = Ok (q', None) \<and> q_inv N q' \<and> q_list N q' = q_list N q @ [e]"
proof -
  have N: "0 < N" using inv by (rule q_inv_pos)
  have ln: "len q < int N" using inv room by (simp add: q_inv_def)
  define w where "w = q_slot N q (nat (len q))"
  have wh: "nat (writeHead q) = w" and wr: "0 \<le> writeHead q" "writeHead q < int N"
    using inv N by (simp_all add: q_inv_def w_def q_slot_def)
  define q' where "q' = q\<lparr>content := (content q)[w := Some e],
    writeHead := (writeHead q + 1) mod int N, len := len q + 1\<rparr>"
  have push: "Queue_Push N q e = Ok (q', None)"
    using inv ln wr wh by (simp add: Queue_Push_def q'_def q_inv_def go_simps)
  have slot': "q_slot N q' k = q_slot N q k" for k by (simp add: q_slot_def q'_def)
  have old: "q_slot N q k \<noteq> w" if "k < nat (len q)" for k
  proof
    assume "q_slot N q k = w"
    then have "(readHead q + int k) mod int N = (readHead q + int (nat (len q))) mod int N"
      using N by (simp add: q_slot_def w_def nat_eq_iff split: if_splits)
    moreover have "k < N" "nat (len q) < N" using that ln by linarith+
    ultimately show False using slot_inj [of k N "nat (len q)" "readHead q"] that by simp
  qed
  have cont: "content q' ! q_slot N q' k =
      (if k = nat (len q) then Some e else content q ! q_slot N q k)" if "k < Suc (nat (len q))" for k
  proof -
    have "w < length (content q)" using inv q_slot_less [OF N] by (simp add: w_def q_inv_def)
    moreover have "content q' = (content q)[w := Some e]" by (simp add: q'_def)
    ultimately show ?thesis using that old [of k] by (auto simp: slot' w_def [symmetric])
  qed
  have len': "nat (len q') = Suc (nat (len q))" using inv by (auto simp: q'_def q_inv_def)
  have "q_inv N q'"
    using inv ln N cont len' unfolding q_inv_def [of N q']
    by (auto simp: q'_def q_inv_def mod_simps algebra_simps)
  moreover have "q_list N q' = q_list N q @ [e]"
    using cont by (simp add: q_list_def len')
  ultimately show ?thesis using push by blast
qed

lemma Queue_Pop_item:
  assumes inv: "q_inv N q" and xs: "q_list N q = x # xs"
  shows "\<exists>q'. Queue_Pop N blank q = Ok (q', Inr (Some x)) \<and> q_inv N q' \<and> q_list N q' = xs"
proof -
  have N: "0 < N" using inv by (rule q_inv_pos)
  have ln: "0 < len q" using xs length_q_list [of N q] by simp
  define r where "r = q_slot N q 0"
  have rh: "nat (readHead q) = r" using inv by (simp add: r_def q_slot_def q_inv_def)
  define q' where "q' = q\<lparr>content := (content q)[r := Some blank],
    readHead := (readHead q + 1) mod int N, len := len q - 1\<rparr>"
  have slot': "q_slot N q' k = q_slot N q (Suc k)" for k
    using mod_shift [of "readHead q" "int N" "int k"] inv N
    by (simp add: q_slot_def q'_def q_inv_def algebra_simps)
  have old: "q_slot N q (Suc k) \<noteq> r" if "Suc k < nat (len q)" for k
  proof
    assume "q_slot N q (Suc k) = r"
    then have "(readHead q + int (Suc k)) mod int N = (readHead q + int 0) mod int N"
      using N by (simp add: q_slot_def r_def nat_eq_iff split: if_splits)
    moreover have "Suc k < N" using that inv by (auto simp: q_inv_def)
    ultimately show False using slot_inj [of "Suc k" N 0 "readHead q"] N by simp
  qed
  have cont: "content q' ! q_slot N q' k = content q ! q_slot N q (Suc k)"
    if "Suc k < nat (len q)" for k
    using old [OF that] by (simp add: slot') (simp add: q'_def)
  obtain n where n: "nat (len q) = Suc n" using ln by (cases "nat (len q)") auto
  have len': "nat (len q') = n" using n by (simp add: q'_def)
  have hd: "content q ! r = Some x"
  proof -
    from xs n have "the (content q ! r) = x"
      by (simp add: q_list_def upt_conv_Cons r_def del: upt_Suc)
    moreover from inv n have "content q ! r \<noteq> None" by (simp add: q_inv_def r_def)
    ultimately show ?thesis by auto
  qed
  have pop: "Queue_Pop N blank q = Ok (q', Inr (Some x))"
    using inv ln rh hd by (simp add: Queue_Pop_def q'_def q_inv_def go_simps)
  have "(readHead q' + len q') mod int N = (readHead q + len q) mod int N"
    using mod_shift [of "readHead q" "int N" "len q - 1"] inv N by (simp add: q'_def q_inv_def)
  then have "q_inv N q'"
    using inv ln N cont n len' unfolding q_inv_def [of N q'] by (auto simp: q'_def q_inv_def)
  moreover have "q_list N q' = xs"
  proof -
    have "q_list N q' = map (\<lambda>k. the (content q ! q_slot N q (Suc k))) [0 ..< n]"
      using cont by (simp add: q_list_def len' n)
    also have "\<dots> = map (\<lambda>k. the (content q ! q_slot N q k)) [Suc 0 ..< Suc n]"
      by (simp add: map_Suc_upt [symmetric] del: upt_Suc)
    also have "\<dots> = tl (q_list N q)"
      by (simp add: q_list_def n upt_conv_Cons del: upt_Suc)
    finally show ?thesis using xs by simp
  qed
  ultimately show ?thesis using pop by blast
qed

lemma Queue_Peek_item:
  assumes "q_inv N q" and "q_list N q = x # xs"
  shows "Queue_Peek q = Ok (Inr (Some x))"
proof -
  obtain q' where "Queue_Pop N x q = Ok (q', Inr (Some x))"
    using Queue_Pop_item [OF assms] by blast
  then show ?thesis
    by (auto simp: Queue_Pop_def Queue_Peek_def go_simps split: if_splits)
qed

interpretation ring: nqueue "q_inv N" "q_list N" N "Queue_Push N" for N
proof
  fix q :: "'a queue" and e
  assume inv: "q_inv N q"
  show "\<exists>q'. Queue_Push N q e = Ok (q', None) \<and> q_inv N q' \<and> q_list N q' = q_list N q @ [e]"
    if "length (q_list N q) < N" using inv that by (rule Queue_Push_room)
  show "Queue_Push N q e = Ok (q, Some ErrQueueFull)" if "N \<le> length (q_list N q)"
    using inv that by (auto simp: Queue_Push_def q_inv_def)
  show "length (q_list N q) \<le> N" using inv by (auto simp: q_inv_def)
qed

interpretation ring: egress_queue "q_inv N" "q_list N" N "Queue_Push N" "Queue_Pop N blank" Queue_Peek
  for N blank
proof
  fix q :: "'a queue" and x xs
  assume inv: "q_inv N q"
  show "Queue_Pop N blank q = Ok (q, Inl ErrQueueEmpty)" if "q_list N q = []"
    using that length_q_list [of N q] by (simp add: Queue_Pop_def)
  show "Queue_Peek q = Ok (Inl ErrQueueEmpty)" if "q_list N q = []"
    using that length_q_list [of N q] by (simp add: Queue_Peek_def)
  show "\<exists>q'. Queue_Pop N blank q = Ok (q', Inr (Some x)) \<and> q_inv N q' \<and> q_list N q' = xs"
    if "q_list N q = x # xs" using inv that by (rule Queue_Pop_item)
  show "Queue_Peek q = Ok (Inr (Some x))" if "q_list N q = x # xs"
    using inv that by (rule Queue_Peek_item)
qed

section \<open>Properties\<close>

lemma ring_step_refines:
  assumes "q_inv N q"
  shows "\<exists>q'. ring_step N blank q c = Ok (q', snd (fifo_step N (q_list N q) c)) \<and>
    q_inv N q' \<and> q_list N q' = fst (fifo_step N (q_list N q) c)"
proof (cases c)
  case (PushOp e)
  from assms show ?thesis
    by (cases rule: ring.push_cases [where e = e]) (simp_all add: PushOp assms)
next
  case PopOp
  show ?thesis
  proof (cases "q_list N q")
    case Nil
    then show ?thesis using ring.pop_empty [OF assms Nil] assms by (simp add: PopOp)
  next
    case (Cons x xs)
    then show ?thesis using ring.pop_item [OF assms Cons, of blank] by (auto simp: PopOp)
  qed
next
  case PeekOp
  show ?thesis
  proof (cases "q_list N q")
    case Nil
    then show ?thesis using ring.peek_empty [OF assms Nil] assms by (simp add: PeekOp)
  next
    case (Cons x xs)
    then show ?thesis using ring.peek_item [OF assms Cons] assms by (simp add: PeekOp)
  qed
qed

lemma ring_run_refines:
  "q_inv N q \<Longrightarrow> \<exists>q'. ring_run N blank q cs = Ok (q', snd (fifo_run N (q_list N q) cs)) \<and>
    q_inv N q' \<and> q_list N q' = fst (fifo_run N (q_list N q) cs)"
proof (induction cs arbitrary: q)
  case Nil
  then show ?case by simp
next
  case (Cons c cs)
  obtain q' where q': "ring_step N blank q c = Ok (q', snd (fifo_step N (q_list N q) c))"
      "q_inv N q'" "q_list N q' = fst (fifo_step N (q_list N q) c)"
    using ring_step_refines [OF Cons.prems] by blast
  with Cons.IH [OF q'(2)] show ?case by (auto simp: split_beta Let_def)
qed

text \<open>
  C2. The ring buffer is a bounded first-in-first-out queue: from the zero value, any sequence of
  \<open>Push\<close>, \<open>Pop\<close> and \<open>Peek\<close> calls returns exactly what the list of at most \<open>N\<close> items
  returns (\<open>ErrQueueFull\<close> and \<open>ErrQueueEmpty\<close> included), never indexes out of range, and
  leaves the queue holding exactly the items of the list, in order.
\<close>

theorem queue_refines_fifo:
  assumes "0 < N"
  shows "\<exists>q'. ring_run N blank (new_Queue N) cs = Ok (q', snd (fifo_run N [] cs)) \<and>
    q_inv N q' \<and> q_list N q' = fst (fifo_run N [] cs)"
  using ring_run_refines [of N "new_Queue N" blank cs] by (simp add: new_Queue_inv assms)

theorem queue_refines_fifo_witness:
  "\<exists>q'. ring_run 2 (0::nat) (new_Queue 2) [PushOp 7, PushOp 8, PushOp 9, PopOp, PushOp 9, PeekOp]
      = Ok (q', [PushRet None, PushRet None, PushRet (Some ErrQueueFull),
                 ItemRet (Inr (Some 7)), PushRet None, ItemRet (Inr (Some 8))])
    \<and> q_inv 2 q' \<and> q_list 2 q' = [8, 9]"
  using queue_refines_fifo
    [of 2 "0::nat" "[PushOp 7, PushOp 8, PushOp 9, PopOp, PushOp 9, PeekOp]"] by simp

end
