(* ===== verification/Meson_Types.thy ===== *)
theory Meson_Types
  imports Meson_Prelude
begin

text \<open>
  The directory data of \<^verbatim>\<open>katzenpost/core/pki\<close> as far as the client reads it: the fields of
  \<open>Document\<close> and \<open>MixDescriptor\<close> that the sources under \<^verbatim>\<open>src/\<close> name.  Keys are their byte
  strings (\<open>IdentityKey.Bytes()\<close>); \<open>float64\<close> rates are only handed to the exponential sampler of
  \<^verbatim>\<open>core/crypto/rand\<close>, so they are kept as bit patterns.  Random sources are arguments
  (\<open>rng_ops\<close>): the state of the generator is threaded through, and what the code relies on is
  the predicate \<open>rng_ok\<close>, the documented range of \<^verbatim>\<open>math/rand.Intn\<close>.
\<close>

type_synonym float64 = u64

record MixDescriptor =
  Name :: string
  IdentityKey :: bytes
  LinkKey :: bytes
  MixKeys :: "(u64 \<times> bytes) list"
  Addresses :: "(string \<times> string list) list"
  Kaetzchen :: "string list"
  RegistrationHTTPAddresses :: "string list option"
  Layer :: u8

record Document =
  Epoch :: u64
  Mu :: float64
  MuMaxDelay :: u64
  LambdaP :: float64
  LambdaPMaxDelay :: u64
  LambdaL :: float64
  LambdaLMaxDelay :: u64
  LambdaD :: float64
  LambdaDMaxDelay :: u64
  Topology :: "MixDescriptor list list"
  Providers :: "MixDescriptor list"

text \<open>
  The constants of \<^verbatim>\<open>katzenpost/core\<close> and \<^verbatim>\<open>katzenpost/client\<close> that the sources refer to by name.
  Their values are not part of this repository, so they are an argument of the definitions
  that use them.  \<open>NrHops\<close>, the greatest number of hops of a Sphinx packet, is not used by the
  code: it bounds the paths that the packet constructors accept (\<open>sphinx_accepts\<close>).
\<close>

record kconst =
  LayerProvider :: u8
  NodeIDLength :: nat
  RecipientIDLength :: nat
  SURBIDLength :: nat
  SURBLength :: nat
  NrHops :: nat
  MessageIDLength :: nat
  UserForwardPayloadLength :: nat
  ForwardPayloadLength :: nat
  MaxEgressQueueSize :: nat
  MaxAdditionalDataLength :: nat
  RoundTripTimeSlop :: int
  GarbageCollectionInterval :: int
  TimeSkewWarnDelta :: int
  LoopService :: string
  ClientTransports :: "string list"

text \<open>
  A random source: \<open>Intn\<close> of \<^verbatim>\<open>math/rand\<close> and \<open>uint64(rand.Exp(rng, rate))\<close>, the truncated
  exponential sample that every caller in the client takes.
\<close>

record 'r rng_ops =
  Intn :: "'r \<Rightarrow> nat \<Rightarrow> 'r \<times> nat"
  ExpU64 :: "'r \<Rightarrow> float64 \<Rightarrow> 'r \<times> u64"

definition rng_ok :: "'r rng_ops \<Rightarrow> bool" where
  "rng_ok g \<longleftrightarrow> (\<forall>r n. 0 < n \<longrightarrow> snd (Intn g r n) < n)"

lemma rng_okD: "rng_ok g \<Longrightarrow> 0 < n \<Longrightarrow> snd (Intn g r n) < n"
  by (simp add: rng_ok_def)

text \<open>A concrete source for evaluation: it always picks the first alternative.\<close>

definition const_rng :: "u64 \<Rightarrow> unit rng_ops" where
  "const_rng w = \<lparr>Intn = (\<lambda>r n. (r, 0)), ExpU64 = (\<lambda>r mu. (r, w))\<rparr>"

lemma const_rng_ok [simp]: "rng_ok (const_rng w)"
  by (simp add: rng_ok_def const_rng_def)

definition empty_desc :: MixDescriptor where
  "empty_desc = \<lparr>Name = [], IdentityKey = [], LinkKey = [], MixKeys = [], Addresses = [],
     Kaetzchen = [], RegistrationHTTPAddresses = None, Layer = 0\<rparr>"

definition empty_doc :: "u64 \<Rightarrow> Document" where
  "empty_doc e = \<lparr>Epoch = e, Mu = 0, MuMaxDelay = 0, LambdaP = 0, LambdaPMaxDelay = 0,
     LambdaL = 0, LambdaLMaxDelay = 0, LambdaD = 0, LambdaDMaxDelay = 0,
     Topology = [], Providers = []\<rparr>"

text \<open>Small constants for evaluation.\<close>

definition example_const :: kconst where
  "example_const = \<lparr>LayerProvider = 255, NodeIDLength = 2, RecipientIDLength = 3, SURBIDLength = 2,
     SURBLength = 2, NrHops = 5, MessageIDLength = 2, UserForwardPayloadLength = 8, ForwardPayloadLength = 10,
     MaxEgressQueueSize = 3, MaxAdditionalDataLength = 255, RoundTripTimeSlop = Second,
     GarbageCollectionInterval = Second, TimeSkewWarnDelta = Second, LoopService = ''loop'',
     ClientTransports = [''tcp4'']\<rparr>"

lemma Epoch_empty_doc [simp]: "Epoch (empty_doc e) = e"
  by (simp add: empty_doc_def)

end
