(* ===== verification/Meson_Path.thy ===== *)
theory Meson_Path
  imports Meson_Types
begin

text \<open>
  \<^verbatim>\<open>src/minclient/path.go\<close>: selection of the hops of a Sphinx path and of their delays.  The
  generator state is threaded through every draw in the order the code draws; \<open>time.Time\<close> values
  are nanoseconds.  \<open>doc.GetNodeByKey\<close> is third-party code and an argument of \<open>ToString\<close>.
\<close>

section \<open>Definitions\<close>

definition maxAttempts :: nat where "maxAttempts = 3"

definition errMaxAttempts :: go_error where
  "errMaxAttempts = Sentinel ''path: max path selection attempts exceeded''"

text \<open>The routing commands of \<^verbatim>\<open>core/sphinx/commands\<close> and \<open>sphinx.PathHop\<close>.\<close>

datatype RoutingCommand = NodeDelay u32 | RecipientCmd bytes | SURBReply bytes

record PathHop =
  hop_ID :: bytes
  hop_PublicKey :: bytes
  hop_Commands :: "RoutingCommand list"

text \<open>The loop of \<open>selectHops\<close> over the layers, from layer index \<open>i\<close>, with the hops so far.\<close>

fun select_layers ::
  "'r rng_ops \<Rightarrow> 'r \<Rightarrow> nat \<Rightarrow> nat \<Rightarrow> MixDescriptor list list \<Rightarrow> MixDescriptor list \<Rightarrow>
   ('r \<times> MixDescriptor list result) outcome" where
  "select_layers g r dstLayer i [] hops = Ok (r, Inr hops)"
| "select_layers g r dstLayer i (nodes # layers) hops =
     (if i = dstLayer then Ok (r, Inr hops)
      else if length nodes = 0 then
        Ok (r, Inl (Errorf ''path: layer %v has no nodes'' [ArgI (int i)]))
      else (case Intn g r (length nodes) of (r', k) \<Rightarrow>
        obind (get_at nodes (int k)) (\<lambda>n.
          select_layers g r' dstLayer (Suc i) layers (hops @ [n]))))"

text \<open>
  What the first part of \<open>selectHops\<close> decides: an error, a direct hop to the destination, or the
  first layer and the number of hops.
\<close>

datatype hop_plan = PlanError go_error | PlanDirect | PlanFrom int int

definition plan_hops ::
  "kconst \<Rightarrow> Document \<Rightarrow> MixDescriptor \<Rightarrow> MixDescriptor \<Rightarrow> bool \<Rightarrow> bool \<Rightarrow> hop_plan" where
  "plan_hops K d src dst isFromClient isForward =
    (let n = int (length (Topology d)) in
     if isForward then
       (if Layer dst \<noteq> LayerProvider K then
          PlanError (Errorf ''path: invalid destination layer: %v'' [ArgI (uint (Layer dst))])
        else if isFromClient then
          (if Layer src \<noteq> LayerProvider K then
             PlanError (Errorf ''path: invalid source layer: %v'' [ArgI (uint (Layer src))])
           else PlanFrom 0 (n + 2))
        else
          (if Layer src = LayerProvider K then PlanFrom 0 n
           else if uint (Layer src) = n - 1 then PlanDirect
           else PlanFrom (uint (Layer src) + 1) (n - (uint (Layer src) + 1))))
     else
       (if Layer src \<noteq> LayerProvider K then
          PlanError (Errorf ''path: invalid source layer: %v'' [ArgI (uint (Layer src))])
        else if Layer dst = LayerProvider K then PlanFrom 0 (n + 1)
        else if Layer dst = 0 then PlanDirect
        else PlanFrom 0 (uint (Layer dst) + 1)))"

definition selectHops ::
  "kconst \<Rightarrow> 'r rng_ops \<Rightarrow> 'r \<Rightarrow> Document \<Rightarrow> MixDescriptor \<Rightarrow> MixDescriptor \<Rightarrow> bool \<Rightarrow> bool \<Rightarrow>
   ('r \<times> MixDescriptor list result) outcome" where
  "selectHops K g r d src dst isFromClient isForward =
    (case plan_hops K d src dst isFromClient isForward of
       PlanError e \<Rightarrow> Ok (r, Inl e)
     | PlanDirect \<Rightarrow> Ok (r, Inr [dst])
     | PlanFrom startLayer nHops \<Rightarrow>
         if nHops < 0 then Panic ''makeslice: cap out of range''
         else
           let hops = (if isForward \<and> isFromClient then [src] else []) in
           obind (go_slice (Topology d) (nat startLayer) (length (Topology d))) (\<lambda>layers.
             obind (select_layers g r (unat (Layer dst)) 0 layers hops) (\<lambda>(r', res).
               case res of Inl e \<Rightarrow> Ok (r', Inl e) | Inr hs \<Rightarrow> Ok (r', Inr (hs @ [dst])))))"

text \<open>The delay drawn for a hop, in milliseconds.\<close>

definition draw_delay :: "'r rng_ops \<Rightarrow> 'r \<Rightarrow> Document \<Rightarrow> 'r \<times> u64" where
  "draw_delay g r d =
    (case ExpU64 g r (Mu d) of (r', x) \<Rightarrow>
       let delay = x + 1 in
       (r', if MuMaxDelay d > 0 \<and> delay > MuMaxDelay d then MuMaxDelay d else delay))"

text \<open>
  The loop of \<open>NewPath\<close> over the selected descriptors, at index \<open>idx\<close> of \<open>n\<close>: the generator, and
  \<open>None\<close> when a descriptor has no key for the epoch, else the path and the time at its end.
\<close>

fun build_hops ::
  "kconst \<Rightarrow> 'r rng_ops \<Rightarrow> 'r \<Rightarrow> Document \<Rightarrow> bytes \<Rightarrow> bytes option \<Rightarrow> bool \<Rightarrow> u64 \<Rightarrow> nat \<Rightarrow> nat \<Rightarrow>
   MixDescriptor list \<Rightarrow> int \<Rightarrow> PathHop list \<Rightarrow> 'r \<times> (PathHop list \<times> int) option" where
  "build_hops K g r d recipient surbID isForward ep n idx [] t path = (r, Some (path, t))"
| "build_hops K g r d recipient surbID isForward ep n idx (desc # descs) t path =
     (case map_of (MixKeys desc) ep of
        None \<Rightarrow> (r, None)
      | Some k \<Rightarrow>
          (let hid = copy_into (replicate (NodeIDLength K) 0) 0 (IdentityKey desc);
               delayed = (idx \<noteq> n - 1 \<or> (surbID \<noteq> None \<and> isForward));
               (r', delay) = (if delayed then draw_delay g r d else (r, 0));
               t' = (if delayed then t + to_i64 (i64_of_u64 delay * Millisecond) else t);
               c1 = (if delayed then [NodeDelay (ucast delay)] else []);
               c2 = (if idx = n - 1
                     then [RecipientCmd (copy_into (replicate (RecipientIDLength K) 0) 0 recipient)]
                     else []);
               c3 = (if idx = n - 1 \<and> surbID \<noteq> None \<and> \<not> isForward
                     then [SURBReply (copy_into (replicate (SURBIDLength K) 0) 0 (the surbID))]
                     else []);
               h = \<lparr>hop_ID = hid, hop_PublicKey = k, hop_Commands = c1 @ c2 @ c3\<rparr>
           in build_hops K g r' d recipient surbID isForward ep n (Suc idx) descs t' (path @ [h])))"

text \<open>The attempts of \<open>NewPath\<close>: each failed attempt moves on to the next epoch.\<close>

fun NewPath_attempts ::
  "nat \<Rightarrow> kconst \<Rightarrow> 'r rng_ops \<Rightarrow> 'r \<Rightarrow> Document \<Rightarrow> bytes \<Rightarrow> MixDescriptor \<Rightarrow> MixDescriptor \<Rightarrow>
   bytes option \<Rightarrow> int \<Rightarrow> bool \<Rightarrow> bool \<Rightarrow> u64 \<Rightarrow> ('r \<times> (PathHop list \<times> int) result) outcome" where
  "NewPath_attempts 0 K g r d recipient src dst surbID baseTime isFromClient isForward ep =
     Ok (r, Inl errMaxAttempts)"
| "NewPath_attempts (Suc m) K g r d recipient src dst surbID baseTime isFromClient isForward ep =
     obind (selectHops K g r d src dst isFromClient isForward) (\<lambda>(r1, res).
       case res of
         Inl e \<Rightarrow> Ok (r1, Inl e)
       | Inr descs \<Rightarrow>
           (case build_hops K g r1 d recipient surbID isForward ep (length descs) 0 descs baseTime [] of
              (r2, Some p) \<Rightarrow> Ok (r2, Inr p)
            | (r2, None) \<Rightarrow>
                NewPath_attempts m K g r2 d recipient src dst surbID baseTime isFromClient isForward
                  (ep + 1)))"

definition NewPath ::
  "kconst \<Rightarrow> 'r rng_ops \<Rightarrow> 'r \<Rightarrow> Document \<Rightarrow> bytes \<Rightarrow> MixDescriptor \<Rightarrow> MixDescriptor \<Rightarrow>
   bytes option \<Rightarrow> int \<Rightarrow> bool \<Rightarrow> bool \<Rightarrow> u64 \<Rightarrow> ('r \<times> (PathHop list \<times> int) result) outcome" where
  "NewPath K g r d recipient src dst surbID baseTime isFromClient isForward ep =
     NewPath_attempts maxAttempts K g r d recipient src dst surbID baseTime isFromClient isForward ep"

text \<open>\<open>ToString\<close>: the first delay command of each hop, and the name of the node it visits.\<close>

fun hop_delay :: "RoutingCommand list \<Rightarrow> u32" where
  "hop_delay [] = 0"
| "hop_delay (NodeDelay w # cs) = w"
| "hop_delay (c # cs) = hop_delay cs"

fun ToString_loop ::
  "(bytes \<Rightarrow> MixDescriptor result) \<Rightarrow> nat \<Rightarrow> PathHop list \<Rightarrow> string list \<Rightarrow> string list result" where
  "ToString_loop getNodeByKey idx [] s = Inr s"
| "ToString_loop getNodeByKey idx (v # vs) s =
     (case getNodeByKey (hop_ID v) of
        Inl err \<Rightarrow> Inl err
      | Inr desc \<Rightarrow>
          ToString_loop getNodeByKey (Suc idx) vs
            (s @ [''Hop['' @ itoa idx @ ''] '' @ [CHR 0x27] @ Name desc @ [CHR 0x27] @ '' - ''
                  @ itoa (unat (hop_delay (hop_Commands v))) @ '' ms'']))"

definition ToString :: "(bytes \<Rightarrow> MixDescriptor result) \<Rightarrow> PathHop list \<Rightarrow> string list result" where
  "ToString getNodeByKey p = ToString_loop getNodeByKey 0 p []"

text \<open>
  The specification of one hop: where it goes, which key it uses, and its commands.  Every hop
  but the last, and the last one of a forward path with a SURB, carries a delay; the last hop
  carries the recipient, and on a reply path the SURB identifier.
\<close>

definition is_delayed :: "bytes option \<Rightarrow> bool \<Rightarrow> nat \<Rightarrow> nat \<Rightarrow> bool" where
  "is_delayed surbID isForward n i \<longleftrightarrow> i \<noteq> n - 1 \<or> (surbID \<noteq> None \<and> isForward)"

definition hop_spec ::
  "kconst \<Rightarrow> Document \<Rightarrow> u64 \<Rightarrow> bytes \<Rightarrow> bytes option \<Rightarrow> bool \<Rightarrow> nat \<Rightarrow> nat \<Rightarrow>
   MixDescriptor \<Rightarrow> PathHop \<Rightarrow> bool" where
  "hop_spec K d ep recipient surbID isForward n i desc h \<longleftrightarrow>
     hop_ID h = copy_into (replicate (NodeIDLength K) 0) 0 (IdentityKey desc) \<and>
     map_of (MixKeys desc) ep = Some (hop_PublicKey h) \<and>
     (\<exists>w. hop_Commands h =
        (if is_delayed surbID isForward n i then [NodeDelay w] else []) @
        (if i = n - 1 then [RecipientCmd (copy_into (replicate (RecipientIDLength K) 0) 0 recipient)]
         else []) @
        (if i = n - 1 \<and> surbID \<noteq> None \<and> \<not> isForward
         then [SURBReply (copy_into (replicate (SURBIDLength K) 0) 0 (the surbID))] else []) \<and>
        (0 < uint (MuMaxDelay d) \<and> uint (MuMaxDelay d) < 2 ^ 32 \<longrightarrow> uint w \<le> uint (MuMaxDelay d)))"

text \<open>The delay a hop tells its node to apply, in nanoseconds, and the total of a path.\<close>

definition hop_nanos :: "PathHop \<Rightarrow> int" where
  "hop_nanos h = uint (hop_delay (hop_Commands h)) * Millisecond"

definition path_nanos :: "PathHop list \<Rightarrow> int" where
  "path_nanos p = (\<Sum>h \<leftarrow> p. hop_nanos h)"

section \<open>Lemmas\<close>

lemma select_layers_all:
  assumes "rng_ok g" and "\<forall>nodes \<in> set layers. nodes \<noteq> []" and "i + length layers \<le> dl"
  shows "\<exists>r' mids. select_layers g r dl i layers hops = Ok (r', Inr (hops @ mids)) \<and>
    list_all2 (\<lambda>m nodes. m \<in> set nodes) mids layers"
  using assms
proof (induction layers arbitrary: i r hops)
  case Nil
  then show ?case by simp
next
  case (Cons nodes layers)
  obtain r' k where k: "Intn g r (length nodes) = (r', k)" by fastforce
  have "k < length nodes" using rng_okD [OF Cons.prems(1), of "length nodes" r] k Cons.prems(2) by simp
  then have at: "get_at nodes (int k) = Ok (nodes ! k)" and mem: "nodes ! k \<in> set nodes"
    by (simp_all add: go_simps)
  obtain r'' mids where "select_layers g r' dl (Suc i) layers (hops @ [nodes ! k]) =
      Ok (r'', Inr ((hops @ [nodes ! k]) @ mids))" "list_all2 (\<lambda>m nodes. m \<in> set nodes) mids layers"
    using Cons.IH [OF Cons.prems(1), of "Suc i" r' "hops @ [nodes ! k]"] Cons.prems(2,3) by auto
  then show ?case
    using k at mem Cons.prems(2,3) by (intro exI [of _ r''] exI [of _ "nodes ! k # mids"]) auto
qed

lemma select_layers_empty:
  assumes "rng_ok g" and "\<forall>nodes \<in> set ls. nodes \<noteq> []" and "i + length ls < dl"
  shows "\<exists>r'. select_layers g r dl i (ls @ [] # rest) hops =
    Ok (r', Inl (Errorf ''path: layer %v has no nodes'' [ArgI (int (i + length ls))]))"
  using assms
proof (induction ls arbitrary: i r hops)
  case Nil
  then show ?case by simp
next
  case (Cons nodes ls)
  obtain r' k where k: "Intn g r (length nodes) = (r', k)" by fastforce
  have "k < length nodes" using rng_okD [OF Cons.prems(1), of "length nodes" r] k Cons.prems(2) by simp
  then have "get_at nodes (int k) = Ok (nodes ! k)" by (simp add: go_simps)
  then show ?case
    using k Cons.prems(2,3) Cons.IH [OF Cons.prems(1), of "Suc i" r' "hops @ [nodes ! k]"] by simp
qed

lemma draw_delay_bound:
  assumes "0 < uint (MuMaxDelay d)" and "draw_delay g r d = (r', delay)"
  shows "uint delay \<le> uint (MuMaxDelay d)"
  using assms by (auto simp: draw_delay_def word_less_def split_beta Let_def split: if_splits)

lemma delay_exact:
  assumes "uint (delay :: u64) < 2 ^ 32"
  shows "uint (ucast delay :: u32) = uint delay"
    and "to_i64 (i64_of_u64 delay * Millisecond) = uint delay * Millisecond"
proof -
  show "uint (ucast delay :: u32) = uint delay"
    using assms by (simp add: unsigned_ucast_eq take_bit_int_eq_self)
  have "i64_of_u64 delay = uint delay" using assms by (intro i64_of_u64_small) simp
  then show "to_i64 (i64_of_u64 delay * Millisecond) = uint delay * Millisecond"
    using assms by (simp add: to_i64_id is_i64_def Millisecond_def
        order_trans [OF _ mult_nonneg_nonneg])
qed

lemma build_hops_spec:
  assumes "build_hops K g r d recipient surbID isForward ep n idx descs t path = (r', Some (p, t'))"
  shows "\<exists>hs. p = path @ hs \<and> length hs = length descs \<and>
    (\<forall>i < length descs. hop_spec K d ep recipient surbID isForward n (idx + i) (descs ! i) (hs ! i)) \<and>
    (0 < uint (MuMaxDelay d) \<and> uint (MuMaxDelay d) < 2 ^ 32 \<longrightarrow> t' = t + path_nanos hs)"
  using assms
proof (induction descs arbitrary: r idx t path)
  case Nil
  then show ?case by (simp add: path_nanos_def)
next
  case (Cons desc descs)
  let ?mu = "0 < uint (MuMaxDelay d) \<and> uint (MuMaxDelay d) < 2 ^ 32"
  define dl where "dl = is_delayed surbID isForward n idx"
  obtain r1 delay where dd: "(if dl then draw_delay g r d else (r, 0)) = (r1, delay)" by fastforce
  from Cons.prems obtain k where k: "map_of (MixKeys desc) ep = Some k"
    by (auto split: option.splits)
  define h where "h = \<lparr>hop_ID = copy_into (replicate (NodeIDLength K) 0) 0 (IdentityKey desc),
     hop_PublicKey = k, hop_Commands = (if dl then [NodeDelay (ucast delay)] else []) @
        (if idx = n - 1 then [RecipientCmd (copy_into (replicate (RecipientIDLength K) 0) 0 recipient)]
         else []) @
        (if idx = n - 1 \<and> surbID \<noteq> None \<and> \<not> isForward
         then [SURBReply (copy_into (replicate (SURBIDLength K) 0) 0 (the surbID))] else [])\<rparr>"
  define t1 where "t1 = (if dl then t + to_i64 (i64_of_u64 delay * Millisecond) else t)"
  have step: "build_hops K g r1 d recipient surbID isForward ep n (Suc idx) descs t1 (path @ [h]) =
      (r', Some (p, t'))"
    using Cons.prems k dd by (simp add: Let_def dl_def is_delayed_def t1_def h_def)
  obtain hs where hs: "p = (path @ [h]) @ hs" "length hs = length descs"
      "\<forall>i < length descs. hop_spec K d ep recipient surbID isForward n (Suc idx + i) (descs ! i) (hs ! i)"
      "?mu \<longrightarrow> t' = t1 + path_nanos hs"
    using Cons.IH [OF step] by blast
  have small: "uint delay < 2 ^ 32 \<and> uint delay \<le> uint (MuMaxDelay d)" if ?mu and dl
    using draw_delay_bound [of d g r r1 delay] dd that by auto
  have nanos: "t1 = t + hop_nanos h" if ?mu
    using small [OF that] delay_exact [of delay] by (auto simp: t1_def hop_nanos_def h_def)
  have spec: "hop_spec K d ep recipient surbID isForward n idx desc h"
    unfolding hop_spec_def
  proof (intro conjI exI [of _ "if dl then ucast delay else 0"])
    show "?mu \<longrightarrow> uint (if dl then ucast delay else 0 :: u32) \<le> uint (MuMaxDelay d)"
      using small delay_exact(1) [of delay] by auto
  qed (simp_all add: h_def k dl_def)
  show ?case
  proof (intro exI [of _ "h # hs"] conjI allI impI)
    show "hop_spec K d ep recipient surbID isForward n (idx + i) ((desc # descs) ! i) ((h # hs) ! i)"
      if "i < length (desc # descs)" for i
      using that spec hs(3) by (cases i) auto
    show "t' = t + path_nanos (h # hs)" if ?mu
      using hs(4) nanos that by (simp add: path_nanos_def)
  qed (simp_all add: hs(1,2))
qed

lemma build_hops_total:
  assumes "\<forall>desc \<in> set descs. map_of (MixKeys desc) ep \<noteq> None"
  shows "\<exists>r' p t'. build_hops K g r d recipient surbID isForward ep n idx descs t path = (r', Some (p, t'))"
  using assms
proof (induction descs arbitrary: r idx t path)
  case (Cons desc descs)
  then obtain k where k: "map_of (MixKeys desc) ep = Some k" by auto
  show ?case
    using k Cons.IH Cons.prems by (simp add: Let_def split_beta)
qed simp

lemma build_hops_missing:
  assumes "desc \<in> set descs" and "map_of (MixKeys desc) ep = None"
  shows "\<exists>r'. build_hops K g r d recipient surbID isForward ep n idx descs t path = (r', None)"
  using assms
proof (induction descs arbitrary: r idx t path)
  case (Cons x descs)
  show ?case
  proof (cases "map_of (MixKeys x) ep")
    case (Some k)
    with Cons.prems have "desc \<in> set descs" by auto
    with Cons.IH Cons.prems(2) Some show ?thesis by (simp add: Let_def split_beta)
  qed simp
qed simp

lemma hop_nanos_bound:
  assumes "hop_spec K d ep recipient surbID isForward n i desc h"
    and "0 < uint (MuMaxDelay d)" and "uint (MuMaxDelay d) < 2 ^ 32"
  shows "0 \<le> hop_nanos h \<and> hop_nanos h \<le> uint (MuMaxDelay d) * Millisecond"
proof -
  have "hop_delay (hop_Commands h) = 0 \<or> uint (hop_delay (hop_Commands h)) \<le> uint (MuMaxDelay d)"
    using assms by (auto simp: hop_spec_def)
  then have "uint (hop_delay (hop_Commands h)) \<le> uint (MuMaxDelay d)" using assms(2) by auto
  then show ?thesis by (simp add: hop_nanos_def Millisecond_def)
qed

lemma path_nanos_bound:
  assumes "\<forall>h \<in> set p. 0 \<le> hop_nanos h \<and> hop_nanos h \<le> m"
  shows "0 \<le> path_nanos p \<and> path_nanos p \<le> int (length p) * m"
  using assms by (induction p) (auto simp: path_nanos_def algebra_simps)

text \<open>
  The situation in which the client selects paths: the source and the destination are providers
  and no layer of the topology is empty.
\<close>

definition client_route_ok ::
  "kconst \<Rightarrow> Document \<Rightarrow> MixDescriptor \<Rightarrow> MixDescriptor \<Rightarrow> bool" where
  "client_route_ok K d src dst \<longleftrightarrow> Layer src = LayerProvider K \<and> Layer dst = LayerProvider K \<and>
     length (Topology d) \<le> unat (LayerProvider K) \<and> [] \<notin> set (Topology d)"

definition client_route ::
  "MixDescriptor \<Rightarrow> MixDescriptor \<Rightarrow> bool \<Rightarrow> MixDescriptor list \<Rightarrow> MixDescriptor list" where
  "client_route src dst isForward mids = (if isForward then [src] else []) @ mids @ [dst]"

lemma plan_client:
  "Layer src = LayerProvider K \<Longrightarrow> Layer dst = LayerProvider K \<Longrightarrow>
   plan_hops K d src dst True isForward =
     PlanFrom 0 (int (length (Topology d)) + (if isForward then 2 else 1))"
  by (simp add: plan_hops_def Let_def)

lemma selectHops_client:
  assumes "rng_ok g" and "client_route_ok K d src dst"
  shows "\<exists>r' mids. selectHops K g r d src dst True isForward =
      Ok (r', Inr (client_route src dst isForward mids)) \<and>
    list_all2 (\<lambda>m nodes. m \<in> set nodes) mids (Topology d)"
proof -
  have ok: "Layer src = LayerProvider K" "Layer dst = LayerProvider K"
      "length (Topology d) \<le> unat (LayerProvider K)" "\<forall>nodes \<in> set (Topology d). nodes \<noteq> []"
    using assms(2) by (auto simp: client_route_ok_def)
  obtain r' mids where m: "select_layers g r (unat (Layer dst)) 0 (Topology d)
      (if isForward then [src] else []) = Ok (r', Inr ((if isForward then [src] else []) @ mids))"
      "list_all2 (\<lambda>m nodes. m \<in> set nodes) mids (Topology d)"
    using select_layers_all [OF assms(1) ok(4), of 0 "unat (Layer dst)" r
        "if isForward then [src] else []"] ok(2,3) by auto
  have "selectHops K g r d src dst True isForward = Ok (r', Inr (client_route src dst isForward mids))"
    using m(1) ok(1,2) by (cases isForward) (simp_all add: selectHops_def plan_client go_slice_def
        client_route_def)
  with m(2) show ?thesis by blast
qed

lemma mids_in_topology:
  "list_all2 (\<lambda>m nodes. m \<in> set nodes) mids ls \<Longrightarrow> m \<in> set mids \<Longrightarrow> \<exists>nodes \<in> set ls. m \<in> set nodes"
  by (induction rule: list_all2_induct) auto

section \<open>Properties\<close>

definition prov :: "string \<Rightarrow> u8 \<Rightarrow> MixDescriptor" where
  "prov nm k = empty_desc\<lparr>Name := nm, IdentityKey := [k, k], Layer := 255, MixKeys := [(4, [k])]\<rparr>"

definition mix :: "u8 \<Rightarrow> MixDescriptor" where
  "mix k = empty_desc\<lparr>IdentityKey := [k, k], MixKeys := [(4, [k])]\<rparr>"

definition doc4 :: Document where
  "doc4 = (empty_doc 4)\<lparr>Topology := [[mix 1, mix 2]], MuMaxDelay := 100\<rparr>"

lemma route4_ok: "client_route_ok example_const doc4 (prov ''a'' 7) (prov ''b'' 8)"
  by (simp add: client_route_ok_def example_const_def doc4_def prov_def)

text \<open>
  The first empty layer of the topology is reported by its index, and no path is selected.
\<close>

lemma selectHops_empty_layer:
  assumes "rng_ok g" and "Layer src = LayerProvider K" and "Layer dst = LayerProvider K"
    and "Topology d = ls @ [] # rest" and "[] \<notin> set ls" and "length ls < unat (LayerProvider K)"
  shows "\<exists>r'. selectHops K g r d src dst True isForward =
    Ok (r', Inl (Errorf ''path: layer %v has no nodes'' [ArgI (int (length ls))]))"
proof -
  have ne: "\<forall>nodes \<in> set ls. nodes \<noteq> []" using assms(5) by auto
  obtain r' where "select_layers g r (unat (Layer dst)) 0 (ls @ [] # rest)
      (if isForward then [src] else []) =
      Ok (r', Inl (Errorf ''path: layer %v has no nodes'' [ArgI (int (length ls))]))"
    using select_layers_empty [OF assms(1) ne, of 0 "unat (Layer dst)" r rest
        "if isForward then [src] else []"] assms(3,6) by auto
  with assms(2-4) show ?thesis
    by (cases isForward) (simp_all add: selectHops_def plan_client go_slice_def)
qed

lemma NewPath_attempts_sound:
  assumes "NewPath_attempts m K g r d recipient src dst surbID t0 c isForward ep = Ok (r', Inr (p, t))"
  shows "\<exists>k r0 r1 descs. k < m \<and> selectHops K g r0 d src dst c isForward = Ok (r1, Inr descs) \<and>
    length p = length descs \<and>
    (\<forall>i < length descs. hop_spec K d (ep + word_of_nat k) recipient surbID isForward (length descs) i
       (descs ! i) (p ! i)) \<and>
    (0 < uint (MuMaxDelay d) \<and> uint (MuMaxDelay d) < 2 ^ 32 \<longrightarrow> t = t0 + path_nanos p)"
  using assms
proof (induction m arbitrary: r ep)
  case 0
  then show ?case by simp
next
  case (Suc m)
  obtain r1 descs where sel: "selectHops K g r d src dst c isForward = Ok (r1, Inr descs)"
    using Suc.prems
    by (cases "selectHops K g r d src dst c isForward") (auto split: sum.splits)
  obtain r2 o2 where b: "build_hops K g r1 d recipient surbID isForward ep (length descs) 0 descs t0 [] = (r2, o2)"
    by fastforce
  show ?case
  proof (cases o2)
    case None
    with Suc.prems sel b have
      "NewPath_attempts m K g r2 d recipient src dst surbID t0 c isForward (ep + 1) = Ok (r', Inr (p, t))"
      by simp
    from Suc.IH [OF this] obtain k where "k < m" "\<exists>r0 r1 descs.
        selectHops K g r0 d src dst c isForward = Ok (r1, Inr descs) \<and> length p = length descs \<and>
        (\<forall>i < length descs. hop_spec K d (ep + 1 + word_of_nat k) recipient surbID isForward
          (length descs) i (descs ! i) (p ! i)) \<and>
        (0 < uint (MuMaxDelay d) \<and> uint (MuMaxDelay d) < 2 ^ 32 \<longrightarrow> t = t0 + path_nanos p)"
      by blast
    then show ?thesis by (intro exI [of _ "Suc k"]) (simp add: algebra_simps)
  next
    case (Some q)
    with Suc.prems sel b have "q = (p, t)" by simp
    with b Some have bp: "build_hops K g r1 d recipient surbID isForward ep (length descs) 0 descs t0 []
        = (r2, Some (p, t))" by simp
    from build_hops_spec [OF bp] sel show ?thesis by (intro exI [of _ 0]) auto
  qed
qed

text \<open>
  C12. Every path \<open>NewPath\<close> returns visits the selected descriptors in order, each hop with the
  node's key of one and the same epoch (the requested one or one of the two after it), with the
  delay, recipient and SURB commands its position calls for; and, when the document bounds the
  delays below \<open>2^32\<close> milliseconds, the time returned is the base time plus exactly the delays the
  hops carry.
\<close>

theorem NewPath_sound:
  assumes "NewPath K g r d recipient src dst surbID t0 c isForward ep = Ok (r', Inr (p, t))"
  shows "\<exists>k r0 r1 descs. k < 3 \<and> selectHops K g r0 d src dst c isForward = Ok (r1, Inr descs) \<and>
    length p = length descs \<and>
    (\<forall>i < length descs. hop_spec K d (ep + word_of_nat k) recipient surbID isForward (length descs) i
       (descs ! i) (p ! i)) \<and>
    (0 < uint (MuMaxDelay d) \<and> uint (MuMaxDelay d) < 2 ^ 32 \<longrightarrow> t = t0 + path_nanos p)"
  using NewPath_attempts_sound [OF assms [unfolded NewPath_def]] by (simp add: maxAttempts_def)

definition path4 :: "PathHop list" where
  "path4 = [\<lparr>hop_ID = [7, 7], hop_PublicKey = [7], hop_Commands = [NodeDelay 6]\<rparr>,
     \<lparr>hop_ID = [1, 1], hop_PublicKey = [1], hop_Commands = [NodeDelay 6]\<rparr>,
     \<lparr>hop_ID = [8, 8], hop_PublicKey = [8], hop_Commands = [NodeDelay 6, RecipientCmd [9, 0, 0]]\<rparr>]"

lemma NewPath4:
  "NewPath example_const (const_rng 5) () doc4 [9] (prov ''a'' 7) (prov ''b'' 8) (Some [3, 4]) 1000
     True True 4 = Ok ((), Inr (path4, 18001000))"
  by (simp add: NewPath_def maxAttempts_def numeral_3_eq_3 selectHops_def plan_hops_def
      example_const_def doc4_def prov_def mix_def go_slice_def const_rng_def get_at_def
      draw_delay_def copy_into_def i64_of_u64_def to_i64_def Millisecond_def path4_def
      empty_desc_def empty_doc_def)

theorem NewPath_sound_witness:
  "0 < uint (MuMaxDelay doc4) \<and> (18001000::int) = 1000 + path_nanos path4 \<and>
   (\<exists>k::nat. \<exists>r0 r1 descs. k < 3 \<and> selectHops example_const (const_rng 5) r0 doc4 (prov ''a'' 7)
       (prov ''b'' 8) True True = Ok (r1, Inr descs) \<and> length path4 = length descs)"
  using NewPath_sound [OF NewPath4] by (auto simp: doc4_def)

lemma NewPath_attempt_route:
  assumes "rng_ok g" and "client_route_ok K d src dst"
    and "\<forall>desc \<in> insert src (insert dst (\<Union>(set ` set (Topology d)))). map_of (MixKeys desc) ep \<noteq> None"
  shows "\<exists>r' p t mids. NewPath K g r d recipient src dst surbID t0 True isForward ep = Ok (r', Inr (p, t)) \<and>
    list_all2 (\<lambda>m nodes. m \<in> set nodes) mids (Topology d) \<and>
    length p = length (client_route src dst isForward mids) \<and>
    (\<forall>i < length p. hop_spec K d ep recipient surbID isForward (length p) i
       (client_route src dst isForward mids ! i) (p ! i)) \<and>
    (0 < uint (MuMaxDelay d) \<and> uint (MuMaxDelay d) < 2 ^ 32 \<longrightarrow> t = t0 + path_nanos p)"
proof -
  obtain r1 mids where sel: "selectHops K g r d src dst True isForward =
      Ok (r1, Inr (client_route src dst isForward mids))"
      and mids: "list_all2 (\<lambda>m nodes. m \<in> set nodes) mids (Topology d)"
    using selectHops_client [OF assms(1,2)] by blast
  let ?route = "client_route src dst isForward mids"
  have "\<forall>desc \<in> set ?route. map_of (MixKeys desc) ep \<noteq> None"
    using assms(3) mids_in_topology [OF mids] by (auto simp: client_route_def)
  from build_hops_total [OF this, of K g r1 d recipient surbID isForward "length ?route" 0 t0 "[]"]
  obtain r2 p t where b: "build_hops K g r1 d recipient surbID isForward ep (length ?route) 0
      ?route t0 [] = (r2, Some (p, t))" by blast
  have np: "NewPath K g r d recipient src dst surbID t0 True isForward ep = Ok (r2, Inr (p, t))"
    using sel b by (simp add: NewPath_def maxAttempts_def numeral_3_eq_3)
  from build_hops_spec [OF b] np mids show ?thesis
    by (intro exI [of _ r2] exI [of _ p] exI [of _ t] exI [of _ mids]) auto
qed

text \<open>
  The client's path requests succeed: with provider endpoints, no empty layer, and a mix key
  of the requested epoch in every descriptor involved, \<open>NewPath\<close> returns a path over one node of
  each layer at the first attempt, with the keys of the requested epoch.
\<close>

lemma NewPath_client_succeeds:
  assumes "rng_ok g" and "client_route_ok K d src dst"
    and "\<forall>desc \<in> insert src (insert dst (\<Union>(set ` set (Topology d)))). map_of (MixKeys desc) ep \<noteq> None"
  shows "\<exists>r' p t mids. NewPath K g r d recipient src dst surbID t0 True isForward ep = Ok (r', Inr (p, t)) \<and>
    list_all2 (\<lambda>m nodes. m \<in> set nodes) mids (Topology d) \<and>
    length p = length (client_route src dst isForward mids) \<and>
    (\<forall>i < length p. hop_spec K d ep recipient surbID isForward (length p) i
       (client_route src dst isForward mids ! i) (p ! i)) \<and>
    (0 < uint (MuMaxDelay d) \<and> uint (MuMaxDelay d) < 2 ^ 32 \<longrightarrow> t = t0 + path_nanos p)"
  by (rule NewPath_attempt_route [OF assms])

text \<open>
  \<open>NewPath\<close> gives up after three attempts, having tried the requested epoch and the two after
  it: if the destination has a mix key for none of the three, the result is \<open>errMaxAttempts\<close>.
\<close>

lemma NewPath_gives_up:
  assumes "rng_ok g" and "client_route_ok K d src dst"
    and "\<forall>k \<in> {0, 1, 2}. map_of (MixKeys dst) (ep + k) = None"
  shows "\<exists>r'. NewPath K g r d recipient src dst surbID t0 True isForward ep = Ok (r', Inl errMaxAttempts)"
proof -
  have "\<exists>r2. NewPath_attempts (Suc m) K g r d recipient src dst surbID t0 True isForward e =
      NewPath_attempts m K g r2 d recipient src dst surbID t0 True isForward (e + 1)"
    if miss: "map_of (MixKeys dst) e = None" for m r e
  proof -
    obtain r1 mids where sel: "selectHops K g r d src dst True isForward =
        Ok (r1, Inr (client_route src dst isForward mids))"
      using selectHops_client [OF assms(1,2)] by blast
    let ?route = "client_route src dst isForward mids"
    have "dst \<in> set ?route" by (simp add: client_route_def)
    from build_hops_missing [OF this miss, of K g r1 d recipient surbID isForward "length ?route" 0 t0 "[]"]
    obtain r2 where "build_hops K g r1 d recipient surbID isForward e (length ?route) 0 ?route t0 []
        = (r2, None)" by blast
    with sel show ?thesis by (intro exI [of _ r2]) simp
  qed
  note step = this
  have "map_of (MixKeys dst) ep = None" "map_of (MixKeys dst) (ep + 1) = None"
      "map_of (MixKeys dst) (ep + 1 + 1) = None"
    using assms(3) by (simp_all add: add.assoc)
  then show ?thesis
    unfolding NewPath_def maxAttempts_def numeral_3_eq_3
    by (metis step NewPath_attempts.simps(1))
qed

end
