(* ===== verification/Meson_Epochtime.thy ===== *)
theory Meson_Epochtime
  imports Meson_Types
begin

text \<open>
  \<^verbatim>\<open>src/pkiclient/epochtime/epochtime.go\<close>: the current epoch, the time spent in it and the time
  left, computed from the block height the PKI reports.  \<open>client.GetEpoch\<close> is the argument: the
  triple it returned.
\<close>

section \<open>Definitions\<close>

definition TestPeriod :: int where
  "TestPeriod = 10 * Second"

definition testEpochInterval :: u64 where
  "testEpochInterval = 10"

text \<open>The results of \<open>Client.GetEpoch\<close>: epoch, elapsed height, error.\<close>

type_synonym epoch_info = "u64 \<times> u64 \<times> go_error option"

definition Now :: "epoch_info \<Rightarrow> u64 \<times> int \<times> int \<times> go_error option" where
  "Now r = (case r of (epoch, ellapsedHeight, err) \<Rightarrow>
     let ellapsedHeight = (if ellapsedHeight > testEpochInterval then testEpochInterval
                           else ellapsedHeight);
         ellapsed = i64_of_u64 (u64_of_i64 TestPeriod * ellapsedHeight div testEpochInterval);
         till = to_i64 (TestPeriod - ellapsed);
         epoch = epoch - 1
     in (epoch, ellapsed, till, err))"

section \<open>Properties\<close>

lemma elapsed_value:
  assumes "h \<le> testEpochInterval"
  shows "i64_of_u64 (u64_of_i64 TestPeriod * h div testEpochInterval) = Second * uint h"
proof -
  have h: "uint h \<le> 10" using assms by (simp add: testEpochInterval_def word_le_def)
  have "uint (u64_of_i64 TestPeriod * h) = 10000000000 * uint h"
    using h by (simp add: u64_of_i64_def TestPeriod_def Second_def uint_word_ariths)
  then have "uint (u64_of_i64 TestPeriod * h div testEpochInterval) = 1000000000 * uint h"
    by (simp add: uint_div testEpochInterval_def)
  with h show ?thesis by (simp add: i64_of_u64_small Second_def)
qed

text \<open>
  The elapsed time and the time left are between zero and the epoch's period and add up to
  it, the elapsed time is one second per block up to the epoch's ten blocks, the error is
  passed on, and the epoch is the PKI's epoch minus one, wrapping to the largest epoch at zero.
\<close>

lemma Now_values:
  shows "case Now (e, h, err) of (epoch, ellapsed, till, err') \<Rightarrow>
    0 \<le> ellapsed \<and> ellapsed \<le> TestPeriod \<and> 0 \<le> till \<and> ellapsed + till = TestPeriod \<and>
    ellapsed = Second * min (uint h) 10 \<and> epoch = e - 1 \<and> err' = err"
proof -
  define h' where "h' = (if h > testEpochInterval then testEpochInterval else h)"
  have le: "h' \<le> testEpochInterval" by (auto simp: h'_def not_less)
  have m: "uint h' = min (uint h) 10"
    by (simp add: h'_def testEpochInterval_def word_less_def)
  obtain n where n: "uint h' = n" "n = min (uint h) 10" "0 \<le> n" "n \<le> 10"
    using m le by (simp add: testEpochInterval_def word_le_def)
  have v: "Now (e, h, err) = (e - 1, Second * n, to_i64 (TestPeriod - Second * n), err)"
    using elapsed_value [OF le] by (simp add: Now_def h'_def [symmetric] Let_def n(1))
  have "to_i64 (TestPeriod - Second * n) = TestPeriod - Second * n"
    using n(3,4) by (intro to_i64_id) (simp add: is_i64_def TestPeriod_def Second_def)
  with n(3,4) show ?thesis
    by (simp add: v n(2) [symmetric] TestPeriod_def Second_def)
qed

lemma Now_epoch: "fst (Now (e, h, err)) = e - 1"
  by (simp add: Now_def Let_def)

end
