(* ===== verification/Meson_MinClient.thy ===== *)
theory Meson_MinClient
  imports Meson_Types
begin

text \<open>
  \<^verbatim>\<open>src/minclient/client.go\<close>: the configuration of the minimal client, its validation, and the
  life cycle of a \<open>Client\<close>.  Optional pointers are options; a callback is represented by whether
  it is set, since what it does is the session's business.  Starting and halting the two worker
  components is recorded in a trace.
\<close>

section \<open>Definitions\<close>

record ClientConfig =
  cfg_User :: string
  cfg_Provider :: string
  cfg_ProviderKeyPin :: "bytes option"
  cfg_LinkKey :: "bytes option"
  cfg_LogBackend :: "unit option"
  cfg_PKIClient :: "unit option"
  cfg_OnConnFn :: bool
  cfg_OnEmptyFn :: bool
  cfg_OnMessageFn :: bool
  cfg_OnACKFn :: bool
  cfg_OnDocumentFn :: bool
  cfg_DialContextFn :: bool
  cfg_PreferedTransports :: "string list option"
  cfg_MessagePollInterval :: int
  cfg_EnableTimeSync :: bool

definition validate :: "kconst \<Rightarrow> ClientConfig \<Rightarrow> go_error option" where
  "validate K cfg =
    (if cfg_User cfg = '''' \<or> length (cfg_User cfg) > MaxAdditionalDataLength K then
       Some (Errorf (''minclient: invalid User: '' @ quoted_v) [ArgS (cfg_User cfg)])
     else if cfg_Provider cfg = '''' then
       Some (Errorf (''minclient: invalid Provider: '' @ quoted_v) [ArgS (cfg_Provider cfg)])
     else if cfg_LinkKey cfg = None then Some (Errorf ''minclient: no LinkKey provided'' [])
     else if cfg_LogBackend cfg = None then Some (Errorf ''minclient: no LogBackend provided'' [])
     else if cfg_PKIClient cfg = None then Some (Errorf ''minclient: no PKIClient provided'' [])
     else None)"

text \<open>The life cycle: which components exist, whether \<open>haltOnce\<close> ran, and what was done in order.\<close>

datatype life_event = PkiStarted | ConnStarted | ConnHalted | PkiHalted | HaltedChClosed

record Client =
  cl_cfg :: ClientConfig
  cl_displayName :: string
  cl_hasConn :: bool
  cl_hasPki :: bool
  cl_haltOnce :: bool
  cl_trace :: "life_event list"

definition SetPollInterval :: "Client \<Rightarrow> int \<Rightarrow> Client" where
  "SetPollInterval c interval = c\<lparr>cl_cfg := (cl_cfg c)\<lparr>cfg_MessagePollInterval := interval\<rparr>\<rparr>"

definition GetPollInterval :: "Client \<Rightarrow> int" where
  "GetPollInterval c = cfg_MessagePollInterval (cl_cfg c)"

text \<open>\<open>close(c.haltedCh)\<close> panics on a channel that is closed already.\<close>

definition close_haltedCh :: "Client \<Rightarrow> Client outcome" where
  "close_haltedCh c = (if HaltedChClosed \<in> set (cl_trace c) then Panic ''close of closed channel''
     else Ok (c\<lparr>cl_trace := cl_trace c @ [HaltedChClosed]\<rparr>))"

definition min_halt :: "Client \<Rightarrow> Client outcome" where
  "min_halt c =
    (let c1 = (if cl_hasConn c then c\<lparr>cl_trace := cl_trace c @ [ConnHalted]\<rparr> else c);
         c2 = (if cl_hasPki c1 then c1\<lparr>cl_trace := cl_trace c1 @ [PkiHalted], cl_hasPki := False\<rparr> else c1);
         c3 = c2\<lparr>cl_hasConn := False\<rparr>
     in close_haltedCh c3)"

definition min_Shutdown :: "Client \<Rightarrow> Client outcome" where
  "min_Shutdown c = (if cl_haltOnce c then Ok c else min_halt (c\<lparr>cl_haltOnce := True\<rparr>))"

text \<open>\<open>Wait\<close> returns once \<open>haltedCh\<close> is closed.\<close>

definition min_Wait_returns :: "Client \<Rightarrow> bool" where
  "min_Wait_returns c \<longleftrightarrow> HaltedChClosed \<in> set (cl_trace c)"

definition min_New :: "kconst \<Rightarrow> ClientConfig \<Rightarrow> Client result" where
  "min_New K cfg =
    (case validate K cfg of
       Some err \<Rightarrow> Inl err
     | None \<Rightarrow> Inr \<lparr>cl_cfg = cfg, cl_displayName = cfg_User cfg @ ''@'' @ cfg_Provider cfg,
                   cl_hasConn = True, cl_hasPki = True, cl_haltOnce = False,
                   cl_trace = [PkiStarted, ConnStarted]\<rparr>)"

section \<open>Properties\<close>

text \<open>
  \<open>New\<close> accepts a configuration exactly when the user name is non-empty and fits the wire
  protocol's additional data, the provider is named, and link key, log backend and PKI client are
  present; it then starts the PKI worker before the connection worker.
\<close>

lemma New_accepts:
  "(\<exists>c. min_New K cfg = Inr c \<and> cl_trace c = [PkiStarted, ConnStarted] \<and> cl_cfg c = cfg) \<longleftrightarrow>
    cfg_User cfg \<noteq> '''' \<and> length (cfg_User cfg) \<le> MaxAdditionalDataLength K \<and>
    cfg_Provider cfg \<noteq> '''' \<and> cfg_LinkKey cfg \<noteq> None \<and> cfg_LogBackend cfg \<noteq> None \<and>
    cfg_PKIClient cfg \<noteq> None"
  by (simp add: min_New_def validate_def not_less)

lemma Shutdown_New:
  assumes "min_New K cfg = Inr c"
  shows "\<exists>c'. min_Shutdown c = Ok c' \<and> cl_haltOnce c' \<and> \<not> cl_hasConn c' \<and> \<not> cl_hasPki c' \<and>
    cl_trace c' = [PkiStarted, ConnStarted, ConnHalted, PkiHalted, HaltedChClosed]"
  using assms
  by (auto simp: min_New_def min_Shutdown_def min_halt_def close_haltedCh_def Let_def
      split: option.splits)

text \<open>
  However often \<open>Shutdown\<close> is called on a client made by \<open>New\<close>, the connection is halted before
  the PKI worker, each exactly once, \<open>haltedCh\<close> is closed exactly once (a second close would
  panic), and \<open>Wait\<close> returns afterwards.
\<close>

lemma Shutdown_once:
  assumes "min_New K cfg = Inr c"
  shows "\<exists>c'. ((\<lambda>r. obind r min_Shutdown) ^^ Suc n) (Ok c) = Ok c' \<and> min_Wait_returns c' \<and>
    cl_trace c' = [PkiStarted, ConnStarted, ConnHalted, PkiHalted, HaltedChClosed]"
proof -
  obtain c' where c': "min_Shutdown c = Ok c'" "cl_haltOnce c'"
      "cl_trace c' = [PkiStarted, ConnStarted, ConnHalted, PkiHalted, HaltedChClosed]"
    using Shutdown_New [OF assms] by blast
  have "((\<lambda>r. obind r min_Shutdown) ^^ n) (Ok c') = Ok c'"
    by (induction n) (simp_all add: min_Shutdown_def c'(2))
  then have "((\<lambda>r. obind r min_Shutdown) ^^ Suc n) (Ok c) = Ok c'"
    unfolding funpow_Suc_right comp_apply by (simp add: c'(1))
  with c'(3) show ?thesis by (intro exI [of _ c']) (simp add: min_Wait_returns_def)
qed

definition example_cfg :: ClientConfig where
  "example_cfg = \<lparr>cfg_User = ''u'', cfg_Provider = ''a'', cfg_ProviderKeyPin = None,
     cfg_LinkKey = Some [1], cfg_LogBackend = Some (), cfg_PKIClient = Some (), cfg_OnConnFn = True,
     cfg_OnEmptyFn = False, cfg_OnMessageFn = True, cfg_OnACKFn = True, cfg_OnDocumentFn = True,
     cfg_DialContextFn = False, cfg_PreferedTransports = None, cfg_MessagePollInterval = Second,
     cfg_EnableTimeSync = False\<rparr>"

end
