(* ===== verification/Meson_MinSend.thy ===== *)
theory Meson_MinSend
  imports Meson_Path Meson_Epochtime Meson_MinClient
begin

text \<open>
  \<^verbatim>\<open>src/minclient/send.go\<close>: composing and sending Sphinx packets.  Third-party code is an
  argument: \<open>doc.GetProvider\<close>, and the packet constructors \<open>sphinx.NewSURB\<close> and
  \<open>sphinx.NewPacket\<close> (record \<open>sphinx_ops\<close>).  What a turn of the composing loop observes of its
  surroundings (clock, epoch, the documents \<open>CurrentDocument\<close> returned, the time the selection
  took) is a record \<open>turn\<close>; the loop runs over a list of turns and is \<open>None\<close> while it is still
  looping at the end of the list.
\<close>

section \<open>Definitions\<close>

record sphinx_ops =
  GetProvider :: "Document \<Rightarrow> string \<Rightarrow> MixDescriptor result"
  NewSURB :: "PathHop list \<Rightarrow> (bytes \<times> bytes) result"
  NewPacket :: "PathHop list \<Rightarrow> bytes \<Rightarrow> bytes result"

text \<open>
  What Sphinx documents of its two constructors: they refuse a path of more than \<open>NrHops\<close> hops, and
  the commands of a hop must fit its share of the header, which is laid out for a delay at an
  inner hop and for a recipient with a delay or a SURB identifier at the last one.  Within these
  limits they succeed, a SURB has \<open>SURBLength\<close> bytes, and a packet takes a payload that has the
  length of the flag bytes, a SURB and a user payload.
\<close>

definition sphinx_path :: "kconst \<Rightarrow> PathHop list \<Rightarrow> bool" where
  "sphinx_path K p \<longleftrightarrow> p \<noteq> [] \<and> length p \<le> NrHops K \<and>
     (\<forall>h \<in> set (butlast p). \<exists>w. hop_Commands h = [NodeDelay w]) \<and>
     (\<exists>w rc sb. length rc = RecipientIDLength K \<and> length sb = SURBIDLength K \<and>
        hop_Commands (last p) \<in> {[RecipientCmd rc], [NodeDelay w, RecipientCmd rc], [RecipientCmd rc, SURBReply sb]})"

definition sphinx_accepts :: "kconst \<Rightarrow> sphinx_ops \<Rightarrow> bool" where
  "sphinx_accepts K ops \<longleftrightarrow>
     (\<forall>p. sphinx_path K p \<longrightarrow> (\<exists>s key. NewSURB ops p = Inr (s, key) \<and> length s = SURBLength K)) \<and>
     (\<forall>p pl. sphinx_path K p \<and> length pl = 2 + SURBLength K + UserForwardPayloadLength K \<longrightarrow>
        (\<exists>pkt. NewPacket ops p pl = Inr pkt))"

definition makePath ::
  "kconst \<Rightarrow> 'r rng_ops \<Rightarrow> sphinx_ops \<Rightarrow> ClientConfig \<Rightarrow> Document option \<Rightarrow> 'r \<Rightarrow> string \<Rightarrow> string \<Rightarrow>
   bytes option \<Rightarrow> int \<Rightarrow> bool \<Rightarrow> u64 \<Rightarrow> ('r \<times> (PathHop list \<times> int) result) outcome" where
  "makePath K g ops cfg currentDoc r recipient provider surbID baseTime isForward ep =
    (let (srcProvider, dstProvider) =
           (if isForward then (cfg_Provider cfg, provider) else (provider, cfg_Provider cfg)) in
     case currentDoc of
       None \<Rightarrow> Ok (r, Inl (Errorf ''minclient: no PKI document for current epoch'' []))
     | Some d \<Rightarrow>
         (case GetProvider ops d srcProvider of
            Inl err \<Rightarrow> Ok (r, Inl (Errorf ''minclient: failed to find source Provider: %v'' [ArgE err]))
          | Inr src \<Rightarrow>
              (case GetProvider ops d dstProvider of
                 Inl err \<Rightarrow>
                   Ok (r, Inl (Errorf ''minclient: failed to find destination Provider: %v'' [ArgE err]))
               | Inr dst \<Rightarrow>
                   NewPath K g r d (bytes_of_string recipient) src dst surbID baseTime True isForward ep)))"

record turn =
  t_unixTime :: int
  t_epochInfo :: epoch_info
  t_docForward :: "Document option"
  t_docReverse :: "Document option"
  t_since :: int

text \<open>One turn of the loop: try again, or return.\<close>

datatype 'r turn_result = Again 'r | Return 'r "(bytes \<times> bytes option \<times> int) result"

definition surb_payload :: "bytes \<Rightarrow> bytes \<Rightarrow> bytes" where
  "surb_payload surb b = [1, 0] @ surb @ b"

definition plain_payload :: "kconst \<Rightarrow> bytes \<Rightarrow> bytes" where
  "plain_payload K b = replicate (2 + SURBLength K) 0 @ b"

text \<open>The end of a turn: build the packet when the selected delays leave enough time.\<close>

definition finish_turn ::
  "kconst \<Rightarrow> sphinx_ops \<Rightarrow> bytes option \<Rightarrow> bytes \<Rightarrow> int \<Rightarrow> PathHop list \<Rightarrow> PathHop list \<Rightarrow> int \<Rightarrow> 'r \<Rightarrow>
   'r turn_result" where
  "finish_turn K ops surbID b now fwdPath revPath t r =
    (if time_Sub t now < TestPeriod * 2 then
       (if surbID \<noteq> None then
          (case NewSURB ops revPath of
             Inl err \<Rightarrow> Return r (Inl err)
           | Inr (surb, k) \<Rightarrow>
               (case NewPacket ops fwdPath (surb_payload surb b) of
                  Inl err \<Rightarrow> Return r (Inl err)
                | Inr pkt \<Rightarrow> Return r (Inr (pkt, Some k, time_Sub t now))))
        else
          (case NewPacket ops fwdPath (plain_payload K b) of
             Inl err \<Rightarrow> Return r (Inl err)
           | Inr pkt \<Rightarrow> Return r (Inr (pkt, None, time_Sub t now))))
     else Again r)"

definition compose_turn ::
  "kconst \<Rightarrow> 'r rng_ops \<Rightarrow> sphinx_ops \<Rightarrow> ClientConfig \<Rightarrow> string \<Rightarrow> string \<Rightarrow> bytes option \<Rightarrow> bytes \<Rightarrow>
   'r \<Rightarrow> turn \<Rightarrow> 'r turn_result outcome" where
  "compose_turn K g ops cfg recipient provider surbID b r tn =
    (case Now (t_epochInfo tn) of (ep, _, budget, err) \<Rightarrow>
       case err of
         Some e \<Rightarrow> Ok (Return r (Inl e))
       | None \<Rightarrow>
           let now = t_unixTime tn * Second in
           obind (makePath K g ops cfg (t_docForward tn) r recipient provider surbID now True ep)
             (\<lambda>(r1, fwd). case fwd of
                Inl e \<Rightarrow> Ok (Return r1 (Inl e))
              | Inr (fwdPath, t1) \<Rightarrow>
                  obind (if surbID \<noteq> None
                         then makePath K g ops cfg (t_docReverse tn) r1 (cfg_User cfg) provider surbID t1
                                False ep
                         else Ok (r1, Inr ([], t1)))
                    (\<lambda>(r2, rev). case rev of
                       Inl e \<Rightarrow> Ok (Return r2 (Inl e))
                     | Inr (revPath, t2) \<Rightarrow>
                         if t_since tn > budget then Ok (Again r2)
                         else Ok (finish_turn K ops surbID b now fwdPath revPath t2 r2))))"

fun compose_loop ::
  "kconst \<Rightarrow> 'r rng_ops \<Rightarrow> sphinx_ops \<Rightarrow> ClientConfig \<Rightarrow> string \<Rightarrow> string \<Rightarrow> bytes option \<Rightarrow> bytes \<Rightarrow>
   'r \<Rightarrow> turn list \<Rightarrow> ('r \<times> (bytes \<times> bytes option \<times> int) result) option outcome" where
  "compose_loop K g ops cfg recipient provider surbID b r [] = Ok None"
| "compose_loop K g ops cfg recipient provider surbID b r (tn # tns) =
     obind (compose_turn K g ops cfg recipient provider surbID b r tn) (\<lambda>res. case res of
       Return r' v \<Rightarrow> Ok (Some (r', v))
     | Again r' \<Rightarrow> compose_loop K g ops cfg recipient provider surbID b r' tns)"

definition ComposeSphinxPacket ::
  "kconst \<Rightarrow> 'r rng_ops \<Rightarrow> sphinx_ops \<Rightarrow> ClientConfig \<Rightarrow> string \<Rightarrow> string \<Rightarrow> bytes option \<Rightarrow> bytes \<Rightarrow>
   'r \<Rightarrow> turn list \<Rightarrow> ('r \<times> (bytes \<times> bytes option \<times> int) result) option outcome" where
  "ComposeSphinxPacket K g ops cfg recipient provider surbID b r tns =
    (if length recipient > RecipientIDLength K then
       Ok (Some (r, Inl (Errorf (''minclient: invalid recipient: '' @ quoted_v) [ArgS recipient])))
     else if length b \<noteq> UserForwardPayloadLength K then
       Ok (Some (r, Inl (Errorf ''minclient: invalid ciphertext size: %v'' [ArgI (int (length b))])))
     else compose_loop K g ops cfg recipient provider surbID b r tns)"

text \<open>
  The two senders: \<open>sendPacket\<close> is the connection's (\<open>Meson_Connection\<close>), given by its answer to
  each packet.
\<close>

definition SendCiphertext ::
  "kconst \<Rightarrow> 'r rng_ops \<Rightarrow> sphinx_ops \<Rightarrow> ClientConfig \<Rightarrow> (bytes \<Rightarrow> go_error option) \<Rightarrow> string \<Rightarrow> string \<Rightarrow>
   bytes \<Rightarrow> bytes \<Rightarrow> 'r \<Rightarrow> turn list \<Rightarrow> ('r \<times> bytes option \<times> int \<times> go_error option) option outcome" where
  "SendCiphertext K g ops cfg sendPacket recipient provider surbID b r tns =
    obind (ComposeSphinxPacket K g ops cfg recipient provider (Some surbID) b r tns) (\<lambda>o1. case o1 of
      None \<Rightarrow> Ok None
    | Some (r', Inl err) \<Rightarrow> Ok (Some (r', None, 0, Some err))
    | Some (r', Inr (pkt, k, rtt)) \<Rightarrow> Ok (Some (r', k, rtt, sendPacket pkt)))"

definition SendUnreliableCiphertext ::
  "kconst \<Rightarrow> 'r rng_ops \<Rightarrow> sphinx_ops \<Rightarrow> ClientConfig \<Rightarrow> (bytes \<Rightarrow> go_error option) \<Rightarrow> string \<Rightarrow> string \<Rightarrow>
   bytes \<Rightarrow> 'r \<Rightarrow> turn list \<Rightarrow> ('r \<times> go_error option) option outcome" where
  "SendUnreliableCiphertext K g ops cfg sendPacket recipient provider b r tns =
    obind (ComposeSphinxPacket K g ops cfg recipient provider None b r tns) (\<lambda>o1. case o1 of
      None \<Rightarrow> Ok None
    | Some (r', Inl err) \<Rightarrow> Ok (Some (r', Some err))
    | Some (r', Inr (pkt, k, rtt)) \<Rightarrow> Ok (Some (r', sendPacket pkt)))"

section \<open>Lemmas\<close>

lemma finish_turn_Return:
  assumes "finish_turn K ops surbID b now fwdPath revPath t r = Return r' (Inr (pkt, k, rtt))"
  shows "\<exists>payload. NewPacket ops fwdPath payload = Inr pkt \<and> rtt = time_Sub t now \<and> rtt < TestPeriod * 2 \<and>
    (case surbID of
       None \<Rightarrow> payload = plain_payload K b \<and> k = None
     | Some _ \<Rightarrow> \<exists>surb key. NewSURB ops revPath = Inr (surb, key) \<and> payload = surb_payload surb b \<and>
                  k = Some key)"
  using assms
  by (auto simp: finish_turn_def split: if_splits sum.splits option.splits prod.splits)

lemma compose_turn_Return:
  assumes "compose_turn K g ops cfg recipient provider surbID b r tn = Ok (Return r' (Inr v))"
  shows "\<exists>r1 r2 fwdPath t1 revPath t2.
    makePath K g ops cfg (t_docForward tn) r recipient provider surbID (t_unixTime tn * Second) True
      (fst (Now (t_epochInfo tn))) = Ok (r1, Inr (fwdPath, t1)) \<and>
    (case surbID of
       None \<Rightarrow> revPath = [] \<and> t2 = t1
     | Some _ \<Rightarrow> makePath K g ops cfg (t_docReverse tn) r1 (cfg_User cfg) provider surbID t1 False
         (fst (Now (t_epochInfo tn))) = Ok (r2, Inr (revPath, t2))) \<and>
    finish_turn K ops surbID b (t_unixTime tn * Second) fwdPath revPath t2 r2 = Return r' (Inr v)"
proof -
  obtain ep el budget err where nw: "Now (t_epochInfo tn) = (ep, el, budget, err)" by (metis prod_cases4)
  with assms have err: "err = None" by (cases err) (simp_all add: compose_turn_def)
  obtain r1 fwd where f: "makePath K g ops cfg (t_docForward tn) r recipient provider surbID
      (t_unixTime tn * Second) True ep = Ok (r1, fwd)"
    using assms nw err
    by (cases "makePath K g ops cfg (t_docForward tn) r recipient provider surbID
      (t_unixTime tn * Second) True ep") (auto simp: compose_turn_def Let_def)
  obtain fwdPath t1 where fp: "fwd = Inr (fwdPath, t1)"
    using assms nw err f by (cases fwd) (auto simp: compose_turn_def)
  define rv where "rv = (if surbID \<noteq> None then makePath K g ops cfg (t_docReverse tn) r1 (cfg_User cfg)
      provider surbID t1 False ep else Ok (r1, Inr ([], t1)))"
  have eq: "compose_turn K g ops cfg recipient provider surbID b r tn = obind rv (\<lambda>(r2, rev).
      case rev of Inl e \<Rightarrow> Ok (Return r2 (Inl e))
      | Inr (revPath, t2) \<Rightarrow> if t_since tn > budget then Ok (Again r2)
          else Ok (finish_turn K ops surbID b (t_unixTime tn * Second) fwdPath revPath t2 r2))"
    by (simp only: compose_turn_def nw err f fp rv_def Let_def obind.simps prod.case option.case sum.case)
  obtain r2 revPath t2 where rv: "rv = Ok (r2, Inr (revPath, t2))"
      and fin: "finish_turn K ops surbID b (t_unixTime tn * Second) fwdPath revPath t2 r2 = Return r' (Inr v)"
    using assms unfolding eq by (cases rv) (auto split: sum.splits if_splits prod.splits)
  show ?thesis
    by (rule exI [of _ r1], rule exI [of _ r2], rule exI [of _ fwdPath], rule exI [of _ t1],
        rule exI [of _ revPath], rule exI [of _ t2])
      (use f fp nw rv fin in \<open>auto simp: rv_def split: option.splits\<close>)
qed

lemma compose_loop_Return:
  assumes "compose_loop K g ops cfg recipient provider surbID b r tns = Ok (Some (r', Inr v))"
  shows "\<exists>tn \<in> set tns. \<exists>r0. compose_turn K g ops cfg recipient provider surbID b r0 tn =
    Ok (Return r' (Inr v))"
  using assms
proof (induction tns arbitrary: r)
  case (Cons tn tns)
  then show ?case
    by (cases "compose_turn K g ops cfg recipient provider surbID b r tn")
      (auto split: turn_result.splits)
qed simp

lemma Compose_rtt:
  assumes "ComposeSphinxPacket K g ops cfg recipient provider surbID b r tns = Ok (Some (r', Inr (pkt, k, rtt)))"
  shows "rtt < 2 * TestPeriod \<and> (k \<noteq> None \<longleftrightarrow> surbID \<noteq> None)"
proof -
  have "compose_loop K g ops cfg recipient provider surbID b r tns = Ok (Some (r', Inr (pkt, k, rtt)))"
    using assms by (auto simp: ComposeSphinxPacket_def split: if_splits)
  from compose_loop_Return [OF this] obtain tn r0 where
      ct: "compose_turn K g ops cfg recipient provider surbID b r0 tn = Ok (Return r' (Inr (pkt, k, rtt)))"
    by blast
  from compose_turn_Return [OF ct] obtain fwdPath revPath t2 now r2 where
      "finish_turn K ops surbID b now fwdPath revPath t2 r2 = Return r' (Inr (pkt, k, rtt))" by metis
  from finish_turn_Return [OF this] show ?thesis by (auto split: option.splits)
qed

section \<open>Properties\<close>

text \<open>
  C11. A packet that \<open>ComposeSphinxPacket\<close> returns was built over a forward path from the client's
  provider to the recipient's, selected in one turn of the loop, and, with a SURB, over a reply
  path in the opposite direction to the client's own user, selected from the time the forward
  path ends.  Its payload is two header bytes, a SURB-sized field and the ciphertext, of the same
  total length with and without a SURB; the first byte is 1 exactly when there is a SURB, a reply
  key is returned exactly then, and the announced round trip is shorter than two epochs.
\<close>

theorem Compose_success:
  assumes "ComposeSphinxPacket K g ops cfg recipient provider surbID b r tns = Ok (Some (r', Inr (pkt, k, rtt)))"
    and "\<forall>p s key. NewSURB ops p = Inr (s, key) \<longrightarrow> length s = SURBLength K"
  shows "length recipient \<le> RecipientIDLength K \<and> rtt < 2 * TestPeriod \<and> (k \<noteq> None \<longleftrightarrow> surbID \<noteq> None) \<and>
    (\<exists>tn \<in> set tns. \<exists>r0 r1 fwdPath t1 payload.
      makePath K g ops cfg (t_docForward tn) r0 recipient provider surbID (t_unixTime tn * Second) True
        (fst (Now (t_epochInfo tn))) = Ok (r1, Inr (fwdPath, t1)) \<and>
      NewPacket ops fwdPath payload = Inr pkt \<and>
      length payload = 2 + SURBLength K + UserForwardPayloadLength K \<and>
      drop (2 + SURBLength K) payload = b \<and> (payload ! 0 = 1 \<longleftrightarrow> surbID \<noteq> None) \<and>
      (\<forall>sid. surbID = Some sid \<longrightarrow> (\<exists>r2 revPath t2 surb key.
        makePath K g ops cfg (t_docReverse tn) r1 (cfg_User cfg) provider surbID t1 False
          (fst (Now (t_epochInfo tn))) = Ok (r2, Inr (revPath, t2)) \<and>
        NewSURB ops revPath = Inr (surb, key) \<and> take (SURBLength K) (drop 2 payload) = surb \<and>
        k = Some key \<and> rtt = time_Sub t2 (t_unixTime tn * Second))))"
proof -
  have len: "length recipient \<le> RecipientIDLength K" "length b = UserForwardPayloadLength K"
    using assms(1) by (auto simp: ComposeSphinxPacket_def split: if_splits)
  then have "compose_loop K g ops cfg recipient provider surbID b r tns = Ok (Some (r', Inr (pkt, k, rtt)))"
    using assms(1) by (simp add: ComposeSphinxPacket_def)
  from compose_loop_Return [OF this] obtain tn r0 where tn: "tn \<in> set tns" and
      ct: "compose_turn K g ops cfg recipient provider surbID b r0 tn = Ok (Return r' (Inr (pkt, k, rtt)))"
    by blast
  from compose_turn_Return [OF ct] obtain r1 r2 fwdPath t1 revPath t2 where
      mp: "makePath K g ops cfg (t_docForward tn) r0 recipient provider surbID (t_unixTime tn * Second) True
        (fst (Now (t_epochInfo tn))) = Ok (r1, Inr (fwdPath, t1))" and
      rv: "surbID \<noteq> None \<Longrightarrow> makePath K g ops cfg (t_docReverse tn) r1 (cfg_User cfg) provider surbID t1
        False (fst (Now (t_epochInfo tn))) = Ok (r2, Inr (revPath, t2))" and
      fin: "finish_turn K ops surbID b (t_unixTime tn * Second) fwdPath revPath t2 r2 =
        Return r' (Inr (pkt, k, rtt))"
    by (auto split: option.splits)
  from finish_turn_Return [OF fin] obtain payload where pl: "NewPacket ops fwdPath payload = Inr pkt"
      "rtt = time_Sub t2 (t_unixTime tn * Second)" "rtt < TestPeriod * 2"
      "case surbID of None \<Rightarrow> payload = plain_payload K b \<and> k = None
       | Some _ \<Rightarrow> \<exists>surb key. NewSURB ops revPath = Inr (surb, key) \<and> payload = surb_payload surb b \<and>
                  k = Some key" by blast
  have sl: "length surb = SURBLength K" if "NewSURB ops revPath = Inr (surb, key)" for surb key
    using assms(2) that by blast
  have shape: "length payload = 2 + SURBLength K + UserForwardPayloadLength K"
      "drop (2 + SURBLength K) payload = b" "payload ! 0 = 1 \<longleftrightarrow> surbID \<noteq> None" "k \<noteq> None \<longleftrightarrow> surbID \<noteq> None"
    using pl(4) len(2)
    by (auto simp: sl plain_payload_def surb_payload_def split: option.splits)
  have surb: "\<forall>sid. surbID = Some sid \<longrightarrow> (\<exists>r2 revPath t2 surb key.
      makePath K g ops cfg (t_docReverse tn) r1 (cfg_User cfg) provider surbID t1 False
        (fst (Now (t_epochInfo tn))) = Ok (r2, Inr (revPath, t2)) \<and>
      NewSURB ops revPath = Inr (surb, key) \<and> take (SURBLength K) (drop 2 payload) = surb \<and>
      k = Some key \<and> rtt = time_Sub t2 (t_unixTime tn * Second))"
  proof (intro allI impI)
    fix sid assume "surbID = Some sid"
    moreover from this pl(4) obtain surb key where "NewSURB ops revPath = Inr (surb, key)"
        "take (SURBLength K) (drop 2 payload) = surb" "k = Some key"
      by (auto simp: sl surb_payload_def)
    ultimately show "\<exists>r2 revPath t2 surb key.
      makePath K g ops cfg (t_docReverse tn) r1 (cfg_User cfg) provider surbID t1 False
        (fst (Now (t_epochInfo tn))) = Ok (r2, Inr (revPath, t2)) \<and>
      NewSURB ops revPath = Inr (surb, key) \<and> take (SURBLength K) (drop 2 payload) = surb \<and>
      k = Some key \<and> rtt = time_Sub t2 (t_unixTime tn * Second)"
      using rv pl(2) by blast
  qed
  have "rtt < 2 * TestPeriod" using pl(3) by simp
  with len(1) shape tn mp pl(1) surb show ?thesis by blast
qed

definition example_ops :: sphinx_ops where
  "example_ops = \<lparr>GetProvider = (\<lambda>d nm. if nm = ''a'' then Inr (prov ''a'' 7)
       else if nm = ''b'' then Inr (prov ''b'' 8) else Inl (ExtError ''no provider'')),
     NewSURB = (\<lambda>p. if length p > 5 then Inl (ExtError ''sphinx: invalid path'') else Inr ([5, 5], [6])),
     NewPacket = (\<lambda>p b. if length p > 5 then Inl (ExtError ''sphinx: invalid path'') else Inr (hop_ID (hd p) @ b))\<rparr>"

definition example_turn :: turn where
  "example_turn = \<lparr>t_unixTime = 100, t_epochInfo = (5, 2, None), t_docForward = Some doc4,
     t_docReverse = Some doc4, t_since = 50\<rparr>"

lemma example_compose:
  "ComposeSphinxPacket example_const (const_rng 5) example_ops example_cfg ''x'' ''b'' (Some [3, 4])
     [1, 2, 3, 4, 5, 6, 7, 8] () [example_turn] =
   Ok (Some ((), Inr ([7, 7, 1, 0, 5, 5, 1, 2, 3, 4, 5, 6, 7, 8], Some [6], 24000000)))"
  by (simp add: ComposeSphinxPacket_def compose_turn_def example_turn_def example_ops_def
      makePath_def example_cfg_def Now_def Let_def testEpochInterval_def TestPeriod_def Second_def
      u64_of_i64_def finish_turn_def surb_payload_def time_Sub_def
      NewPath_def maxAttempts_def numeral_3_eq_3 selectHops_def plan_hops_def
      example_const_def doc4_def prov_def mix_def go_slice_def const_rng_def get_at_def
      draw_delay_def copy_into_def i64_of_u64_def to_i64_def Millisecond_def
      empty_desc_def empty_doc_def)

theorem Compose_success_witness:
  "\<exists>r0 r1 fwdPath t1 payload. makePath example_const (const_rng 5) example_ops example_cfg (Some doc4) r0
      ''x'' ''b'' (Some [3, 4]) (100 * Second) True 4 = Ok (r1, Inr (fwdPath, t1)) \<and>
    NewPacket example_ops fwdPath payload = Inr [7, 7, 1, 0, 5, 5, 1, 2, 3, 4, 5, 6, 7, 8] \<and>
    length payload = 12 \<and> payload ! 0 = 1"
proof -
  have "\<forall>p s key. NewSURB example_ops p = Inr (s, key) \<longrightarrow> length s = SURBLength example_const"
    by (auto simp: example_ops_def example_const_def)
  from Compose_success [OF example_compose this] show ?thesis
    by (simp add: example_turn_def Now_epoch example_const_def) blast
qed

lemma example_accepts: "sphinx_accepts example_const example_ops"
  by (simp add: sphinx_accepts_def sphinx_path_def example_ops_def example_const_def)

text \<open>The hops that \<open>NewPath\<close> describes make a path that the packet constructors accept.\<close>

lemma hop_spec_sphinx_path:
  assumes "0 < length p" and "length p \<le> NrHops K"
    and "\<forall>i < length p. hop_spec K d ep recipient surbID isForward (length p) i (ds ! i) (p ! i)"
  shows "sphinx_path K p"
proof -
  have "\<exists>w. hop_Commands h = [NodeDelay w]" if h: "h \<in> set (butlast p)" for h
  proof -
    obtain i where i: "i < length p - 1" "h = p ! i"
      using h by (auto simp: in_set_conv_nth nth_butlast)
    then have "hop_spec K d ep recipient surbID isForward (length p) i (ds ! i) h" using assms(3) by simp
    with i(1) show ?thesis by (auto simp: hop_spec_def is_delayed_def)
  qed
  moreover have "hop_spec K d ep recipient surbID isForward (length p) (length p - 1) (ds ! (length p - 1)) (last p)"
    using assms(1,3) by (simp add: last_conv_nth)
  then obtain w where w: "hop_Commands (last p) = (if surbID \<noteq> None \<and> isForward then [NodeDelay w] else []) @
      [RecipientCmd (copy_into (replicate (RecipientIDLength K) 0) 0 recipient)] @
      (if surbID \<noteq> None \<and> \<not> isForward then [SURBReply (copy_into (replicate (SURBIDLength K) 0) 0 (the surbID))] else [])"
    by (auto simp: hop_spec_def is_delayed_def)
  have "\<exists>w rc sb. length rc = RecipientIDLength K \<and> length sb = SURBIDLength K \<and>
      hop_Commands (last p) \<in> {[RecipientCmd rc], [NodeDelay w, RecipientCmd rc], [RecipientCmd rc, SURBReply sb]}"
    unfolding w by (intro exI [of _ w] exI [of _ "copy_into (replicate (RecipientIDLength K) 0) 0 recipient"]
        exI [of _ "copy_into (replicate (SURBIDLength K) 0) 0 (the surbID)"]) simp
  ultimately show ?thesis using assms(1,2) by (simp add: sphinx_path_def)
qed

text \<open>The two paths of a turn exist, and their delays are bounded, when the routes are in order.\<close>

lemma makePath_client:
  assumes "rng_ok g" and "client_route_ok K d me them"
    and "GetProvider ops d (cfg_Provider cfg) = Inr me" and "GetProvider ops d provider = Inr them"
    and "\<forall>desc \<in> insert me (insert them (\<Union>(set ` set (Topology d)))). map_of (MixKeys desc) ep \<noteq> None"
    and "0 < uint (MuMaxDelay d)" and "uint (MuMaxDelay d) < 2 ^ 32" and "length (Topology d) + 2 \<le> NrHops K"
  shows "\<exists>r' p t. makePath K g ops cfg (Some d) r recipient provider surbID t0 isForward ep = Ok (r', Inr (p, t)) \<and>
    sphinx_path K p \<and> t0 \<le> t \<and> t \<le> t0 + (int (length (Topology d)) + (if isForward then 2 else 1)) *
      (uint (MuMaxDelay d) * Millisecond)"
proof -
  let ?src = "if isForward then me else them" and ?dst = "if isForward then them else me"
  have route: "client_route_ok K d ?src ?dst" using assms(2) by (auto simp: client_route_ok_def)
  have keys: "\<forall>desc \<in> insert ?src (insert ?dst (\<Union>(set ` set (Topology d)))). map_of (MixKeys desc) ep \<noteq> None"
    using assms(5) by auto
  from NewPath_attempt_route [OF assms(1) route keys]
  obtain r' p t mids where np: "NewPath K g r d (bytes_of_string recipient) ?src ?dst surbID t0 True isForward ep
        = Ok (r', Inr (p, t))"
      and mids: "length mids = length (Topology d)"
      and len: "length p = length (client_route ?src ?dst isForward mids)"
      and hops: "\<forall>i < length p. hop_spec K d ep (bytes_of_string recipient) surbID isForward (length p) i
        (client_route ?src ?dst isForward mids ! i) (p ! i)"
      and t: "t = t0 + path_nanos p"
    using assms(6,7) by (meson list_all2_lengthD)
  have "\<forall>h \<in> set p. 0 \<le> hop_nanos h \<and> hop_nanos h \<le> uint (MuMaxDelay d) * Millisecond"
    using hops hop_nanos_bound assms(6,7) by (metis in_set_conv_nth)
  from path_nanos_bound [OF this] have "0 \<le> path_nanos p"
    "path_nanos p \<le> int (length p) * (uint (MuMaxDelay d) * Millisecond)" by simp_all
  moreover have n: "length p = length (Topology d) + (if isForward then 2 else 1)"
    using len mids by (simp add: client_route_def)
  moreover have "sphinx_path K p"
    by (rule hop_spec_sphinx_path [OF _ _ hops]) (use n assms(8) in simp_all)
  moreover have "makePath K g ops cfg (Some d) r recipient provider surbID t0 isForward ep = Ok (r', Inr (p, t))"
    using np assms(3,4) by (cases isForward) (simp_all add: makePath_def)
  ultimately show ?thesis using t by auto
qed

lemma finish_turn_accepted:
  assumes "sphinx_accepts K ops" and "sphinx_path K fwd" and "surbID \<noteq> None \<longrightarrow> sphinx_path K rv"
    and "length b = UserForwardPayloadLength K" and "time_Sub t now < TestPeriod * 2"
  shows "\<exists>pkt k. finish_turn K ops surbID b now fwd rv t r = Return r (Inr (pkt, k, time_Sub t now))"
proof (cases "surbID = None")
  case True
  have "length (plain_payload K b) = 2 + SURBLength K + UserForwardPayloadLength K"
    using assms(4) by (simp add: plain_payload_def)
  with assms(1,2) obtain pkt where "NewPacket ops fwd (plain_payload K b) = Inr pkt"
    unfolding sphinx_accepts_def by blast
  with True assms(5) show ?thesis by (simp add: finish_turn_def)
next
  case False
  then obtain s key where s: "NewSURB ops rv = Inr (s, key)" "length s = SURBLength K"
    using assms(1,3) unfolding sphinx_accepts_def by blast
  then have "length (surb_payload s b) = 2 + SURBLength K + UserForwardPayloadLength K"
    using assms(4) by (simp add: surb_payload_def)
  with assms(1,2) obtain pkt where "NewPacket ops fwd (surb_payload s b) = Inr pkt"
    unfolding sphinx_accepts_def by blast
  with False s(1) assms(5) show ?thesis by (simp add: finish_turn_def)
qed

lemma compose_first_turn:
  assumes "rng_ok g" and "client_route_ok K d me them"
    and "GetProvider ops d (cfg_Provider cfg) = Inr me" and "GetProvider ops d provider = Inr them"
    and "t_epochInfo tn = (e, h, None)" and "t_docForward tn = Some d" and "t_docReverse tn = Some d"
    and "\<forall>desc \<in> insert me (insert them (\<Union>(set ` set (Topology d)))). map_of (MixKeys desc) (e - 1) \<noteq> None"
    and "0 < uint (MuMaxDelay d)"
    and "(2 * int (length (Topology d)) + 3) * (uint (MuMaxDelay d) * Millisecond) < 2 * TestPeriod"
    and "t_since tn \<le> TestPeriod - Second * min (uint h) 10"
    and "sphinx_accepts K ops" and "length (Topology d) + 2 \<le> NrHops K"
    and "length recipient \<le> RecipientIDLength K" and "length b = UserForwardPayloadLength K"
  shows "\<exists>r' pkt k rtt. ComposeSphinxPacket K g ops cfg recipient provider surbID b r (tn # tns) =
      Ok (Some (r', Inr (pkt, k, rtt))) \<and>
    0 \<le> rtt \<and> rtt \<le> (2 * int (length (Topology d)) + 3) * (uint (MuMaxDelay d) * Millisecond)"
proof -
  let ?n = "int (length (Topology d))" and ?m = "uint (MuMaxDelay d) * Millisecond"
    and ?now = "t_unixTime tn * Second"
  have m0: "0 \<le> ?m" by (simp add: Millisecond_def)
  have "?m \<le> (2 * ?n + 3) * ?m" using m0 mult_right_mono [of 1 "2 * ?n + 3" ?m] by simp
  then have mu: "uint (MuMaxDelay d) < 2 ^ 32"
    using assms(10) by (simp add: Millisecond_def TestPeriod_def Second_def)
  have nw: "\<exists>el. Now (t_epochInfo tn) = (e - 1, el, TestPeriod - Second * min (uint h) 10, None)"
    using Now_values [where e = e and h = h and err = None] assms(5) by (auto split: prod.splits)
  then obtain el where nw: "Now (t_epochInfo tn) = (e - 1, el, TestPeriod - Second * min (uint h) 10, None)" ..
  obtain r1 p1 t1 where f: "makePath K g ops cfg (Some d) r recipient provider surbID ?now True (e - 1)
      = Ok (r1, Inr (p1, t1))" "?now \<le> t1" "t1 \<le> ?now + (?n + 2) * ?m" "sphinx_path K p1"
    using makePath_client [OF assms(1-4,8,9) mu assms(13), of r recipient surbID ?now True] by auto
  obtain r2 p2 t2 where rv: "(if surbID \<noteq> None then makePath K g ops cfg (Some d) r1 (cfg_User cfg)
      provider surbID t1 False (e - 1) else Ok (r1, Inr ([], t1))) = Ok (r2, Inr (p2, t2))"
      "t1 \<le> t2" "t2 \<le> t1 + (?n + 1) * ?m" "surbID \<noteq> None \<longrightarrow> sphinx_path K p2"
    using makePath_client [OF assms(1-4,8,9) mu assms(13), of r1 "cfg_User cfg" surbID t1 False] m0
    by (cases "surbID = None") auto
  have d: "0 \<le> t2 - ?now" "t2 - ?now \<le> (2 * ?n + 3) * ?m"
    using f(2,3) rv(2,3) by (simp_all add: algebra_simps)
  then have sub: "time_Sub t2 ?now = t2 - ?now"
    using assms(10) by (intro time_Sub_eq) (simp add: is_i64_def TestPeriod_def Second_def)
  have ct: "compose_turn K g ops cfg recipient provider surbID b r tn =
      Ok (finish_turn K ops surbID b ?now p1 p2 t2 r2)"
    using assms(6,7,11) rv(1) f(1) by (cases "surbID = None") (auto simp: compose_turn_def nw Let_def)
  have "time_Sub t2 ?now < TestPeriod * 2" using d(2) assms(10) sub by simp
  from finish_turn_accepted [OF assms(12) f(4) rv(4) assms(15) this, of r2]
  have "\<exists>pkt k. finish_turn K ops surbID b ?now p1 p2 t2 r2 = Return r2 (Inr (pkt, k, t2 - ?now))"
    unfolding sub by blast
  then obtain pkt k where "finish_turn K ops surbID b ?now p1 p2 t2 r2 = Return r2 (Inr (pkt, k, t2 - ?now))" by blast
  with ct have "ComposeSphinxPacket K g ops cfg recipient provider surbID b r (tn # tns) = Ok (Some (r2, Inr (pkt, k, t2 - ?now)))"
    using assms(14,15) by (simp add: ComposeSphinxPacket_def)
  with d show ?thesis by blast
qed

text \<open>
  C13. Composing makes progress: when the PKI reports the epoch, both documents name the two providers
  with mix keys of the epoch and a non-empty topology of \<open>n\<close> layers, the delay bound of the document
  keeps \<open>2n + 3\<close> delays under two epochs, the selection took no longer than the time left in the
  epoch, the \<open>n + 2\<close> hops of a path are not more than Sphinx allows, and Sphinx accepts paths within
  its limits (\<open>sphinx_accepts\<close>), then the first turn of the loop already returns a packet,
  and the announced round trip is at most those \<open>2n + 3\<close> delays.
\<close>

theorem Compose_progress:
  assumes "rng_ok g" and "client_route_ok K d me them"
    and "GetProvider ops d (cfg_Provider cfg) = Inr me" and "GetProvider ops d provider = Inr them"
    and "t_epochInfo tn = (e, h, None)" and "t_docForward tn = Some d" and "t_docReverse tn = Some d"
    and "\<forall>desc \<in> insert me (insert them (\<Union>(set ` set (Topology d)))). map_of (MixKeys desc) (e - 1) \<noteq> None"
    and "0 < uint (MuMaxDelay d)"
    and "(2 * int (length (Topology d)) + 3) * (uint (MuMaxDelay d) * Millisecond) < 2 * TestPeriod"
    and "t_since tn \<le> TestPeriod - Second * min (uint h) 10"
    and "sphinx_accepts K ops" and "length (Topology d) + 2 \<le> NrHops K"
    and "length recipient \<le> RecipientIDLength K" and "length b = UserForwardPayloadLength K"
  shows "\<exists>r' pkt k rtt. ComposeSphinxPacket K g ops cfg recipient provider surbID b r (tn # tns) =
      Ok (Some (r', Inr (pkt, k, rtt))) \<and>
    0 \<le> rtt \<and> rtt \<le> (2 * int (length (Topology d)) + 3) * (uint (MuMaxDelay d) * Millisecond)"
  by (rule compose_first_turn [OF assms])

theorem Compose_progress_witness:
  "\<exists>r' pkt k rtt. ComposeSphinxPacket example_const (const_rng 5) example_ops example_cfg ''x'' ''b'' None
      [1, 2, 3, 4, 5, 6, 7, 8] () [example_turn] = Ok (Some (r', Inr (pkt, k, rtt))) \<and> rtt \<le> 500000000"
proof -
  have h: "GetProvider example_ops doc4 (cfg_Provider example_cfg) = Inr (prov ''a'' 7)"
      "GetProvider example_ops doc4 ''b'' = Inr (prov ''b'' 8)"
      "t_epochInfo example_turn = (5, 2, None)" "t_docForward example_turn = Some doc4"
      "t_docReverse example_turn = Some doc4"
      "\<forall>desc \<in> insert (prov ''a'' 7) (insert (prov ''b'' 8) (\<Union>(set ` set (Topology doc4)))).
         map_of (MixKeys desc) (5 - 1) \<noteq> None"
      "0 < uint (MuMaxDelay doc4)"
      "(2 * int (length (Topology doc4)) + 3) * (uint (MuMaxDelay doc4) * Millisecond) < 2 * TestPeriod"
      "t_since example_turn \<le> TestPeriod - Second * min (uint (2 :: u64)) 10"
    by (simp_all add: example_ops_def example_cfg_def example_turn_def doc4_def prov_def mix_def
        Millisecond_def TestPeriod_def Second_def)
  have k: "length (Topology doc4) + 2 \<le> NrHops example_const" "length ''x'' \<le> RecipientIDLength example_const"
      "length [1, 2, 3, 4, 5, 6, 7, 8 :: u8] = UserForwardPayloadLength example_const"
    by (simp_all add: doc4_def example_const_def)
  have b: "(2 * int (length (Topology doc4)) + 3) * (uint (MuMaxDelay doc4) * Millisecond) = 500000000"
    by (simp add: doc4_def Millisecond_def)
  from Compose_progress [OF const_rng_ok route4_ok h example_accepts k, of 5 None "()" "[]", unfolded b]
  show ?thesis by blast
qed

text \<open>
  A recipient longer than the recipient field, or a ciphertext that is not exactly a forward
  payload, is refused before anything is drawn, and nothing is sent.
\<close>

lemma Send_refuses:
  assumes "length recipient > RecipientIDLength K \<or> length b \<noteq> UserForwardPayloadLength K"
  shows "\<exists>err. SendUnreliableCiphertext K g ops cfg sendPacket recipient provider b r tns = Ok (Some (r, Some err)) \<and>
    SendCiphertext K g ops cfg sendPacket recipient provider sid b r tns = Ok (Some (r, None, 0, Some err)) \<and>
    (err = Errorf (''minclient: invalid recipient: '' @ quoted_v) [ArgS recipient] \<or>
     err = Errorf ''minclient: invalid ciphertext size: %v'' [ArgI (int (length b))])"
  using assms
  by (auto simp: SendUnreliableCiphertext_def SendCiphertext_def ComposeSphinxPacket_def)

end
