(* ===== verification/Meson_Session.thy ===== *)
theory Meson_Session
  imports Meson_Queue Meson_MinSend
begin

unbundle bit_operations_syntax

text \<open>
  \<^verbatim>\<open>src/message.go\<close>, \<^verbatim>\<open>src/events.go\<close>, \<^verbatim>\<open>src/session.go\<close> and \<^verbatim>\<open>src/send.go\<close>: messages, events, the
  state of a session and its operations.  A call into the minimal client, and what else an
  operation observes (random bytes, clock, documents), comes from the record \<open>senv\<close>.  Messages
  have value semantics: \<open>doSend\<close> updates a message before it stores it or hands it on, and no one
  writes to it afterwards.  Deliveries on unbuffered channels are recorded in \<open>s_out\<close>.
\<close>

section \<open>Definitions\<close>

subsection \<open>Messages and events\<close>

record Message =
  m_ID :: bytes
  m_Recipient :: string
  m_Provider :: string
  m_Payload :: bytes
  m_SentAt :: int
  m_ReplyETA :: int
  m_IsBlocking :: bool
  m_SURBID :: "bytes option"
  m_Key :: bytes
  m_Reply :: bytes
  m_WithSURB :: bool
  m_IsDecoy :: bool
  m_QueuePriority :: u64

definition blank_Message :: Message where
  "blank_Message = \<lparr>m_ID = [], m_Recipient = [], m_Provider = [], m_Payload = [], m_SentAt = 0,
     m_ReplyETA = 0, m_IsBlocking = False, m_SURBID = None, m_Key = [], m_Reply = [],
     m_WithSURB = False, m_IsDecoy = False, m_QueuePriority = 0\<rparr>"

definition Priority :: "Message \<Rightarrow> u64" where
  "Priority m = m_QueuePriority m"

datatype Event =
    ConnectionStatusEvent bool "go_error option"
  | MessageReplyEvent bytes bytes "go_error option"
  | MessageSentEvent bytes int int "go_error option"
  | MessageIDGarbageCollected bytes
  | NewDocumentEvent Document

text \<open>The \<open>String\<close> methods; \<open>show_err\<close> renders an error (the verb \<open>%v\<close>).\<close>

fun Event_String :: "(go_error option \<Rightarrow> string) \<Rightarrow> Event \<Rightarrow> string" where
  "Event_String show_err (ConnectionStatusEvent isConnected err) =
     (if \<not> isConnected then ''ConnectionStatus: false ('' @ show_err err @ '')''
      else ''ConnectionStatus: true'')"
| "Event_String show_err (MessageReplyEvent ident payload err) =
     (if err \<noteq> None then ''MessageReply: '' @ EncodeToString ident @ '' failed: '' @ show_err err
      else ''KaetzchenReply: '' @ EncodeToString ident @ '' ('' @ itoa (length payload) @ '' bytes)'')"
| "Event_String show_err (MessageSentEvent ident sentAt eta err) =
     (if err \<noteq> None then ''MessageSent: '' @ EncodeToString ident @ '' failed: '' @ show_err err
      else ''MessageSent: '' @ EncodeToString ident)"
| "Event_String show_err (MessageIDGarbageCollected ident) =
     ''MessageIDGarbageCollected: '' @ EncodeToString ident"
| "Event_String show_err (NewDocumentEvent d) =
     ''PKI Document for epoch '' @ itoa (unat (Epoch d))"

subsection \<open>The session\<close>

datatype workerOp = opConnStatusChanged bool | opNewDocument Document

text \<open>
  Deliveries to goroutines that wait: the message that was sent, the closed channel of one that
  was not, a reply; and every call of a sending function of the minimal client.
\<close>

datatype session_action =
    SentWait bytes Message
  | SentWaitClosed bytes
  | ReplyWait bytes bytes
  | MinSend Message "go_error option"

record Session =
  s_fatalErrCh :: "go_error list"
  s_opCh :: "workerOp list"
  s_eventCh :: "Event list"
  s_onlineAt :: int
  s_hasPKIDoc :: bool
  s_egressQueue :: "Message queue"
  s_surbIDMap :: "bytes \<Rightarrow> Message option"
  s_sentWaitChanMap :: "bytes \<Rightarrow> unit option"
  s_replyWaitChanMap :: "bytes \<Rightarrow> unit option"
  s_decoyLoopTally :: u64
  s_out :: "session_action list"

definition new_Session :: "kconst \<Rightarrow> Session" where
  "new_Session K = \<lparr>s_fatalErrCh = [], s_opCh = [], s_eventCh = [], s_onlineAt = 0, s_hasPKIDoc = False,
     s_egressQueue = new_Queue (MaxEgressQueueSize K), s_surbIDMap = (\<lambda>_. None),
     s_sentWaitChanMap = (\<lambda>_. None), s_replyWaitChanMap = (\<lambda>_. None), s_decoyLoopTally = 0, s_out = []\<rparr>"

record ServiceDescriptor =
  sd_Name :: string
  sd_Provider :: string

text \<open>
  The surroundings of one operation: the answers of \<open>minclient.SendCiphertext\<close> and
  \<open>SendUnreliableCiphertext\<close>, the two reads of random bytes, the clock, the current document, the
  services it lists (\<open>utils.FindServices\<close> is third-party code), the draw of \<open>mrand.Intn\<close>, and the
  messages that other goroutines push while a message is being sent.
\<close>

record senv =
  e_SendCiphertext :: "string \<Rightarrow> string \<Rightarrow> bytes \<Rightarrow> bytes \<Rightarrow> bytes option \<times> int \<times> go_error option"
  e_SendUnreliable :: "string \<Rightarrow> string \<Rightarrow> bytes \<Rightarrow> go_error option"
  e_surbID :: "bytes result"
  e_msgID :: "bytes result"
  e_now :: int
  e_currentDoc :: "Document option"
  e_FindServices :: "string \<Rightarrow> Document \<Rightarrow> ServiceDescriptor list"
  e_Intn :: "nat \<Rightarrow> nat"
  e_pushes :: "Message list"

definition fatal :: "go_error \<Rightarrow> Session \<Rightarrow> Session" where
  "fatal err s = s\<lparr>s_fatalErrCh := s_fatalErrCh s @ [err]\<rparr>"

definition event :: "Event \<Rightarrow> Session \<Rightarrow> Session" where
  "event ev s = s\<lparr>s_eventCh := s_eventCh s @ [ev]\<rparr>"

definition act :: "session_action \<Rightarrow> Session \<Rightarrow> Session" where
  "act a s = s\<lparr>s_out := s_out s @ [a]\<rparr>"

definition GetService :: "senv \<Rightarrow> string \<Rightarrow> ServiceDescriptor result outcome" where
  "GetService env serviceName =
    (case e_currentDoc env of
       None \<Rightarrow> Ok (Inl (Errorf ''pki doc is nil'' []))
     | Some d \<Rightarrow>
         (let serviceDescriptors = e_FindServices env serviceName d in
          if length serviceDescriptors = 0 then
            Ok (Inl (Errorf ''error, GetService failure, service not found in pki doc'' []))
          else
            obind (get_at serviceDescriptors (int (e_Intn env (length serviceDescriptors))))
              (\<lambda>sd. Ok (Inr sd))))"

definition onConnection :: "go_error option \<Rightarrow> Session \<Rightarrow> Session" where
  "onConnection err s =
    (let s1 = event (ConnectionStatusEvent (err = None) err) s in
     s1\<lparr>s_opCh := s_opCh s1 @ [opConnStatusChanged (err = None)]\<rparr>)"

definition onMessage :: "bytes \<Rightarrow> Session \<Rightarrow> Session \<times> go_error option" where
  "onMessage ciphertextBlock s = (s, None)"

definition incrementDecoyLoopTally :: "Session \<Rightarrow> Session" where
  "incrementDecoyLoopTally s = s\<lparr>s_decoyLoopTally := s_decoyLoopTally s + 1\<rparr>"

definition decrementDecoyLoopTally :: "Session \<Rightarrow> Session" where
  "decrementDecoyLoopTally s = s\<lparr>s_decoyLoopTally := s_decoyLoopTally s + NOT 0\<rparr>"

text \<open>
  \<open>onACK\<close>, which runs in a goroutine of its own for every acknowledgement.  Its accesses to what the
  goroutines share are three: the lookup of the SURB identifier, its deletion, and what is done with
  the reply.  The last part ends with the reply that is about to be sent to a waiting goroutine, if it
  comes to that.  \<open>sphinx.DecryptSURBPayload\<close> is third-party code, the argument \<open>decrypt\<close>.
\<close>

definition onACK_load :: "bytes \<Rightarrow> Session \<Rightarrow> Message option" where
  "onACK_load surbID s = s_surbIDMap s surbID"

definition onACK_delete :: "bytes \<Rightarrow> Session \<Rightarrow> Session" where
  "onACK_delete surbID s = s\<lparr>s_surbIDMap := (s_surbIDMap s)(surbID := None)\<rparr>"

definition onACK_deliver ::
  "kconst \<Rightarrow> (bytes \<Rightarrow> bytes \<Rightarrow> bytes result) \<Rightarrow> bytes \<Rightarrow> Message \<Rightarrow> Session \<Rightarrow>
   (Session \<times> (bytes \<times> bytes) option) outcome" where
  "onACK_deliver K decrypt ciphertext msg s =
    (case decrypt ciphertext (m_Key msg) of
       Inl err \<Rightarrow> Ok (s, None)
     | Inr plaintext \<Rightarrow>
         (if length plaintext \<noteq> ForwardPayloadLength K then Ok (s, None)
          else if m_WithSURB msg \<and> m_IsDecoy msg then Ok (decrementDecoyLoopTally s, None)
          else if m_IsBlocking msg then
            (case s_replyWaitChanMap s (m_ID msg) of
               None \<Rightarrow> Ok (s, None)
             | Some _ \<Rightarrow>
                 obind (go_slice plaintext 2 (length plaintext)) (\<lambda>p.
                   Ok (act (ReplyWait (m_ID msg) p) s, Some (m_ID msg, p))))
          else
            obind (go_slice plaintext 2 (length plaintext)) (\<lambda>p.
              Ok (event (MessageReplyEvent (m_ID msg) p None) s, None))))"

text \<open>A call that no other goroutine interferes with; \<open>onACK\<close> always returns nil.\<close>

definition onACK ::
  "kconst \<Rightarrow> (bytes \<Rightarrow> bytes \<Rightarrow> bytes result) \<Rightarrow> bytes \<Rightarrow> bytes \<Rightarrow> Session \<Rightarrow> (Session \<times> go_error option) outcome" where
  "onACK K decrypt surbID ciphertext s =
    (case onACK_load surbID s of
       None \<Rightarrow> Ok (s, None)
     | Some msg \<Rightarrow>
         obind (onACK_deliver K decrypt ciphertext msg (onACK_delete surbID s)) (\<lambda>(s', _). Ok (s', None)))"

definition onDocument :: "Document \<Rightarrow> Session \<Rightarrow> Session" where
  "onDocument d s =
    (let s1 = s\<lparr>s_hasPKIDoc := True\<rparr>; s2 = s1\<lparr>s_opCh := s_opCh s1 @ [opNewDocument d]\<rparr> in
     event (NewDocumentEvent d) s2)"

text \<open>
  Garbage collection: the range over the map meets every key once, in an order that is the argument
  \<open>keys\<close>; \<open>After\<close> is strict.
\<close>

definition expired :: "kconst \<Rightarrow> int \<Rightarrow> Message \<Rightarrow> bool" where
  "expired K now m \<longleftrightarrow> now > m_SentAt m + m_ReplyETA m + RoundTripTimeSlop K"

fun garbageCollect :: "kconst \<Rightarrow> int \<Rightarrow> bytes list \<Rightarrow> Session \<Rightarrow> Session" where
  "garbageCollect K now [] s = s"
| "garbageCollect K now (surbID # keys) s =
     (case s_surbIDMap s surbID of
        None \<Rightarrow> garbageCollect K now keys s
      | Some message \<Rightarrow>
          (if expired K now message then
             garbageCollect K now keys
               (event (MessageIDGarbageCollected (m_ID message))
                 (s\<lparr>s_surbIDMap := (s_surbIDMap s)(surbID := None)\<rparr>))
           else garbageCollect K now keys s))"

text \<open>
  The two background goroutines, over what their \<open>select\<close> statements yield.  The event sink takes the
  events from \<open>eventCh\<close> in order and hands each to \<open>EventSink\<close>, unless the session halts while the
  event has no reader; the collector runs \<open>garbageCollect\<close> whenever its timer fires.
\<close>

datatype sink_wake = SinkHalt | SinkDelivered | SinkHaltHolding

fun eventSinkWorker :: "sink_wake list \<Rightarrow> Session \<Rightarrow> Session \<times> Event list" where
  "eventSinkWorker [] s = (s, [])"
| "eventSinkWorker (SinkHalt # ws) s = (s, [])"
| "eventSinkWorker (SinkHaltHolding # ws) s = (s\<lparr>s_eventCh := tl (s_eventCh s)\<rparr>, [])"
| "eventSinkWorker (SinkDelivered # ws) s =
     (case s_eventCh s of
        [] \<Rightarrow> (s, [])
      | e # es \<Rightarrow> (case eventSinkWorker ws (s\<lparr>s_eventCh := es\<rparr>) of (s', out) \<Rightarrow> (s', e # out)))"

datatype gc_wake = GCHalt | GCTimer int "bytes list"

fun garbageCollectionWorker :: "kconst \<Rightarrow> gc_wake list \<Rightarrow> Session \<Rightarrow> Session" where
  "garbageCollectionWorker K [] s = s"
| "garbageCollectionWorker K (GCHalt # ws) s = s"
| "garbageCollectionWorker K (GCTimer now keys # ws) s =
     garbageCollectionWorker K ws (garbageCollect K now keys s)"

subsection \<open>Sending\<close>

definition ErrReplyTimeout :: go_error where
  "ErrReplyTimeout = Sentinel ''failure waiting for reply, timeout reached''"

definition ErrMessageNotSent :: go_error where
  "ErrMessageNotSent = Sentinel ''failure sending message''"

definition doSend :: "senv \<Rightarrow> Message \<Rightarrow> Session \<Rightarrow> Session" where
  "doSend env msg s =
    (case e_surbID env of
       Inl _ \<Rightarrow>
         fatal (Errorf ''impossible failure, failed to generate SURB ID for message ID %x'' [ArgB (m_ID msg)]) s
     | Inr surbID \<Rightarrow>
         (let (key, eta, err) =
                (if m_WithSURB msg
                 then e_SendCiphertext env (m_Recipient msg) (m_Provider msg) surbID (m_Payload msg)
                 else (Some [], 0, e_SendUnreliable env (m_Recipient msg) (m_Provider msg) (m_Payload msg)));
              s1 = act (MinSend msg err) s;
              msg1 = (if err = None then msg\<lparr>m_SentAt := e_now env\<rparr> else msg);
              msg2 = (if m_WithSURB msg \<and> err = None
                      then msg1\<lparr>m_ReplyETA := eta, m_Key := (case key of None \<Rightarrow> [] | Some k \<Rightarrow> k)\<rparr> else msg1);
              s2 = (if m_WithSURB msg \<and> err = None
                    then s1\<lparr>s_surbIDMap := (s_surbIDMap s1)(surbID \<mapsto> msg2)\<rparr> else s1)
          in if m_WithSURB msg \<and> m_IsBlocking msg then
               (case s_sentWaitChanMap s2 (m_ID msg) of
                  None \<Rightarrow>
                    fatal (Errorf ''impossible failure, sentWaitChan not found for message ID %x''
                             [ArgB (m_ID msg)]) s2
                | Some _ \<Rightarrow> act (if err = None then SentWait (m_ID msg) msg2 else SentWaitClosed (m_ID msg)) s2)
             else event (MessageSentEvent (m_ID msg) (m_SentAt msg2) (m_ReplyETA msg2) err) s2))"

text \<open>
  \<open>sendNext\<close>: the head of the queue is sent, then popped; meanwhile other goroutines may have pushed.
\<close>

definition sendNext :: "kconst \<Rightarrow> senv \<Rightarrow> Session \<Rightarrow> Session outcome" where
  "sendNext K env s =
    obind (Queue_Peek (s_egressQueue s)) (\<lambda>r.
      case r of
        Inl _ \<Rightarrow> Ok (fatal (Errorf ''impossible failure to Peek from queue'' []) s)
      | Inr None \<Rightarrow> Ok (fatal (Errorf ''impossible failure, got nil message from queue'' []) s)
      | Inr (Some m) \<Rightarrow>
          obind (push_all (Queue_Push (MaxEgressQueueSize K)) (s_egressQueue s) (e_pushes env)) (\<lambda>q1.
            obind (Queue_Pop (MaxEgressQueueSize K) blank_Message q1) (\<lambda>(q2, popped).
              let s1 = (doSend env m s)\<lparr>s_egressQueue := q2\<rparr> in
              case popped of
                Inl _ \<Rightarrow> Ok (fatal (Errorf ''impossible failure to Pop from queue'' []) s1)
              | Inr _ \<Rightarrow> Ok s1)))"

definition decoy_message :: "kconst \<Rightarrow> bytes \<Rightarrow> ServiceDescriptor \<Rightarrow> bool \<Rightarrow> Message" where
  "decoy_message K ident sd withSURB = blank_Message\<lparr>m_ID := ident, m_Recipient := sd_Name sd,
     m_Provider := sd_Provider sd, m_Payload := replicate (UserForwardPayloadLength K) 0,
     m_WithSURB := withSURB, m_IsDecoy := True\<rparr>"

definition sendDropDecoy :: "kconst \<Rightarrow> senv \<Rightarrow> Session \<Rightarrow> Session outcome" where
  "sendDropDecoy K env s =
    obind (GetService env (LoopService K)) (\<lambda>r.
      case r of
        Inl _ \<Rightarrow> Ok (fatal (Errorf ''failure to get loop service'' []) s)
      | Inr serviceDesc \<Rightarrow>
          (case e_msgID env of
             Inl _ \<Rightarrow> Ok (fatal (Errorf ''failure to generate message ID for drop decoy'' []) s)
           | Inr ident \<Rightarrow> Ok (doSend env (decoy_message K ident serviceDesc False) s)))"

definition sendLoopDecoy :: "kconst \<Rightarrow> senv \<Rightarrow> Session \<Rightarrow> Session outcome" where
  "sendLoopDecoy K env s =
    obind (GetService env (LoopService K)) (\<lambda>r.
      case r of
        Inl _ \<Rightarrow> Ok (fatal (Errorf ''failure to get loop service'' []) s)
      | Inr serviceDesc \<Rightarrow>
          (case e_msgID env of
             Inl _ \<Rightarrow> Ok (fatal (Errorf ''failure to generate message ID for loop decoy'' []) s)
           | Inr ident \<Rightarrow>
               Ok (incrementDecoyLoopTally (doSend env (decoy_message K ident serviceDesc True) s))))"

text \<open>\<open>len(message) > UserForwardPayloadLength - 4\<close> is a comparison of signed integers.\<close>

definition composeMessage ::
  "kconst \<Rightarrow> senv \<Rightarrow> string \<Rightarrow> string \<Rightarrow> bytes \<Rightarrow> bool \<Rightarrow> Message result" where
  "composeMessage K env recipient provider message isBlocking =
    (if int (length message) > int (UserForwardPayloadLength K) - 4 then
       Inl (Errorf ''invalid message size: %v'' [ArgI (int (length message))])
     else
       let payload = copy_into (copy_into (replicate (UserForwardPayloadLength K) 0) 0
                       (PutUint32 (word_of_nat (length message)))) 4 message in
       case e_msgID env of
         Inl err \<Rightarrow> Inl err
       | Inr ident \<Rightarrow>
           Inr (blank_Message\<lparr>m_ID := ident, m_Recipient := recipient, m_Provider := provider,
                  m_Payload := payload, m_WithSURB := True, m_IsBlocking := isBlocking\<rparr>))"

definition SendUnreliableMessage ::
  "kconst \<Rightarrow> senv \<Rightarrow> string \<Rightarrow> string \<Rightarrow> bytes \<Rightarrow> Session \<Rightarrow> (Session \<times> bytes result) outcome" where
  "SendUnreliableMessage K env recipient provider message s =
    (case composeMessage K env recipient provider message False of
       Inl err \<Rightarrow> Ok (s, Inl err)
     | Inr msg \<Rightarrow>
         obind (Queue_Push (MaxEgressQueueSize K) (s_egressQueue s) msg) (\<lambda>(q, err).
           case err of
             Some e \<Rightarrow> Ok (s\<lparr>s_egressQueue := q\<rparr>, Inl e)
           | None \<Rightarrow> Ok (s\<lparr>s_egressQueue := q\<rparr>, Inr (m_ID msg))))"

text \<open>
  \<open>BlockingSendUnreliableMessage\<close> in its three parts: up to the wait for the message to be sent; what
  is received there; and the wait for the reply, which a timeout may end.
\<close>

datatype blocking = BlockReturn "bytes result" | AwaitSent bytes | AwaitReply bytes int

definition blocking_forget :: "bytes \<Rightarrow> Session \<Rightarrow> Session" where
  "blocking_forget ident s = s\<lparr>s_sentWaitChanMap := (s_sentWaitChanMap s)(ident := None),
     s_replyWaitChanMap := (s_replyWaitChanMap s)(ident := None)\<rparr>"

definition BlockingSend_begin ::
  "kconst \<Rightarrow> senv \<Rightarrow> string \<Rightarrow> string \<Rightarrow> bytes \<Rightarrow> Session \<Rightarrow> (Session \<times> blocking) outcome" where
  "BlockingSend_begin K env recipient provider message s =
    (case composeMessage K env recipient provider message True of
       Inl err \<Rightarrow> Ok (s, BlockReturn (Inl err))
     | Inr msg \<Rightarrow>
         (let s1 = s\<lparr>s_sentWaitChanMap := (s_sentWaitChanMap s)(m_ID msg \<mapsto> ()),
                     s_replyWaitChanMap := (s_replyWaitChanMap s)(m_ID msg \<mapsto> ())\<rparr> in
          obind (Queue_Push (MaxEgressQueueSize K) (s_egressQueue s1) msg) (\<lambda>(q, err).
            let s2 = s1\<lparr>s_egressQueue := q\<rparr> in
            case err of
              Some e \<Rightarrow> Ok (blocking_forget (m_ID msg) s2, BlockReturn (Inl e))
            | None \<Rightarrow> Ok (s2, AwaitSent (m_ID msg)))))"

definition BlockingSend_sent ::
  "kconst \<Rightarrow> bytes \<Rightarrow> Message option \<Rightarrow> Session \<Rightarrow> Session \<times> blocking" where
  "BlockingSend_sent K ident sentMessage s =
    (case sentMessage of
       None \<Rightarrow> (blocking_forget ident s, BlockReturn (Inl ErrMessageNotSent))
     | Some m \<Rightarrow> (s, AwaitReply ident (to_i64 (m_ReplyETA m + RoundTripTimeSlop K))))"

definition BlockingSend_reply :: "bytes \<Rightarrow> bytes option \<Rightarrow> Session \<Rightarrow> Session \<times> blocking" where
  "BlockingSend_reply ident reply s =
    (blocking_forget ident s,
     BlockReturn (case reply of Some r \<Rightarrow> Inr r | None \<Rightarrow> Inl ErrReplyTimeout))"

text \<open>
  The whole call, for a caller that sees only its result: what came on the two waiting channels (\<open>None\<close>
  is the closed channel and the expired timer).
\<close>

definition BlockingSendUnreliableMessage ::
  "kconst \<Rightarrow> senv \<Rightarrow> string \<Rightarrow> string \<Rightarrow> bytes \<Rightarrow> Message option \<Rightarrow> bytes option \<Rightarrow> Session \<Rightarrow> bytes result outcome" where
  "BlockingSendUnreliableMessage K env recipient provider message sent reply s =
    obind (BlockingSend_begin K env recipient provider message s) (\<lambda>(s1, b).
      case b of
        AwaitSent ident \<Rightarrow>
          (case BlockingSend_sent K ident sent s1 of
             (s2, AwaitReply ident' _) \<Rightarrow>
               (case BlockingSend_reply ident' reply s2 of (_, BlockReturn r) \<Rightarrow> Ok r | _ \<Rightarrow> Panic ''unreachable'')
           | (_, BlockReturn r) \<Rightarrow> Ok r
           | _ \<Rightarrow> Panic ''unreachable'')
      | BlockReturn r \<Rightarrow> Ok r
      | AwaitReply _ _ \<Rightarrow> Panic ''unreachable'')"

section \<open>Lemmas\<close>

lemmas onACK_defs = onACK_def onACK_load_def onACK_delete_def onACK_deliver_def

lemmas session_upd = fatal_def event_def act_def incrementDecoyLoopTally_def decrementDecoyLoopTally_def

text \<open>What the session relies on when it sends with a SURB: a key and a bounded round trip.\<close>

locale sphinx_sender =
  fixes sendC :: "string \<Rightarrow> string \<Rightarrow> bytes \<Rightarrow> bytes \<Rightarrow> bytes option \<times> int \<times> go_error option"
  assumes sendC_rtt: "sendC rcpt prv sid b = (k, eta, None) \<Longrightarrow> eta < 2 * TestPeriod"
    and sendC_key: "sendC rcpt prv sid b = (k, eta, None) \<Longrightarrow> k \<noteq> None"
begin

lemma doSend_entry:
  assumes "e_SendCiphertext env = sendC" and "m_WithSURB msg" and "e_surbID env = Inr sid"
    and "s_surbIDMap s sid = None" and "s_surbIDMap (doSend env msg s) sid = Some m"
  shows "m_SentAt m = e_now env \<and> m_ReplyETA m < 2 * TestPeriod \<and> m_ID m = m_ID msg \<and>
    (\<exists>eta. sendC (m_Recipient msg) (m_Provider msg) sid (m_Payload msg) = (Some (m_Key m), eta, None))"
proof -
  obtain k eta err where c: "sendC (m_Recipient msg) (m_Provider msg) sid (m_Payload msg) = (k, eta, err)"
    by (metis prod_cases3)
  have none: "err = None"
    using assms c by (auto simp: doSend_def Let_def session_upd split: if_splits option.splits)
  then obtain key where key: "k = Some key" using sendC_key c by blast
  have "m_SentAt m = e_now env \<and> m_ReplyETA m = eta \<and> m_ID m = m_ID msg \<and> m_Key m = key"
    using assms c none key by (auto simp: doSend_def Let_def session_upd split: if_splits option.splits)
  with c none key sendC_rtt show ?thesis by auto
qed

lemma doSend_expires:
  assumes "e_SendCiphertext env = sendC" and "m_WithSURB msg" and "e_surbID env = Inr sid"
    and "s_surbIDMap s sid = None" and "s_surbIDMap (doSend env msg s) sid = Some m"
    and "now \<ge> e_now env + 2 * TestPeriod + RoundTripTimeSlop K"
  shows "expired K now m"
  using doSend_entry [OF assms(1-5)] assms(6) by (simp add: expired_def)

end

text \<open>The answer of the minimal client to a call that returned.\<close>

definition SendCiphertext_answer ::
  "kconst \<Rightarrow> 'r rng_ops \<Rightarrow> sphinx_ops \<Rightarrow> ClientConfig \<Rightarrow> (bytes \<Rightarrow> go_error option) \<Rightarrow> 'r \<Rightarrow> turn list \<Rightarrow>
   string \<Rightarrow> string \<Rightarrow> bytes \<Rightarrow> bytes \<Rightarrow> bytes option \<times> int \<times> go_error option" where
  "SendCiphertext_answer K g ops cfg sendPacket r tns recipient provider surbID b =
    (case SendCiphertext K g ops cfg sendPacket recipient provider surbID b r tns of
       Ok (Some (r', k, eta, err)) \<Rightarrow> (k, eta, err)
     | _ \<Rightarrow> (None, 0, Some (ExtError ''the call did not return'')))"

interpretation min: sphinx_sender "SendCiphertext_answer K g ops cfg sendPacket r tns"
  for K :: kconst and g :: "'r rng_ops" and ops cfg sendPacket r tns
proof
  fix rcpt prv sid b k eta
  assume a: "SendCiphertext_answer K g ops cfg sendPacket r tns rcpt prv sid b = (k, eta, None)"
  then obtain r' pkt where
    c: "ComposeSphinxPacket K g ops cfg rcpt prv (Some sid) b r tns = Ok (Some (r', Inr (pkt, k, eta)))"
    by (auto simp: SendCiphertext_answer_def SendCiphertext_def
        split: outcome.splits option.splits prod.splits sum.splits elim!: obind.elims)
  show "eta < 2 * TestPeriod" and "k \<noteq> None" using Compose_rtt [OF c] by simp_all
qed

lemma doSend_frame [simp]:
  "s_egressQueue (doSend env msg s) = s_egressQueue s"
  "s_opCh (doSend env msg s) = s_opCh s"
  "s_sentWaitChanMap (doSend env msg s) = s_sentWaitChanMap s"
  "s_replyWaitChanMap (doSend env msg s) = s_replyWaitChanMap s"
  "s_decoyLoopTally (doSend env msg s) = s_decoyLoopTally s"
  by (simp_all add: doSend_def session_upd Let_def split: sum.splits prod.splits option.splits)

text \<open>The messages given to the minimal client so far.\<close>

definition sends :: "session_action list \<Rightarrow> Message list" where
  "sends acts = concat (map (\<lambda>a. case a of MinSend m _ \<Rightarrow> [m] | _ \<Rightarrow> []) acts)"

lemma sends_simps [simp]:
  "sends [] = []" "sends (as @ bs) = sends as @ sends bs"
  "sends (a # as) = (case a of MinSend m _ \<Rightarrow> [m] | _ \<Rightarrow> []) @ sends as"
  by (simp_all add: sends_def)

lemma sends_doSend [simp]:
  "sends (s_out (doSend env msg s)) = sends (s_out s) @ (case e_surbID env of Inl _ \<Rightarrow> [] | Inr _ \<Rightarrow> [msg])"
  by (simp add: doSend_def session_upd Let_def split: sum.splits prod.splits option.splits)

lemma fatal_doSend:
  assumes "e_surbID env = Inr sid" and "m_IsBlocking msg \<longrightarrow> s_sentWaitChanMap s (m_ID msg) \<noteq> None"
  shows "s_fatalErrCh (doSend env msg s) = s_fatalErrCh s"
  using assms by (auto simp: doSend_def session_upd Let_def split: prod.splits option.splits)

lemma sendNext_head:
  assumes "q_inv (MaxEgressQueueSize K) (s_egressQueue s)"
    and "q_list (MaxEgressQueueSize K) (s_egressQueue s) = m # ms"
  shows "\<exists>q. sendNext K env s = Ok ((doSend env m s)\<lparr>s_egressQueue := q\<rparr>) \<and>
    q_inv (MaxEgressQueueSize K) q \<and>
    q_list (MaxEgressQueueSize K) q = ms @ take (MaxEgressQueueSize K - Suc (length ms)) (e_pushes env)"
proof -
  let ?N = "MaxEgressQueueSize K"
  have pk: "Queue_Peek (s_egressQueue s) = Ok (Inr (Some m))" using ring.peek_item [OF assms] .
  obtain q1 where q1: "push_all (Queue_Push ?N) (s_egressQueue s) (e_pushes env) = Ok q1"
    using ring.push_all_take [OF assms(1), of "e_pushes env"] by blast
  from ring.peek_push_pop [OF assms(1) pk q1, of blank_Message] obtain q2 where
    q2: "Queue_Pop ?N blank_Message q1 = Ok (q2, Inr (Some m))" "q_inv ?N q2"
      "q_list ?N q2 = tl (q_list ?N (s_egressQueue s)) @ take (?N - length (q_list ?N (s_egressQueue s))) (e_pushes env)"
    by blast
  have "sendNext K env s = Ok ((doSend env m s)\<lparr>s_egressQueue := q2\<rparr>)"
    using pk q1 q2(1) by (simp add: sendNext_def)
  with q2(2,3) assms(2) show ?thesis by auto
qed

lemma composeMessage_payload:
  assumes "composeMessage K env recipient provider message isBlocking = Inr m"
  shows "m_Payload m = PutUint32 (word_of_nat (length message)) @ message @
      replicate (UserForwardPayloadLength K - 4 - length message) 0 \<and>
    length (m_Payload m) = UserForwardPayloadLength K \<and> length message + 4 \<le> UserForwardPayloadLength K \<and>
    m_Recipient m = recipient \<and> m_Provider m = provider \<and> m_WithSURB m \<and> \<not> m_IsDecoy m \<and>
    m_IsBlocking m = isBlocking \<and> e_msgID env = Inr (m_ID m)"
proof -
  let ?U = "UserForwardPayloadLength K"
  from assms have le: "length message + 4 \<le> ?U"
    by (auto simp: composeMessage_def Let_def split: if_splits)
  have c1: "copy_into (replicate ?U 0) 0 (PutUint32 (word_of_nat (length message))) =
      PutUint32 (word_of_nat (length message)) @ replicate (?U - 4) 0"
    using le by (subst copy_into_fits) simp_all
  have c2: "copy_into (PutUint32 (word_of_nat (length message)) @ replicate (?U - 4) 0) 4 message =
      PutUint32 (word_of_nat (length message)) @ message @ replicate (?U - 4 - length message) 0"
    using le by (subst copy_into_fits) simp_all
  from assms le show ?thesis
    by (auto simp: composeMessage_def Let_def c1 c2 blank_Message_def split: sum.splits if_splits)
qed

lemma BlockingSend_begin_waits:
  assumes "q_inv (MaxEgressQueueSize K) (s_egressQueue s)"
    and "BlockingSend_begin K env recipient provider message s = Ok (s1, AwaitSent ident)"
  shows "\<exists>m. composeMessage K env recipient provider message True = Inr m \<and> m_ID m = ident \<and>
    s_sentWaitChanMap s1 ident \<noteq> None \<and> s_replyWaitChanMap s1 ident \<noteq> None \<and>
    q_inv (MaxEgressQueueSize K) (s_egressQueue s1) \<and>
    q_list (MaxEgressQueueSize K) (s_egressQueue s1) = q_list (MaxEgressQueueSize K) (s_egressQueue s) @ [m] \<and>
    s_out s1 = s_out s \<and> s_fatalErrCh s1 = s_fatalErrCh s"
proof -
  from assms(2) obtain m where m: "composeMessage K env recipient provider message True = Inr m"
    by (auto simp: BlockingSend_begin_def split: sum.splits)
  show ?thesis
    using assms(1)
  proof (cases rule: ring.push_cases [where e = m])
    case (1 q')
    with assms(2) m show ?thesis by (auto simp: BlockingSend_begin_def Let_def)
  next
    case 2
    with assms(2) m show ?thesis by (auto simp: BlockingSend_begin_def Let_def)
  qed
qed

text \<open>Events reach the reader of \<open>EventSink\<close> in the order they were emitted, none twice.\<close>

lemma eventSinkWorker_in_order:
  "eventSinkWorker ws s = (s', out) \<Longrightarrow>
    \<exists>lost. s_eventCh s = out @ lost @ s_eventCh s' \<and> length lost \<le> 1"
proof (induction ws s arbitrary: s' out rule: eventSinkWorker.induct)
  case (3 ws s)
  then show ?case by (cases "s_eventCh s") (auto intro: exI [of _ "[_]"])
next
  case (4 ws s)
  show ?case
  proof (cases "s_eventCh s")
    case (Cons e es)
    obtain s1 out1 where r: "eventSinkWorker ws (s\<lparr>s_eventCh := es\<rparr>) = (s1, out1)" by fastforce
    with 4(2) Cons have "s' = s1" "out = e # out1" by auto
    with 4(1) [OF Cons r] Cons show ?thesis by auto
  qed (use 4(2) in auto)
qed auto

section \<open>Properties\<close>

text \<open>
  \<open>sendNext\<close> sends the head of the egress queue, once, and removes exactly that message, also when
  other goroutines push while it is being sent and also when sending fails; no "impossible" queue
  failure is reported.
\<close>

lemma sendNext_sends_head:
  assumes "q_inv (MaxEgressQueueSize K) (s_egressQueue s)"
    and "q_list (MaxEgressQueueSize K) (s_egressQueue s) = m # ms"
    and "e_surbID env = Inr sid" and "m_IsBlocking m \<longrightarrow> s_sentWaitChanMap s (m_ID m) \<noteq> None"
  shows "\<exists>s'. sendNext K env s = Ok s' \<and> sends (s_out s') = sends (s_out s) @ [m] \<and>
    s_fatalErrCh s' = s_fatalErrCh s \<and> q_inv (MaxEgressQueueSize K) (s_egressQueue s') \<and>
    q_list (MaxEgressQueueSize K) (s_egressQueue s') =
      ms @ take (MaxEgressQueueSize K - Suc (length ms)) (e_pushes env)"
  using sendNext_head [OF assms(1,2), of env] fatal_doSend [OF assms(3,4)] assms(3) by auto

definition example_senv :: senv where
  "example_senv = \<lparr>e_SendCiphertext = (\<lambda>_ _ _ _. (Some [1], Second, None)), e_SendUnreliable = (\<lambda>_ _ _. None),
     e_surbID = Inr [5, 5], e_msgID = Inr [9, 9], e_now = 100, e_currentDoc = Some doc4,
     e_FindServices = (\<lambda>_ _. [\<lparr>sd_Name = ''loop'', sd_Provider = ''a''\<rparr>]), e_Intn = (\<lambda>_. 0), e_pushes = []\<rparr>"

lemma example_push:
  "\<exists>q. Queue_Push 3 (new_Queue 3) (m :: 'm) = Ok (q, None) \<and> q_inv 3 q \<and> q_list 3 q = [m]"
proof -
  have n: "q_inv 3 (new_Queue 3 :: 'm queue)" "q_list 3 (new_Queue 3 :: 'm queue) = []"
    using new_Queue_inv [of 3, where 'a = 'm and 'b = 'm] by simp_all
  have "length (q_list 3 (new_Queue 3 :: 'm queue)) < 3" unfolding n(2) by simp
  from ring.push_room [OF n(1) this, of m] show ?thesis unfolding n(2) by simp
qed

text \<open>Replies delivered to the user of the session: as an event, or to a goroutine that waits.\<close>

definition replies :: "Session \<Rightarrow> nat" where
  "replies s = length (filter (\<lambda>e. case e of MessageReplyEvent _ _ _ \<Rightarrow> True | _ \<Rightarrow> False) (s_eventCh s)) +
     length (filter (\<lambda>a. case a of ReplyWait _ _ \<Rightarrow> True | _ \<Rightarrow> False) (s_out s))"

fun onACKs ::
  "kconst \<Rightarrow> (bytes \<Rightarrow> bytes \<Rightarrow> bytes result) \<Rightarrow> (bytes \<times> bytes) list \<Rightarrow> Session \<Rightarrow> Session outcome" where
  "onACKs K decrypt [] s = Ok s"
| "onACKs K decrypt ((sid, ct) # acks) s =
     obind (onACK K decrypt sid ct s) (\<lambda>(s1, e). onACKs K decrypt acks s1)"

lemma onACK_step:
  assumes "onACK K decrypt sid ct s = Ok (s1, e)"
  shows "e = None \<and> s_surbIDMap s1 = (s_surbIDMap s)(sid := None) \<and>
    replies s1 \<le> replies s + (if s_surbIDMap s sid = None then 0 else 1)"
  using assms
  by (auto simp: onACK_defs Let_def session_upd replies_def go_slice_def split: option.splits sum.splits if_splits)

text \<open>
  Acknowledgements whose callbacks do not overlap, in whatever order and however often they are repeated:
  the number of replies delivered is at most the number of distinct identifiers among them that were
  outstanding, and all of these are outstanding no more.
\<close>

lemma sequential_acks_once:
  assumes "onACKs K decrypt acks s = Ok s'"
  shows "replies s' \<le> replies s + card (dom (s_surbIDMap s) \<inter> set (map fst acks)) \<and>
    dom (s_surbIDMap s') = dom (s_surbIDMap s) - set (map fst acks)"
  using assms
proof (induction acks arbitrary: s)
  case (Cons a acks)
  obtain sid ct where a: "a = (sid, ct)" by fastforce
  from Cons.prems a obtain s1 e where o: "onACK K decrypt sid ct s = Ok (s1, e)"
      and rest: "onACKs K decrypt acks s1 = Ok s'"
    by (cases "onACK K decrypt sid ct s") auto
  let ?A = "dom (s_surbIDMap s) \<inter> set (map fst (a # acks))" and ?B = "dom (s_surbIDMap s1) \<inter> set (map fst acks)"
  from onACK_step [OF o] have d: "dom (s_surbIDMap s1) = dom (s_surbIDMap s) - {sid}"
      and r: "replies s1 \<le> replies s + (if s_surbIDMap s sid = None then 0 else 1)" by auto
  have "card ?B + (if s_surbIDMap s sid = None then 0 else 1) \<le> card ?A"
  proof (cases "s_surbIDMap s sid")
    case None
    then have "?B \<subseteq> ?A" using d by auto
    with None show ?thesis by (simp add: card_mono)
  next
    case (Some m)
    then have "insert sid ?B \<subseteq> ?A" "sid \<notin> ?B" using a d by auto
    then have "Suc (card ?B) \<le> card ?A" using card_mono [of ?A "insert sid ?B"] by simp
    with Some show ?thesis by simp
  qed
  with Cons.IH [OF rest] r d a show ?case by auto
qed simp

text \<open>
  C17. A message sent with a SURB can be answered: after \<open>doSend\<close> of a message that is no decoy, and whose
  sending succeeded, a reply under the same SURB identifier that decrypts with the key the
  minimal client returned to a full payload is delivered with the message's own identifier,
  without the payload's first two bytes: as an event, or to the goroutine that waits for it.
\<close>

theorem reply_matches_request:
  assumes "m_WithSURB msg" and "\<not> m_IsDecoy msg" and "e_surbID env = Inr sid"
    and "e_SendCiphertext env (m_Recipient msg) (m_Provider msg) sid (m_Payload msg) = (Some key, eta, None)"
    and "m_IsBlocking msg \<longrightarrow> s_sentWaitChanMap s (m_ID msg) \<noteq> None \<and> s_replyWaitChanMap s (m_ID msg) \<noteq> None"
    and "decrypt ciphertext key = Inr plaintext" and "length plaintext = ForwardPayloadLength K"
    and "2 \<le> ForwardPayloadLength K"
  shows "\<exists>s'. onACK K decrypt sid ciphertext (doSend env msg s) = Ok (s', None) \<and>
    (if m_IsBlocking msg
     then s_out s' = s_out (doSend env msg s) @ [ReplyWait (m_ID msg) (drop 2 plaintext)]
     else s_eventCh s' = s_eventCh (doSend env msg s) @ [MessageReplyEvent (m_ID msg) (drop 2 plaintext) None])"
proof -
  let ?m = "msg\<lparr>m_SentAt := e_now env, m_ReplyETA := eta, m_Key := key\<rparr>"
  have e: "s_surbIDMap (doSend env msg s) sid = Some ?m"
    using assms(1,3,4) by (simp add: doSend_def session_upd Let_def split: option.splits)
  show ?thesis
  proof (cases "m_IsBlocking msg")
    case True
    then obtain u where "s_replyWaitChanMap (doSend env msg s) (m_ID msg) = Some u" using assms(5) by auto
    with True e assms(2,6-8) show ?thesis by (simp add: onACK_defs go_slice_def act_def)
  next
    case False
    with e assms(2,6-8) show ?thesis by (simp add: onACK_defs go_slice_def event_def)
  qed
qed

theorem reply_matches_request_witness:
  "\<exists>s'. onACK example_const (\<lambda>ct k. if k = [1] then Inr ct else Inl (ExtError ''key'')) [5, 5] (replicate 10 7)
      (doSend example_senv (blank_Message\<lparr>m_ID := [9, 9], m_WithSURB := True\<rparr>) (new_Session example_const)) =
      Ok (s', None) \<and>
    s_eventCh s' = s_eventCh (doSend example_senv (blank_Message\<lparr>m_ID := [9, 9], m_WithSURB := True\<rparr>)
        (new_Session example_const)) @ [MessageReplyEvent [9, 9] (replicate 8 7) None]"
proof -
  let ?m = "blank_Message\<lparr>m_ID := [9, 9], m_WithSURB := True\<rparr>" and ?s = "new_Session example_const"
  have m: "m_WithSURB ?m" "\<not> m_IsDecoy ?m" "e_surbID example_senv = Inr [5, 5]"
      "e_SendCiphertext example_senv (m_Recipient ?m) (m_Provider ?m) [5, 5] (m_Payload ?m) = (Some [1], Second, None)"
      "m_IsBlocking ?m \<longrightarrow> s_sentWaitChanMap ?s (m_ID ?m) \<noteq> None \<and> s_replyWaitChanMap ?s (m_ID ?m) \<noteq> None"
    by (simp_all add: blank_Message_def example_senv_def)
  have nb: "\<not> m_IsBlocking ?m" by (simp add: blank_Message_def)
  from reply_matches_request [OF m, of "\<lambda>ct k. if k = [1] then Inr ct else Inl (ExtError ''key'')" "replicate 10 7"
      "replicate 10 7" example_const] nb
  show ?thesis by (simp add: example_const_def numeral_eq_Suc)
qed

definition gc_keep :: "kconst \<Rightarrow> int \<Rightarrow> Message option \<Rightarrow> Message option" where
  "gc_keep K now e = (case e of Some m \<Rightarrow> if expired K now m then None else Some m | None \<Rightarrow> None)"

definition gc_report :: "kconst \<Rightarrow> int \<Rightarrow> Message option \<Rightarrow> Event list" where
  "gc_report K now e =
    (case e of Some m \<Rightarrow> if expired K now m then [MessageIDGarbageCollected (m_ID m)] else [] | None \<Rightarrow> [])"

lemma garbageCollect_spec:
  assumes "distinct keys"
  shows "s_surbIDMap (garbageCollect K now keys s) =
      (\<lambda>k. if k \<in> set keys then gc_keep K now (s_surbIDMap s k) else s_surbIDMap s k) \<and>
    s_eventCh (garbageCollect K now keys s) =
      s_eventCh s @ concat (map (\<lambda>k. gc_report K now (s_surbIDMap s k)) keys) \<and>
    s_decoyLoopTally (garbageCollect K now keys s) = s_decoyLoopTally s"
  using assms
proof (induction keys arbitrary: s)
  case (Cons k keys)
  define s1 where "s1 = (case s_surbIDMap s k of
      Some m \<Rightarrow> if expired K now m then event (MessageIDGarbageCollected (m_ID m))
         (s\<lparr>s_surbIDMap := (s_surbIDMap s)(k := None)\<rparr>) else s
    | None \<Rightarrow> s)"
  have step: "garbageCollect K now (k # keys) s = garbageCollect K now keys s1"
    by (simp add: s1_def split: option.splits)
  have m: "s_surbIDMap s1 = (s_surbIDMap s)(k := gc_keep K now (s_surbIDMap s k))"
    and e: "s_eventCh s1 = s_eventCh s @ gc_report K now (s_surbIDMap s k)"
    and t: "s_decoyLoopTally s1 = s_decoyLoopTally s"
    by (auto simp: s1_def event_def gc_keep_def gc_report_def split: option.splits)
  have cong: "map (\<lambda>j. gc_report K now (s_surbIDMap s1 j)) keys = map (\<lambda>j. gc_report K now (s_surbIDMap s j)) keys"
    unfolding m using Cons.prems by auto
  have ih: "s_surbIDMap (garbageCollect K now keys s1) =
      (\<lambda>j. if j \<in> set keys then gc_keep K now (s_surbIDMap s1 j) else s_surbIDMap s1 j)"
      "s_eventCh (garbageCollect K now keys s1) =
        s_eventCh s1 @ concat (map (\<lambda>j. gc_report K now (s_surbIDMap s1 j)) keys)"
      "s_decoyLoopTally (garbageCollect K now keys s1) = s_decoyLoopTally s1"
    using Cons.IH [of s1] Cons.prems by simp_all
  show ?case
    unfolding step ih cong e t unfolding m using Cons.prems by (auto intro!: ext)
qed simp

text \<open>
  C18. No SURB entry outlives its reply: garbage collection removes exactly the entries whose round trip
  and slop are over, and its events are exactly one for each of them, in the order the map is ranged
  over; and an entry made by sending a message through the minimal client is removed and reported by
  any collection that runs two epochs and the slop after it was sent.
\<close>

theorem surb_entries_expire:
  assumes "e_SendCiphertext env = SendCiphertext_answer K g ops cfg sendPacket r tns"
    and "m_WithSURB msg" and "e_surbID env = Inr sid" and "s_surbIDMap s sid = None"
    and "distinct keys" and "dom (s_surbIDMap (doSend env msg s)) = set keys"
    and "now \<ge> e_now env + 2 * TestPeriod + RoundTripTimeSlop K"
    and "s' = garbageCollect K now keys (doSend env msg s)"
  shows "s_surbIDMap s' sid = None \<and>
    (\<forall>k. s_surbIDMap s' k = gc_keep K now (s_surbIDMap (doSend env msg s) k)) \<and>
    s_eventCh s' = s_eventCh (doSend env msg s) @ concat (map (\<lambda>k. gc_report K now (s_surbIDMap (doSend env msg s) k)) keys) \<and>
    (s_surbIDMap (doSend env msg s) sid \<noteq> None \<longrightarrow>
       sid \<in> set keys \<and> gc_report K now (s_surbIDMap (doSend env msg s) sid) = [MessageIDGarbageCollected (m_ID msg)])"
proof -
  let ?s1 = "doSend env msg s"
  note gc = garbageCollect_spec [OF assms(5), of K now ?s1, folded assms(8)]
  have "s_surbIDMap ?s1 k = None" if "k \<notin> set keys" for k using that assms(6) by (metis domI option.exhaust)
  with gc have spec: "s_surbIDMap s' k = gc_keep K now (s_surbIDMap ?s1 k)" for k
    by (simp add: gc_keep_def)
  have ex: "expired K now m" and ident: "m_ID m = m_ID msg" if "s_surbIDMap ?s1 sid = Some m" for m
    using min.doSend_expires [OF assms(1-4) that assms(7)] min.doSend_entry [OF assms(1-4) that] by auto
  have "sid \<in> set keys \<and> gc_report K now (s_surbIDMap ?s1 sid) = [MessageIDGarbageCollected (m_ID msg)]"
    if m: "s_surbIDMap ?s1 sid = Some m" for m
    using m assms(6) ex [OF m] ident [OF m] by (auto simp: gc_report_def)
  moreover have "s_surbIDMap s' sid = None"
    using spec [of sid] ex by (simp add: gc_keep_def split: option.splits)
  ultimately show ?thesis using spec gc by blast
qed

theorem surb_entries_expire_witness:
  "s_surbIDMap (garbageCollect example_const 30000000000 [[3, 4]]
     (doSend (example_senv\<lparr>e_surbID := Inr [3, 4], e_SendCiphertext := SendCiphertext_answer example_const (const_rng 5) example_ops
          example_cfg (\<lambda>_. None) () [example_turn]\<rparr>)
        (blank_Message\<lparr>m_Recipient := ''x'', m_Provider := ''b'', m_WithSURB := True,
           m_Payload := [1, 2, 3, 4, 5, 6, 7, 8]\<rparr>) (new_Session example_const))) [3, 4] = None"
proof -
  let ?env = "example_senv\<lparr>e_surbID := Inr [3, 4], e_SendCiphertext := SendCiphertext_answer example_const (const_rng 5) example_ops
          example_cfg (\<lambda>_. None) () [example_turn]\<rparr>"
  let ?m = "blank_Message\<lparr>m_Recipient := ''x'', m_Provider := ''b'', m_WithSURB := True,
           m_Payload := [1, 2, 3, 4, 5, 6, 7, 8]\<rparr>" and ?s = "new_Session example_const"
  have ans: "e_SendCiphertext ?env ''x'' ''b'' [3, 4] [1, 2, 3, 4, 5, 6, 7, 8] = (Some [6], 24000000, None)"
    using example_compose by (simp add: SendCiphertext_answer_def SendCiphertext_def)
  have "s_surbIDMap (doSend ?env ?m ?s) =
      [[3, 4] \<mapsto> ?m\<lparr>m_SentAt := 100, m_ReplyETA := 24000000, m_Key := [6]\<rparr>]"
    using ans by (simp add: doSend_def Let_def session_upd new_Session_def blank_Message_def)
      (simp add: example_senv_def)
  then have d: "dom (s_surbIDMap (doSend ?env ?m ?s)) = set [[3, 4]]" by simp
  have h: "e_SendCiphertext ?env = SendCiphertext_answer example_const (const_rng 5) example_ops
          example_cfg (\<lambda>_. None) () [example_turn]" "m_WithSURB ?m" "e_surbID ?env = Inr [3, 4]"
      "s_surbIDMap ?s [3, 4] = None" "distinct [[3, 4 :: u8]]"
    by (simp_all add: new_Session_def)
  have t: "e_now ?env + 2 * TestPeriod + RoundTripTimeSlop example_const \<le> 30000000000"
    by (simp add: example_senv_def TestPeriod_def Second_def example_const_def)
  from surb_entries_expire [OF h d t refl] show ?thesis by blast
qed

text \<open>
  A blocking send is always answered: its caller is registered before the message is queued, so
  when the worker comes to send that message it finds the waiting channel; it hands the message
  over if it was sent and closes the channel otherwise, and reports no fatal error.
\<close>

lemma blocking_send_is_answered:
  assumes "q_inv (MaxEgressQueueSize K) (s_egressQueue s)" and "q_list (MaxEgressQueueSize K) (s_egressQueue s) = []"
    and "BlockingSend_begin K env recipient provider message s = Ok (s1, AwaitSent ident)"
    and "e_surbID env' = Inr sid"
  shows "\<exists>s2 m a. sendNext K env' s1 = Ok s2 \<and> s_fatalErrCh s2 = s_fatalErrCh s \<and>
    s_out s2 = s_out s @ [MinSend m a, if a = None then SentWait ident (the (s_surbIDMap s2 sid))
                                       else SentWaitClosed ident] \<and>
    m_ID m = ident \<and> m_Recipient m = recipient \<and> m_Provider m = provider"
proof -
  obtain m where m: "composeMessage K env recipient provider message True = Inr m" "m_ID m = ident"
      "s_sentWaitChanMap s1 ident \<noteq> None" "q_inv (MaxEgressQueueSize K) (s_egressQueue s1)"
      "q_list (MaxEgressQueueSize K) (s_egressQueue s1) = [m]" "s_out s1 = s_out s"
      "s_fatalErrCh s1 = s_fatalErrCh s"
    using BlockingSend_begin_waits [OF assms(1,3)] assms(2) by auto
  note p = composeMessage_payload [OF m(1)]
  obtain key eta a where c: "e_SendCiphertext env' recipient provider sid (m_Payload m) = (key, eta, a)"
    by (metis prod_cases3)
  have "s_out (doSend env' m s1) = s_out s @ [MinSend m a,
      if a = None then SentWait ident (the (s_surbIDMap (doSend env' m s1) sid)) else SentWaitClosed ident]"
    using p m(2,3,6) assms(4) c by (auto simp: doSend_def Let_def session_upd split: option.splits)
  moreover have "s_fatalErrCh (doSend env' m s1) = s_fatalErrCh s"
    using fatal_doSend [OF assms(4), of m s1] m(2,3,7) by simp
  moreover obtain q where "sendNext K env' s1 = Ok ((doSend env' m s1)\<lparr>s_egressQueue := q\<rparr>)"
    using sendNext_head [OF m(4), of m "[]" env'] m(5) by blast
  ultimately show ?thesis using m(2) p
    by (intro exI [of _ "(doSend env' m s1)\<lparr>s_egressQueue := q\<rparr>"] exI [of _ m] exI [of _ a]) simp
qed

text \<open>
  The decoy loop tally does not count outstanding loop decoys: a loop decoy whose sending failed
  is counted although no reply to it can come, and garbage collection, which forgets the SURB of
  a lost decoy, never lowers the count.
\<close>

lemma loop_tally_drifts:
  assumes "e_msgID env = Inr ident" and "e_surbID env = Inr sid"
    and "e_SendCiphertext env = (\<lambda>_ _ _ _. (None, 0, Some err))"
    and "GetService env (LoopService K) = Ok (Inr sd)"
  shows "\<exists>s'. sendLoopDecoy K env s = Ok s' \<and> s_surbIDMap s' = s_surbIDMap s \<and>
    s_decoyLoopTally s' = s_decoyLoopTally s + 1 \<and>
    s_decoyLoopTally (garbageCollect K now keys s') = s_decoyLoopTally s'"
proof -
  have gc: "s_decoyLoopTally (garbageCollect K now keys s) = s_decoyLoopTally s" for s
    by (induction keys arbitrary: s) (auto simp: event_def split: option.splits)
  show ?thesis
    using assms by (simp add: sendLoopDecoy_def incrementDecoyLoopTally_def gc)
      (simp add: doSend_def decoy_message_def blank_Message_def Let_def session_upd)
qed

end
