(* ===== verification/Meson_Worker.thy ===== *)
theory Meson_Worker
  imports Meson_Session
begin

text \<open>
  \<^verbatim>\<open>src/worker.go\<close> and \<open>awaitFirstPKIDoc\<close> of \<^verbatim>\<open>src/session.go\<close>: the goroutine that paces a session's
  traffic.  Its local variables are the record \<open>worker\<close>; the three timers are represented by the
  duration of their last \<open>Reset\<close> (or \<open>NewTimer\<close>).  The alternatives of its \<open>select\<close> are the
  datatype \<open>wake\<close>; the surroundings of an iteration are the \<open>senv\<close> of \<open>Meson_Session\<close>, the clock
  skew the minimal client reports, and the random source.
\<close>

section \<open>Definitions\<close>

text \<open>\<open>math.MaxInt64\<close>.\<close>

definition maxDuration :: int where "maxDuration = 2 ^ 63 - 1"

record worker =
  wk_doc :: Document
  wk_lambdaP :: float64
  wk_lambdaL :: float64
  wk_lambdaD :: float64
  wk_isConnected :: bool
  wk_timerP :: int
  wk_timerL :: int
  wk_timerD :: int

definition isDocValid :: "kconst \<Rightarrow> Document \<Rightarrow> go_error option" where
  "isDocValid K d =
    (if \<exists>provider \<in> set (Providers d). LoopService K \<notin> set (Kaetzchen provider)
     then Some (Errorf ''found a Provider which does not have the loop service'' []) else None)"

text \<open>
  \<open>awaitFirstPKIDoc\<close>: the loop over what its \<open>select\<close> yields, \<open>None\<close> while it still waits.
\<close>

datatype await_event = CtxDone go_error | AwaitHalt | AwaitTimeout | AwaitOp workerOp

fun awaitFirstPKIDoc ::
  "kconst \<Rightarrow> await_event list \<Rightarrow> Session \<Rightarrow> Session \<times> go_error option option" where
  "awaitFirstPKIDoc K [] s = (s, None)"
| "awaitFirstPKIDoc K (CtxDone err # evs) s = (s, Some (Some err))"
| "awaitFirstPKIDoc K (AwaitHalt # evs) s = (s, Some (Some (Errorf ''terminating gracefully'' [])))"
| "awaitFirstPKIDoc K (AwaitTimeout # evs) s =
     (s, Some (Some (Errorf ''timeout failure awaiting first PKI document'' [])))"
| "awaitFirstPKIDoc K (AwaitOp (opNewDocument d) # evs) s =
     (case isDocValid K d of
        Some err \<Rightarrow>
          (fatal (Errorf ''aborting, PKI doc is not valid for our decoy traffic use case: %v'' [ArgE err]) s,
           Some (Some err))
      | None \<Rightarrow> (s, Some None))"
| "awaitFirstPKIDoc K (AwaitOp (opConnStatusChanged b) # evs) s = awaitFirstPKIDoc K evs s"

text \<open>
  \<open>connStatusChange\<close>; the log line it writes about the clock skew is its second result (\<open>True\<close> for the
  warning).  \<open>-skew\<close> wraps at the least \<open>int64\<close>.
\<close>

definition connStatusChange :: "kconst \<Rightarrow> int \<Rightarrow> int \<Rightarrow> bool \<Rightarrow> Session \<Rightarrow> Session \<times> bool option \<times> bool" where
  "connStatusChange K now skew isConnected s =
    (if isConnected then
       let absSkew = (if skew < 0 then to_i64 (- skew) else skew) in
       (s\<lparr>s_onlineAt := now\<rparr>, Some (absSkew > TimeSkewWarnDelta K), True)
     else (s, None, False))"

text \<open>A drawn interval: the sample in milliseconds, cut at the document's bound.\<close>

definition draw_interval :: "'r rng_ops \<Rightarrow> 'r \<Rightarrow> float64 \<Rightarrow> u64 \<Rightarrow> 'r \<times> int" where
  "draw_interval g r rate maxDelay =
    (case ExpU64 g r rate of (r', msec) \<Rightarrow>
       let msec = (if msec > maxDelay then maxDelay else msec) in
       (r', to_i64 (i64_of_u64 msec * Millisecond)))"

text \<open>The three intervals in the order they are drawn: P, L, D.\<close>

definition draw_intervals ::
  "'r rng_ops \<Rightarrow> 'r \<Rightarrow> worker \<Rightarrow> 'r \<times> int \<times> int \<times> int" where
  "draw_intervals g r w =
    (let (r1, p) = draw_interval g r (wk_lambdaP w) (LambdaPMaxDelay (wk_doc w));
         (r2, l) = draw_interval g r1 (wk_lambdaL w) (LambdaLMaxDelay (wk_doc w));
         (r3, d) = draw_interval g r2 (wk_lambdaD w) (LambdaDMaxDelay (wk_doc w))
     in (r3, p, l, d))"

text \<open>The worker up to its loop; it gives up when there is no document.\<close>

definition worker_begin ::
  "'r rng_ops \<Rightarrow> 'r \<Rightarrow> Document option \<Rightarrow> Session \<Rightarrow> Session \<times> ('r \<times> worker) option" where
  "worker_begin g r doc s =
    (case doc of
       None \<Rightarrow> (fatal (Errorf ''aborting, PKI doc is nil'' []) s, None)
     | Some d \<Rightarrow>
         (let w = \<lparr>wk_doc = d, wk_lambdaP = LambdaP d, wk_lambdaL = LambdaL d, wk_lambdaD = LambdaD d,
                   wk_isConnected = False, wk_timerP = 0, wk_timerL = 0, wk_timerD = 0\<rparr>;
              (r', p, l, dd) = draw_intervals g r w
          in (s, Some (r', w\<lparr>wk_timerP := p, wk_timerL := l, wk_timerD := dd\<rparr>))))"

definition sendFromQueueOrDecoy :: "kconst \<Rightarrow> bool \<Rightarrow> senv \<Rightarrow> Session \<Rightarrow> Session outcome" where
  "sendFromQueueOrDecoy K disableDecoys env s =
    obind (Queue_Peek (s_egressQueue s)) (\<lambda>r.
      case r of
        Inr _ \<Rightarrow> sendNext K env s
      | Inl _ \<Rightarrow> if \<not> disableDecoys then sendDropDecoy K env s else Ok s)"

datatype wake = WakeHalt | LambdaPFired | LambdaLFired | LambdaDFired | WakeOp workerOp

text \<open>An operation from \<open>opCh\<close>: the session, the worker's variables; all timers must be reset then.\<close>

definition worker_op :: "kconst \<Rightarrow> int \<Rightarrow> int \<Rightarrow> workerOp \<Rightarrow> Session \<times> worker \<Rightarrow> Session \<times> worker" where
  "worker_op K now skew op sw =
    (case sw of (s, w) \<Rightarrow>
      case op of
        opConnStatusChanged isConnected \<Rightarrow>
          (case connStatusChange K now skew isConnected s of
             (s', _, newStatus) \<Rightarrow> (s', w\<lparr>wk_isConnected := newStatus\<rparr>))
      | opNewDocument d \<Rightarrow>
          ((case isDocValid K d of Some err \<Rightarrow> fatal err s | None \<Rightarrow> s),
           w\<lparr>wk_doc := d, wk_lambdaP := LambdaP d, wk_lambdaL := LambdaL d, wk_lambdaD := LambdaD d\<rparr>))"

text \<open>A timer fired: what is sent, if anything.\<close>

definition worker_fire :: "kconst \<Rightarrow> bool \<Rightarrow> senv \<Rightarrow> wake \<Rightarrow> worker \<Rightarrow> Session \<Rightarrow> Session outcome" where
  "worker_fire K disableDecoys env ev w s =
    (if wk_isConnected w then
       (if ev = LambdaPFired then sendFromQueueOrDecoy K disableDecoys env s
        else if ev = LambdaLFired \<and> \<not> disableDecoys then sendLoopDecoy K env s
        else if ev = LambdaDFired \<and> \<not> disableDecoys then sendDropDecoy K env s
        else Ok s)
     else Ok s)"

definition reset_timers ::
  "'r rng_ops \<Rightarrow> 'r \<Rightarrow> wake \<Rightarrow> worker \<Rightarrow> 'r \<times> worker" where
  "reset_timers g r ev w =
    (let (r', p, l, d) =
           (if wk_isConnected w then draw_intervals g r w else (r, maxDuration, maxDuration, maxDuration));
         mustResetAllTimers = (case ev of WakeOp _ \<Rightarrow> True | _ \<Rightarrow> False)
     in (r', if mustResetAllTimers then w\<lparr>wk_timerP := p, wk_timerL := l, wk_timerD := d\<rparr>
             else w\<lparr>wk_timerP := (if ev = LambdaPFired then p else wk_timerP w),
                    wk_timerL := (if ev = LambdaLFired then l else wk_timerL w),
                    wk_timerD := (if ev = LambdaDFired then d else wk_timerD w)\<rparr>))"

text \<open>One iteration of the loop; \<open>None\<close> when the worker returns.\<close>

definition worker_iteration ::
  "kconst \<Rightarrow> bool \<Rightarrow> 'r rng_ops \<Rightarrow> senv \<Rightarrow> int \<Rightarrow> wake \<Rightarrow> 'r \<times> Session \<times> worker \<Rightarrow>
   ('r \<times> Session \<times> worker) option outcome" where
  "worker_iteration K disableDecoys g env skew ev rsw =
    (case rsw of (r, s, w) \<Rightarrow>
      if ev = WakeHalt then Ok None
      else
        obind (case ev of
                 WakeOp op \<Rightarrow> Ok (worker_op K (e_now env) skew op (s, w))
               | _ \<Rightarrow> obind (worker_fire K disableDecoys env ev w s) (\<lambda>s'. Ok (s', w)))
          (\<lambda>(s1, w1). case reset_timers g r ev w1 of (r', w2) \<Rightarrow> Ok (Some (r', s1, w2))))"

section \<open>Lemmas\<close>

lemma fold_isDocValid:
  "isDocValid K d = None \<longleftrightarrow> (\<forall>p \<in> set (Providers d). LoopService K \<in> set (Kaetzchen p))"
  by (auto simp: isDocValid_def)

lemma draw_interval_bound:
  assumes "draw_interval g r rate maxDelay = (r', t)" and "uint maxDelay * Millisecond < 2 ^ 63"
  shows "0 \<le> t \<and> t \<le> uint maxDelay * Millisecond"
proof -
  obtain r1 msec where x: "ExpU64 g r rate = (r1, msec)" by fastforce
  define ms where "ms = (if msec > maxDelay then maxDelay else msec)"
  have le: "uint ms \<le> uint maxDelay" by (auto simp: ms_def word_less_def)
  have lt: "uint maxDelay < 2 ^ 63" using assms(2) by (simp add: Millisecond_def)
  have "i64_of_u64 ms = uint ms" using le lt by (intro i64_of_u64_small) simp
  moreover have "uint ms * Millisecond \<le> uint maxDelay * Millisecond" using le by (simp add: Millisecond_def)
  moreover have "0 \<le> uint ms * Millisecond" by (simp add: Millisecond_def)
  ultimately have "to_i64 (i64_of_u64 ms * Millisecond) = uint ms * Millisecond"
    using assms(2) by (intro trans [OF to_i64_id]) (simp_all add: is_i64_def)
  with assms(1) x \<open>uint ms * Millisecond \<le> _\<close> \<open>0 \<le> _\<close> show ?thesis
    by (simp add: draw_interval_def ms_def Let_def)
qed

text \<open>What a sent message must be.\<close>

lemma sends_sendDropDecoy:
  assumes "sendDropDecoy K env s = Ok s'"
  shows "sends (s_out s') = sends (s_out s) \<or> (\<exists>m. sends (s_out s') = sends (s_out s) @ [m] \<and> m_IsDecoy m \<and> \<not> m_WithSURB m)"
proof -
  obtain r where "GetService env (LoopService K) = Ok r"
    using assms by (cases "GetService env (LoopService K)") (auto simp: sendDropDecoy_def)
  with assms show ?thesis
    by (auto simp: sendDropDecoy_def session_upd decoy_message_def blank_Message_def split: sum.splits)
qed

lemma sends_sendLoopDecoy:
  assumes "sendLoopDecoy K env s = Ok s'"
  shows "sends (s_out s') = sends (s_out s) \<or> (\<exists>m. sends (s_out s') = sends (s_out s) @ [m] \<and> m_IsDecoy m \<and> m_WithSURB m)"
proof -
  obtain r where "GetService env (LoopService K) = Ok r"
    using assms by (cases "GetService env (LoopService K)") (auto simp: sendLoopDecoy_def)
  with assms show ?thesis
    by (auto simp: sendLoopDecoy_def session_upd decoy_message_def blank_Message_def split: sum.splits)
qed

text \<open>What one iteration may send.\<close>

definition new_sends :: "kconst \<Rightarrow> bool \<Rightarrow> wake \<Rightarrow> worker \<Rightarrow> Session \<Rightarrow> Message list \<Rightarrow> bool" where
  "new_sends K disableDecoys ev w s ms \<longleftrightarrow>
     (let q = q_list (MaxEgressQueueSize K) (s_egressQueue s) in
      ms = [] \<or>
      (wk_isConnected w \<and> ev = LambdaPFired \<and> q \<noteq> [] \<and> ms = [hd q]) \<or>
      (wk_isConnected w \<and> \<not> disableDecoys \<and>
        (ev = LambdaPFired \<and> q = [] \<or> ev = LambdaDFired) \<and>
        (\<exists>m. ms = [m] \<and> m_IsDecoy m \<and> \<not> m_WithSURB m)) \<or>
      (wk_isConnected w \<and> \<not> disableDecoys \<and> ev = LambdaLFired \<and>
        (\<exists>m. ms = [m] \<and> m_IsDecoy m \<and> m_WithSURB m)))"

lemma worker_op_quiet:
  assumes "worker_op K now skew op (s, w) = (s', w')"
  shows "s_out s' = s_out s \<and> s_egressQueue s' = s_egressQueue s"
  using assms
  by (auto simp: worker_op_def connStatusChange_def Let_def fatal_def
      split: workerOp.splits option.splits if_splits)

lemma sendFromQueueOrDecoy_sends:
  assumes "q_inv (MaxEgressQueueSize K) (s_egressQueue s)" and "wk_isConnected w"
    and "sendFromQueueOrDecoy K dis env s = Ok s'"
  shows "\<exists>ms. sends (s_out s') = sends (s_out s) @ ms \<and> new_sends K dis LambdaPFired w s ms \<and>
    (q_list (MaxEgressQueueSize K) (s_egressQueue s) \<noteq> [] \<and> e_surbID env \<in> range Inr \<longrightarrow> ms \<noteq> [])"
proof (cases "q_list (MaxEgressQueueSize K) (s_egressQueue s)")
  case Nil
  have pk: "Queue_Peek (s_egressQueue s) = Ok (Inl ErrQueueEmpty)" using ring.peek_empty [OF assms(1) Nil] .
  show ?thesis
  proof (cases dis)
    case True
    with pk assms(3) have "s' = s" by (simp add: sendFromQueueOrDecoy_def)
    with Nil show ?thesis by (intro exI [of _ "[]"]) (simp add: new_sends_def)
  next
    case False
    with pk assms(3) have "sendDropDecoy K env s = Ok s'" by (simp add: sendFromQueueOrDecoy_def)
    from sends_sendDropDecoy [OF this] False Nil assms(2) show ?thesis
      by (auto simp: new_sends_def Let_def)
  qed
next
  case (Cons m ms)
  have "sendNext K env s = Ok s'"
    using assms(3) ring.peek_item [OF assms(1) Cons] by (simp add: sendFromQueueOrDecoy_def)
  with sendNext_head [OF assms(1) Cons, of env] obtain q where "s' = (doSend env m s)\<lparr>s_egressQueue := q\<rparr>"
    by auto
  with Cons assms(2) show ?thesis
    by (cases "e_surbID env") (auto simp: new_sends_def)
qed

lemma worker_fire_sends:
  assumes "q_inv (MaxEgressQueueSize K) (s_egressQueue s)" and "worker_fire K dis env ev w s = Ok s'"
  shows "\<exists>ms. sends (s_out s') = sends (s_out s) @ ms \<and> new_sends K dis ev w s ms \<and>
    (wk_isConnected w \<and> ev = LambdaPFired \<and> q_list (MaxEgressQueueSize K) (s_egressQueue s) \<noteq> [] \<and>
     e_surbID env \<in> range Inr \<longrightarrow> ms \<noteq> [])"
proof -
  consider (quiet) "s' = s" "\<not> (wk_isConnected w \<and> ev = LambdaPFired)"
    | (queue) "wk_isConnected w" "ev = LambdaPFired" "sendFromQueueOrDecoy K dis env s = Ok s'"
    | (loop) "wk_isConnected w" "ev = LambdaLFired" "\<not> dis" "sendLoopDecoy K env s = Ok s'"
    | (drop) "wk_isConnected w" "ev = LambdaDFired" "\<not> dis" "sendDropDecoy K env s = Ok s'"
    using assms(2) by (auto simp: worker_fire_def split: if_splits)
  then show ?thesis
  proof cases
    case quiet
    then show ?thesis by (intro exI [of _ "[]"]) (auto simp: new_sends_def Let_def)
  next
    case queue
    from sendFromQueueOrDecoy_sends [OF assms(1) queue(1,3)] queue show ?thesis by auto
  next
    case loop
    from sends_sendLoopDecoy [OF loop(4)] loop show ?thesis by (auto simp: new_sends_def Let_def)
  next
    case drop
    from sends_sendDropDecoy [OF drop(4)] drop show ?thesis by (auto simp: new_sends_def Let_def)
  qed
qed

text \<open>The delays of a document fit a duration; while connected, every timer is within its bound.\<close>

definition delays_ok :: "Document \<Rightarrow> bool" where
  "delays_ok d \<longleftrightarrow> uint (LambdaPMaxDelay d) * Millisecond < 2 ^ 63 \<and>
     uint (LambdaLMaxDelay d) * Millisecond < 2 ^ 63 \<and> uint (LambdaDMaxDelay d) * Millisecond < 2 ^ 63"

definition timers_ok :: "worker \<Rightarrow> bool" where
  "timers_ok w \<longleftrightarrow>
     0 \<le> wk_timerP w \<and> wk_timerP w \<le> uint (LambdaPMaxDelay (wk_doc w)) * Millisecond \<and>
     0 \<le> wk_timerL w \<and> wk_timerL w \<le> uint (LambdaLMaxDelay (wk_doc w)) * Millisecond \<and>
     0 \<le> wk_timerD w \<and> wk_timerD w \<le> uint (LambdaDMaxDelay (wk_doc w)) * Millisecond"

lemma draw_intervals_bound:
  assumes "draw_intervals g r w = (r', p, l, d)" and "delays_ok (wk_doc w)"
  shows "timers_ok (w\<lparr>wk_timerP := p, wk_timerL := l, wk_timerD := d\<rparr>)"
proof -
  obtain r1 p' where 1: "draw_interval g r (wk_lambdaP w) (LambdaPMaxDelay (wk_doc w)) = (r1, p')" by fastforce
  obtain r2 l' where 2: "draw_interval g r1 (wk_lambdaL w) (LambdaLMaxDelay (wk_doc w)) = (r2, l')" by fastforce
  obtain r3 d' where 3: "draw_interval g r2 (wk_lambdaD w) (LambdaDMaxDelay (wk_doc w)) = (r3, d')" by fastforce
  have "p = p'" "l = l'" "d = d'" using assms(1) 1 2 3 by (simp_all add: draw_intervals_def)
  with draw_interval_bound [OF 1] draw_interval_bound [OF 2] draw_interval_bound [OF 3] assms(2)
  show ?thesis by (simp add: timers_ok_def delays_ok_def)
qed

lemma reset_timers_ok:
  assumes "reset_timers g r ev w = (r', w')" and "delays_ok (wk_doc w)" and "wk_isConnected w"
    and "(\<exists>op. ev = WakeOp op) \<or> timers_ok w"
  shows "timers_ok w'"
proof -
  obtain r1 p l d where dr: "draw_intervals g r w = (r1, p, l, d)" by (metis prod_cases4)
  from draw_intervals_bound [OF dr assms(2)] assms(1,3,4) dr show ?thesis
    by (cases ev) (auto simp: reset_timers_def timers_ok_def)
qed

lemma reset_timers_frame:
  "reset_timers g r ev w = (r', w') \<Longrightarrow> wk_doc w' = wk_doc w \<and> wk_isConnected w' = wk_isConnected w"
  by (auto simp: reset_timers_def Let_def split: prod.splits if_splits)

lemma worker_op_doc:
  "worker_op K now skew op (s, w) = (s', w1) \<Longrightarrow>
   wk_doc w1 = (case op of opNewDocument d \<Rightarrow> d | opConnStatusChanged _ \<Rightarrow> wk_doc w)"
  by (cases op) (auto simp: worker_op_def connStatusChange_def Let_def split: if_splits)

lemma worker_iteration_step:
  assumes "worker_iteration K dis g env skew ev (r, s, w) = Ok (Some (r', s', w'))"
  shows "\<exists>w1. reset_timers g r ev w1 = (r', w') \<and>
    ((\<exists>op. ev = WakeOp op \<and> worker_op K (e_now env) skew op (s, w) = (s', w1)) \<or>
     ((\<nexists>op. ev = WakeOp op) \<and> w1 = w \<and> worker_fire K dis env ev w s = Ok s'))"
proof (cases "\<exists>op. ev = WakeOp op")
  case True
  then obtain op where op: "ev = WakeOp op" by blast
  obtain s1 w1 where o: "worker_op K (e_now env) skew op (s, w) = (s1, w1)" by fastforce
  obtain r2 w2 where t: "reset_timers g r ev w1 = (r2, w2)" by fastforce
  from assms op o t show ?thesis by (simp add: worker_iteration_def)
next
  case False
  have h: "ev \<noteq> WakeHalt" using assms by (auto simp: worker_iteration_def)
  have "worker_iteration K dis g env skew ev (r, s, w) =
      obind (worker_fire K dis env ev w s) (\<lambda>s1. case reset_timers g r ev w of (r2, w2) \<Rightarrow> Ok (Some (r2, s1, w2)))"
    using False h by (cases ev; cases "worker_fire K dis env ev w s") (auto simp: worker_iteration_def)
  moreover obtain r2 w2 where t: "reset_timers g r ev w = (r2, w2)" by fastforce
  ultimately show ?thesis
    using assms False by (cases "worker_fire K dis env ev w s") auto
qed

section \<open>Properties\<close>

text \<open>
  C19. An iteration of the session worker sends at most one message, and only while connected: at a tick
  of the P timer the head of the egress queue if there is one, otherwise a drop decoy; at the
  L timer a loop decoy, at the D timer a drop decoy.  With decoy traffic disabled nothing but
  queued messages is sent, and a queued message is indeed sent at the P timer's tick.
\<close>

theorem worker_sends:
  assumes "q_inv (MaxEgressQueueSize K) (s_egressQueue s)"
    and "worker_iteration K dis g env skew ev (r, s, w) = Ok (Some (r', s', w'))"
  shows "\<exists>ms. sends (s_out s') = sends (s_out s) @ ms \<and> new_sends K dis ev w s ms \<and>
    (wk_isConnected w \<and> ev = LambdaPFired \<and> q_list (MaxEgressQueueSize K) (s_egressQueue s) \<noteq> [] \<and>
     e_surbID env \<in> range Inr \<longrightarrow> ms = [hd (q_list (MaxEgressQueueSize K) (s_egressQueue s))])"
proof -
  consider op w1 where "ev = WakeOp op" "worker_op K (e_now env) skew op (s, w) = (s', w1)"
    | "worker_fire K dis env ev w s = Ok s'"
    using worker_iteration_step [OF assms(2)] by blast
  then show ?thesis
  proof cases
    case 1
    with worker_op_quiet [OF 1(2)] show ?thesis
      by (intro exI [of _ "[]"]) (auto simp: new_sends_def)
  next
    case 2
    from worker_fire_sends [OF assms(1) 2] show ?thesis by (auto simp: new_sends_def Let_def)
  qed
qed

lemma example_worker: "\<exists>q. Queue_Push 3 (new_Queue 3) blank_Message = Ok (q, None) \<and> q_inv 3 q \<and>
    q_list 3 q = [blank_Message] \<and>
    (\<exists>s' w'. worker_iteration example_const True (const_rng 7) example_senv 0 LambdaPFired
      ((), (new_Session example_const)\<lparr>s_egressQueue := q\<rparr>,
       \<lparr>wk_doc = doc4, wk_lambdaP = 0, wk_lambdaL = 0, wk_lambdaD = 0, wk_isConnected = True,
        wk_timerP = 0, wk_timerL = 0, wk_timerD = 0\<rparr>) = Ok (Some ((), s', w')))"
proof -
  have N: "MaxEgressQueueSize example_const = 3" by (simp add: example_const_def)
  obtain q where q: "Queue_Push 3 (new_Queue 3) blank_Message = Ok (q, None)"
      "q_inv 3 q" "q_list 3 q = [blank_Message]"
    using example_push [of blank_Message] by (elim exE conjE) (rule that)
  let ?s = "(new_Session example_const)\<lparr>s_egressQueue := q\<rparr>"
  have i: "q_inv (MaxEgressQueueSize example_const) (s_egressQueue ?s)"
      "q_list (MaxEgressQueueSize example_const) (s_egressQueue ?s) = [blank_Message]"
    using q(2,3) N by simp_all
  from sendNext_head [OF i, of example_senv] obtain s1 where sn: "sendNext example_const example_senv ?s = Ok s1"
    by blast
  have "Queue_Peek q = Ok (Inr (Some blank_Message))" using ring.peek_item [OF q(2), of blank_Message "[]"] q(3) by simp
  with sn have "worker_fire example_const True example_senv LambdaPFired
     \<lparr>wk_doc = doc4, wk_lambdaP = 0, wk_lambdaL = 0, wk_lambdaD = 0, wk_isConnected = True,
        wk_timerP = 0, wk_timerL = 0, wk_timerD = 0\<rparr> ?s = Ok s1"
    by (simp add: worker_fire_def sendFromQueueOrDecoy_def)
  with q show ?thesis by (intro exI [of _ q]) (simp add: worker_iteration_def split: prod.splits)
qed

theorem worker_sends_witness:
  "\<exists>q s' w'. worker_iteration example_const True (const_rng 7) example_senv 0 LambdaPFired
      ((), (new_Session example_const)\<lparr>s_egressQueue := q\<rparr>,
       \<lparr>wk_doc = doc4, wk_lambdaP = 0, wk_lambdaL = 0, wk_lambdaD = 0, wk_isConnected = True,
        wk_timerP = 0, wk_timerL = 0, wk_timerD = 0\<rparr>) = Ok (Some ((), s', w')) \<and>
     sends (s_out s') = [blank_Message]"
proof -
  have N: "MaxEgressQueueSize example_const = 3" by (simp add: example_const_def)
  obtain q s' w' where q: "q_inv 3 q" "q_list 3 q = [blank_Message]" and
    it: "worker_iteration example_const True (const_rng 7) example_senv 0 LambdaPFired
      ((), (new_Session example_const)\<lparr>s_egressQueue := q\<rparr>,
       \<lparr>wk_doc = doc4, wk_lambdaP = 0, wk_lambdaL = 0, wk_lambdaD = 0, wk_isConnected = True,
        wk_timerP = 0, wk_timerL = 0, wk_timerD = 0\<rparr>) = Ok (Some ((), s', w'))"
    using example_worker by (elim exE conjE) (rule that)
  have i: "q_inv (MaxEgressQueueSize example_const)
      (s_egressQueue ((new_Session example_const)\<lparr>s_egressQueue := q\<rparr>))" using q N by simp
  have "e_surbID example_senv \<in> range Inr" by (simp add: example_senv_def)
  with worker_sends [OF i it] q N it show ?thesis by (auto simp: new_Session_def)
qed

text \<open>
  C20. Pacing: while the worker is connected, each of its three timers is set to at most the maximal
  delay of its own document (as long as these fit a duration), and this is kept by every
  iteration, whatever arrives; on the loss of the connection all three are set to the longest
  duration.
\<close>

theorem worker_pacing:
  assumes "worker_iteration K dis g env skew ev (r, s, w) = Ok (Some (r', s', w'))"
    and "delays_ok (wk_doc w)" and "wk_isConnected w \<longrightarrow> timers_ok w"
    and "\<forall>d. ev = WakeOp (opNewDocument d) \<longrightarrow> delays_ok d"
  shows "delays_ok (wk_doc w') \<and> (wk_isConnected w' \<longrightarrow> timers_ok w') \<and>
    (ev = WakeOp (opConnStatusChanged False) \<longrightarrow>
      wk_timerP w' = maxDuration \<and> wk_timerL w' = maxDuration \<and> wk_timerD w' = maxDuration)"
proof -
  obtain w1 where w1: "reset_timers g r ev w1 = (r', w')"
      "(\<exists>op. ev = WakeOp op \<and> worker_op K (e_now env) skew op (s, w) = (s', w1)) \<or> (\<nexists>op. ev = WakeOp op) \<and> w1 = w"
    using worker_iteration_step [OF assms(1)] by blast
  have d1: "delays_ok (wk_doc w1)"
    using w1(2) assms(2,4) by (auto dest!: worker_op_doc split: workerOp.splits)
  have "(\<exists>op. ev = WakeOp op) \<or> (wk_isConnected w1 \<longrightarrow> timers_ok w1)" using w1(2) assms(3) by auto
  with reset_timers_ok [OF w1(1) d1] reset_timers_frame [OF w1(1)]
  have "wk_isConnected w' \<longrightarrow> timers_ok w'" by auto
  moreover have "wk_timerP w' = maxDuration \<and> wk_timerL w' = maxDuration \<and> wk_timerD w' = maxDuration"
    if "ev = WakeOp (opConnStatusChanged False)"
    using w1 that by (auto simp: worker_op_def connStatusChange_def reset_timers_def)
  ultimately show ?thesis using d1 reset_timers_frame [OF w1(1)] by simp
qed

theorem worker_pacing_witness:
  "\<exists>r' s' w'. worker_iteration example_const False (const_rng 7) example_senv 0
      (WakeOp (opConnStatusChanged True)) ((), new_Session example_const,
       \<lparr>wk_doc = doc4\<lparr>LambdaPMaxDelay := 5\<rparr>, wk_lambdaP = 0, wk_lambdaL = 0, wk_lambdaD = 0, wk_isConnected = False,
        wk_timerP = 0, wk_timerL = 0, wk_timerD = 0\<rparr>) = Ok (Some (r', s', w')) \<and> timers_ok w'"
proof -
  let ?w = "\<lparr>wk_doc = doc4\<lparr>LambdaPMaxDelay := 5\<rparr>, wk_lambdaP = 0, wk_lambdaL = 0, wk_lambdaD = 0,
     wk_isConnected = False, wk_timerP = 0, wk_timerL = 0, wk_timerD = 0\<rparr>"
  obtain r' s' w' where it: "worker_iteration example_const False (const_rng 7) example_senv 0
      (WakeOp (opConnStatusChanged True)) ((), new_Session example_const, ?w) = Ok (Some (r', s', w'))"
      "wk_isConnected w'"
    by (simp add: worker_iteration_def worker_op_def connStatusChange_def reset_timers_def draw_intervals_def
        draw_interval_def const_rng_def Let_def)
  from worker_pacing [OF it(1)] it show ?thesis
    by (auto simp: delays_ok_def doc4_def empty_doc_def Millisecond_def)
qed

end
