(* ===== verification/Meson_System.thy ===== *)
theory Meson_System
  imports Meson_Worker "HOL-Library.Multiset"
begin

text \<open>
  The goroutines of a session together: user goroutines that send, goroutines that wait inside
  \<open>BlockingSendUnreliableMessage\<close>, the session worker, the callbacks of the minimal client, the
  garbage collector and the event sink.  A state (record \<open>system\<close>) is the session, the worker's
  variables (\<open>None\<close> once it has returned), its random source, and for every message identifier the
  goroutine that waits for it; the steps (\<open>sys_step\<close>) are the operations of \<open>Meson_Session\<close> and
  \<open>Meson_Worker\<close> in any order.  Message identifiers are drawn at random from a space so large that
  they do not repeat: \<open>y_used\<close> holds the ones drawn so far, and a new one is not among them.

  The worker's hand-over to a goroutine that waits for its message to be sent is the action in
  \<open>s_out\<close> and the step of the receiver that takes it: the receiver does nothing else, so the worker
  does not wait for long.  Every acknowledgement is handled by a goroutine of the connection that runs
  \<open>onACK\<close>, whose three accesses to the session are steps of their own: \<open>y_onACK\<close> holds where such
  goroutines are, and \<open>y_acks\<close> the replies they are sending, each to a receiver that may have given
  up, in which case they stay blocked.  A step of the collector covers any keys of the map, also
  a single one.  What other goroutines push between the two queue accesses of \<open>sendNext\<close> is covered by
  \<open>sendNext_sends_head\<close>; here such a push is a step before or after.
\<close>

section \<open>Definitions\<close>

text \<open>A goroutine in \<open>onACK\<close>: the message has been looked up, or deleted as well.\<close>

datatype ack_place = AckLoaded bytes bytes Message | AckDeleted bytes Message

record 'r system =
  y_session :: Session
  y_worker :: "worker option"
  y_rng :: 'r
  y_callers :: "bytes \<Rightarrow> blocking option"
  y_used :: "bytes set"
  y_onACK :: "ack_place multiset"
  y_acks :: "(bytes \<times> bytes) multiset"

text \<open>
  The session when \<open>NewSession\<close> starts the worker: the callbacks may have queued operations and
  events before.
\<close>

definition sys_init ::
  "kconst \<Rightarrow> 'r rng_ops \<Rightarrow> 'r \<Rightarrow> Document option \<Rightarrow> workerOp list \<Rightarrow> Event list \<Rightarrow> bool \<Rightarrow> 'r system" where
  "sys_init K g r doc ops evs hasDoc =
    (case worker_begin g r doc
            ((new_Session K)\<lparr>s_opCh := ops, s_eventCh := evs, s_hasPKIDoc := hasDoc\<rparr>) of
       (s, rw) \<Rightarrow> \<lparr>y_session = s, y_worker = map_option snd rw, y_rng = (case rw of Some (r', _) \<Rightarrow> r' | None \<Rightarrow> r),
                   y_callers = (\<lambda>_. None), y_used = {}, y_onACK = {#}, y_acks = {#}\<rparr>)"

text \<open>The place where a blocking call goes on, \<open>None\<close> when it returns.\<close>

definition caller_next :: "blocking \<Rightarrow> blocking option" where
  "caller_next b = (case b of BlockReturn _ \<Rightarrow> None | _ \<Rightarrow> Some b)"

text \<open>The capacity of \<open>opCh\<close>: a callback blocks while it is full.\<close>

definition opChSize :: nat where "opChSize = 8"

text \<open>
  The goroutines that neither run the worker nor put operations into \<open>opCh\<close>: the users of the session,
  the callback for replies, the collector and the event sink.
\<close>

inductive user_step ::
  "kconst \<Rightarrow> (bytes \<Rightarrow> bytes \<Rightarrow> bytes result) \<Rightarrow> 'r system \<Rightarrow> 'r system \<Rightarrow> bool"
  for K decrypt where
  send: "e_msgID env = Inr ident \<Longrightarrow> ident \<notin> y_used y \<Longrightarrow>
    SendUnreliableMessage K env rcpt prv message (y_session y) = Ok (s', res) \<Longrightarrow>
    user_step K decrypt y (y\<lparr>y_session := s', y_used := insert ident (y_used y)\<rparr>)"
| block: "e_msgID env = Inr ident \<Longrightarrow> ident \<notin> y_used y \<Longrightarrow>
    BlockingSend_begin K env rcpt prv message (y_session y) = Ok (s', b) \<Longrightarrow>
    user_step K decrypt y (y\<lparr>y_session := s', y_used := insert ident (y_used y),
      y_callers := (y_callers y)(ident := caller_next b)\<rparr>)"
| sent: "y_callers y ident = Some (AwaitSent ident) \<Longrightarrow> SentWait ident m \<in> set (s_out (y_session y)) \<Longrightarrow>
    BlockingSend_sent K ident (Some m) (y_session y) = (s', b) \<Longrightarrow>
    user_step K decrypt y (y\<lparr>y_session := s', y_callers := (y_callers y)(ident := caller_next b)\<rparr>)"
| not_sent: "y_callers y ident = Some (AwaitSent ident) \<Longrightarrow> SentWaitClosed ident \<in> set (s_out (y_session y)) \<Longrightarrow>
    BlockingSend_sent K ident None (y_session y) = (s', b) \<Longrightarrow>
    user_step K decrypt y (y\<lparr>y_session := s', y_callers := (y_callers y)(ident := caller_next b)\<rparr>)"
| reply: "y_callers y ident = Some (AwaitReply ident t) \<Longrightarrow> (ident, p) \<in># y_acks y \<Longrightarrow>
    BlockingSend_reply ident (Some p) (y_session y) = (s', b) \<Longrightarrow>
    user_step K decrypt y
      (y\<lparr>y_session := s', y_callers := (y_callers y)(ident := caller_next b), y_acks := y_acks y - {#(ident, p)#}\<rparr>)"
| timeout: "y_callers y ident = Some (AwaitReply ident t) \<Longrightarrow>
    BlockingSend_reply ident None (y_session y) = (s', b) \<Longrightarrow>
    user_step K decrypt y (y\<lparr>y_session := s', y_callers := (y_callers y)(ident := caller_next b)\<rparr>)"
| ack_load: "onACK_load sid (y_session y) = Some msg \<Longrightarrow>
    user_step K decrypt y (y\<lparr>y_onACK := add_mset (AckLoaded sid ciphertext msg) (y_onACK y)\<rparr>)"
| ack_delete: "AckLoaded sid ciphertext msg \<in># y_onACK y \<Longrightarrow>
    user_step K decrypt y (y\<lparr>y_session := onACK_delete sid (y_session y),
      y_onACK := add_mset (AckDeleted ciphertext msg) (y_onACK y - {#AckLoaded sid ciphertext msg#})\<rparr>)"
| ack_deliver: "AckDeleted ciphertext msg \<in># y_onACK y \<Longrightarrow>
    onACK_deliver K decrypt ciphertext msg (y_session y) = Ok (s', reply) \<Longrightarrow>
    user_step K decrypt y (y\<lparr>y_session := s', y_onACK := y_onACK y - {#AckDeleted ciphertext msg#},
      y_acks := y_acks y + (case reply of None \<Rightarrow> {#} | Some r \<Rightarrow> {#r#})\<rparr>)"
| collect: "user_step K decrypt y (y\<lparr>y_session := garbageCollect K now keys (y_session y)\<rparr>)"
| sink: "eventSinkWorker ws (y_session y) = (s', out) \<Longrightarrow>
    user_step K decrypt y (y\<lparr>y_session := s'\<rparr>)"

text \<open>All goroutines: those, the worker, and the callbacks that announce connections and documents.\<close>

inductive sys_step ::
  "kconst \<Rightarrow> bool \<Rightarrow> 'r rng_ops \<Rightarrow> (bytes \<Rightarrow> bytes \<Rightarrow> bytes result) \<Rightarrow> 'r system \<Rightarrow> 'r system \<Rightarrow> bool"
  for K dis g decrypt where
  user: "user_step K decrypt y y' \<Longrightarrow> sys_step K dis g decrypt y y'"
| operation: "y_worker y = Some w \<Longrightarrow> s_opCh (y_session y) = op # ops \<Longrightarrow>
    worker_iteration K dis g env skew (WakeOp op) (y_rng y, (y_session y)\<lparr>s_opCh := ops\<rparr>, w) = Ok (Some (r', s', w')) \<Longrightarrow>
    sys_step K dis g decrypt y (y\<lparr>y_session := s', y_worker := Some w', y_rng := r'\<rparr>)"
| fire: "y_worker y = Some w \<Longrightarrow> ev \<in> {LambdaPFired, LambdaLFired, LambdaDFired} \<Longrightarrow> e_pushes env = [] \<Longrightarrow>
    worker_iteration K dis g env skew ev (y_rng y, y_session y, w) = Ok (Some (r', s', w')) \<Longrightarrow>
    sys_step K dis g decrypt y (y\<lparr>y_session := s', y_worker := Some w', y_rng := r'\<rparr>)"
| worker_halt: "y_worker y = Some w \<Longrightarrow>
    worker_iteration K dis g env skew WakeHalt (y_rng y, y_session y, w) = Ok None \<Longrightarrow>
    sys_step K dis g decrypt y (y\<lparr>y_worker := None\<rparr>)"
| connection: "length (s_opCh (y_session y)) < opChSize \<Longrightarrow>
    sys_step K dis g decrypt y (y\<lparr>y_session := onConnection err (y_session y)\<rparr>)"
| document: "length (s_opCh (y_session y)) < opChSize \<Longrightarrow>
    sys_step K dis g decrypt y (y\<lparr>y_session := onDocument d (y_session y)\<rparr>)"

text \<open>The events that the callbacks report before the worker starts.\<close>

definition early_event :: "Event \<Rightarrow> bool" where
  "early_event e = (case e of ConnectionStatusEvent _ _ \<Rightarrow> True | NewDocumentEvent _ \<Rightarrow> True | _ \<Rightarrow> False)"

inductive sys_reachable ::
  "kconst \<Rightarrow> bool \<Rightarrow> 'r rng_ops \<Rightarrow> (bytes \<Rightarrow> bytes \<Rightarrow> bytes result) \<Rightarrow> 'r system \<Rightarrow> bool"
  for K dis g decrypt where
  init: "\<forall>e \<in> set evs. early_event e \<Longrightarrow> sys_reachable K dis g decrypt (sys_init K g r doc ops evs hasDoc)"
| step: "sys_reachable K dis g decrypt y \<Longrightarrow> sys_step K dis g decrypt y y' \<Longrightarrow> sys_reachable K dis g decrypt y'"

section \<open>The invariant\<close>

text \<open>The errors that the code calls impossible, the failure of the random source apart.\<close>

definition impossible_error :: "go_error \<Rightarrow> bool" where
  "impossible_error e \<longleftrightarrow>
     e = Errorf ''impossible failure to Peek from queue'' [] \<or>
     e = Errorf ''impossible failure, got nil message from queue'' [] \<or>
     e = Errorf ''impossible failure to Pop from queue'' [] \<or>
     (\<exists>i. e = Errorf ''impossible failure, sentWaitChan not found for message ID %x'' [ArgB i])"

definition surb_failure :: "bytes \<Rightarrow> go_error" where
  "surb_failure ident = Errorf ''impossible failure, failed to generate SURB ID for message ID %x'' [ArgB ident]"

text \<open>The goroutine that waits for the sending of this message has its answer.\<close>

definition answered :: "session_action list \<Rightarrow> bytes \<Rightarrow> bool" where
  "answered acts ident \<longleftrightarrow> (\<exists>a \<in> set acts. a = SentWaitClosed ident \<or> (\<exists>m. a = SentWait ident m))"

definition queued :: "kconst \<Rightarrow> Session \<Rightarrow> Message list" where
  "queued K s = q_list (MaxEgressQueueSize K) (s_egressQueue s)"

definition queue_ok :: "bytes set \<Rightarrow> (bytes \<Rightarrow> blocking option) \<Rightarrow> session_action list \<Rightarrow> Message list \<Rightarrow> bool" where
  "queue_ok used callers acts q \<longleftrightarrow> distinct (map m_ID q) \<and>
     (\<forall>m \<in> set q. m_WithSURB m \<and> \<not> m_IsDecoy m \<and> m_ID m \<in> used \<and> \<not> answered acts (m_ID m) \<and>
        (m_IsBlocking m \<longrightarrow> callers (m_ID m) = Some (AwaitSent (m_ID m))))"

definition callers_ok :: "bytes set \<Rightarrow> (bytes \<Rightarrow> blocking option) \<Rightarrow> Message list \<Rightarrow> Session \<Rightarrow> bool" where
  "callers_ok used callers q s \<longleftrightarrow>
     (\<forall>i b. callers i = Some b \<longrightarrow> i \<in> used \<and> s_sentWaitChanMap s i \<noteq> None \<and> s_replyWaitChanMap s i \<noteq> None \<and>
        (b = AwaitSent i \<longrightarrow> (\<exists>m \<in> set q. m_IsBlocking m \<and> m_ID m = i) \<or> answered (s_out s) i \<or>
           surb_failure i \<in> set (s_fatalErrCh s)))"

definition session_inv :: "kconst \<Rightarrow> bytes set \<Rightarrow> (bytes \<Rightarrow> blocking option) \<Rightarrow> Session \<Rightarrow> bool" where
  "session_inv K used callers s \<longleftrightarrow> q_inv (MaxEgressQueueSize K) (s_egressQueue s) \<and>
     queue_ok used callers (s_out s) (queued K s) \<and> callers_ok used callers (queued K s) s \<and>
     (\<forall>i. answered (s_out s) i \<longrightarrow> i \<in> used) \<and> (\<forall>e \<in> set (s_fatalErrCh s). \<not> impossible_error e)"

lemmas session_inv_defs = session_inv_def queue_ok_def callers_ok_def queued_def

section \<open>Lemmas\<close>

lemma answered_append [simp]: "answered (as @ bs) i \<longleftrightarrow> answered as i \<or> answered bs i"
  by (auto simp: answered_def)

lemma answered_simps [simp]:
  "\<not> answered [] i"
  "answered (MinSend m e # as) i \<longleftrightarrow> answered as i"
  "answered (ReplyWait j p # as) i \<longleftrightarrow> answered as i"
  "answered (SentWait j m # as) i \<longleftrightarrow> i = j \<or> answered as i"
  "answered (SentWaitClosed j # as) i \<longleftrightarrow> i = j \<or> answered as i"
  by (auto simp: answered_def)

lemma possible_errors [simp]:
  "\<not> impossible_error (surb_failure i)"
  "\<not> impossible_error (Errorf ''aborting, PKI doc is nil'' [])"
  "\<not> impossible_error (Errorf ''failure to get loop service'' [])"
  "\<not> impossible_error (Errorf ''failure to generate message ID for drop decoy'' [])"
  "\<not> impossible_error (Errorf ''failure to generate message ID for loop decoy'' [])"
  "\<not> impossible_error (Errorf ''found a Provider which does not have the loop service'' [])"
  by (simp_all add: impossible_error_def surb_failure_def)

text \<open>
  Steps that leave the queue and the waiting channels alone, answer nobody and report only
  possible errors keep the invariant.
\<close>

lemma session_inv_quiet:
  assumes "session_inv K used callers s"
    and "s_egressQueue s' = s_egressQueue s" and "s_sentWaitChanMap s' = s_sentWaitChanMap s"
    and "s_replyWaitChanMap s' = s_replyWaitChanMap s"
    and "\<And>i. answered (s_out s') i \<longleftrightarrow> answered (s_out s) i"
    and "s_fatalErrCh s' = s_fatalErrCh s @ es" and "\<forall>e \<in> set es. \<not> impossible_error e"
  shows "session_inv K used callers s'"
  using assms by (auto simp: session_inv_defs)

lemma queued_new_Session: "0 < MaxEgressQueueSize K \<Longrightarrow> session_inv K {} (\<lambda>_. None) (new_Session K)"
  using new_Queue_inv [of "MaxEgressQueueSize K", where 'a = Message and 'b = Message]
  by (simp add: session_inv_defs new_Session_def)

text \<open>A message that is accepted into the queue, and a caller that starts to wait for one.\<close>

lemma session_inv_push:
  assumes inv: "session_inv K used callers s" and fresh: "m_ID m \<notin> used"
    and m: "m_WithSURB m" "\<not> m_IsDecoy m" "\<not> m_IsBlocking m"
    and push: "Queue_Push (MaxEgressQueueSize K) (s_egressQueue s) m = Ok (q, err)"
  shows "session_inv K (insert (m_ID m) used) callers (s\<lparr>s_egressQueue := q\<rparr>)"
proof -
  have qi: "q_inv (MaxEgressQueueSize K) (s_egressQueue s)" using inv by (simp add: session_inv_def)
  from qi show ?thesis
  proof (cases rule: ring.push_cases [where e = m])
    case (1 q')
    with inv fresh m push show ?thesis by (auto simp: session_inv_defs)
  next
    case 2
    with push have "q = s_egressQueue s" by simp
    with inv show ?thesis by (auto simp: session_inv_defs)
  qed
qed

lemma session_inv_fresh: "session_inv K used callers s \<Longrightarrow> i \<notin> used \<Longrightarrow> callers i = None"
  by (cases "callers i") (auto simp: session_inv_defs)

lemma session_inv_block:
  assumes inv: "session_inv K used callers s" and fresh: "ident \<notin> used" and e: "e_msgID env = Inr ident"
    and b: "BlockingSend_begin K env rcpt prv message s = Ok (s', b)"
  shows "session_inv K (insert ident used) (callers(ident := caller_next b)) s'"
proof (cases "composeMessage K env rcpt prv message True")
  case (Inl err)
  have none: "callers ident = None" using session_inv_fresh [OF inv fresh] .
  from Inl b have "s' = s" "caller_next b = None" by (auto simp: BlockingSend_begin_def caller_next_def)
  with inv none show ?thesis by (auto simp: session_inv_defs fun_upd_idem)
next
  case (Inr m)
  note p = composeMessage_payload [OF Inr]
  have ident: "m_ID m = ident" using p e by simp
  have none: "callers ident = None" using session_inv_fresh [OF inv fresh] .
  have qi: "q_inv (MaxEgressQueueSize K) (s_egressQueue s)" using inv by (simp add: session_inv_def)
  from qi show ?thesis
  proof (cases rule: ring.push_cases [where e = m])
    case (1 q')
    with b Inr ident have s': "s' = s\<lparr>s_sentWaitChanMap := (s_sentWaitChanMap s)(ident \<mapsto> ()),
        s_replyWaitChanMap := (s_replyWaitChanMap s)(ident \<mapsto> ()), s_egressQueue := q'\<rparr>"
        and bn: "caller_next b = Some (AwaitSent ident)"
      by (auto simp: BlockingSend_begin_def Let_def caller_next_def)
    from inv fresh p 1(2,3) ident none show ?thesis unfolding s' bn
      by (auto simp: session_inv_defs)
  next
    case 2
    with b Inr ident have s': "s' = blocking_forget ident (s\<lparr>s_sentWaitChanMap := (s_sentWaitChanMap s)(ident \<mapsto> ()),
        s_replyWaitChanMap := (s_replyWaitChanMap s)(ident \<mapsto> ())\<rparr>)"
        and bn: "caller_next b = None"
      by (auto simp: BlockingSend_begin_def Let_def caller_next_def)
    from inv fresh none show ?thesis unfolding s' bn
      by (auto simp: session_inv_defs blocking_forget_def)
  qed
qed

text \<open>A caller that goes on or returns: no message of its own is queued any more.\<close>

lemma session_inv_caller:
  assumes inv: "session_inv K used callers s" and c: "callers ident = Some b0"
    and gone: "b0 = AwaitSent ident \<longrightarrow> answered (s_out s) ident"
    and s': "s' = s \<and> (\<exists>t. b = AwaitReply ident t) \<or> s' = blocking_forget ident s \<and> (\<exists>r. b = BlockReturn r)"
  shows "session_inv K used (callers(ident := caller_next b)) s'"
proof -
  have q: "m_ID m \<noteq> ident" if "m \<in> set (queued K s)" "m_IsBlocking m" for m
    using that inv c gone by (auto simp: session_inv_defs)
  from s' show ?thesis
  proof (elim disjE conjE exE)
    fix t
    assume "s' = s" and "b = AwaitReply ident t"
    with inv c q show ?thesis by (auto simp: session_inv_defs caller_next_def)
  next
    fix r
    assume "s' = blocking_forget ident s" and "b = BlockReturn r"
    with inv c q show ?thesis by (auto simp: session_inv_defs caller_next_def blocking_forget_def)
  qed
qed

text \<open>Sending: what \<open>doSend\<close> adds to the actions and to the fatal errors.\<close>

lemma doSend_plain:
  assumes "\<not> m_IsBlocking m"
  shows "\<exists>es. s_fatalErrCh (doSend env m s) = s_fatalErrCh s @ es \<and> (\<forall>e \<in> set es. \<not> impossible_error e) \<and>
    (\<forall>i. answered (s_out (doSend env m s)) i \<longleftrightarrow> answered (s_out s) i)"
  using assms possible_errors(1) [of "m_ID m"]
  by (auto simp: doSend_def session_upd Let_def surb_failure_def split: sum.splits prod.splits)

lemma doSend_blocking:
  assumes "m_IsBlocking m" and "m_WithSURB m" and "s_sentWaitChanMap s (m_ID m) \<noteq> None"
  shows "(s_fatalErrCh (doSend env m s) = s_fatalErrCh s \<and>
      (\<forall>i. answered (s_out (doSend env m s)) i \<longleftrightarrow> i = m_ID m \<or> answered (s_out s) i)) \<or>
    (s_fatalErrCh (doSend env m s) = s_fatalErrCh s @ [surb_failure (m_ID m)] \<and>
      (\<forall>i. answered (s_out (doSend env m s)) i \<longleftrightarrow> answered (s_out s) i))"
  using assms
  by (auto simp: doSend_def session_upd Let_def surb_failure_def split: sum.splits prod.splits option.splits)

text \<open>The head leaves the queue; its caller, if it has one, is answered or the random source failed.\<close>

lemma session_inv_pop:
  assumes inv: "session_inv K used callers s" and q: "queued K s = m # ms"
    and q': "q_inv (MaxEgressQueueSize K) (s_egressQueue s')" "queued K s' = ms"
    and maps: "s_sentWaitChanMap s' = s_sentWaitChanMap s" "s_replyWaitChanMap s' = s_replyWaitChanMap s"
    and ans: "\<And>i. answered (s_out s') i \<longleftrightarrow> answered (s_out s) i \<or> i = m_ID m \<and> a"
    and err: "s_fatalErrCh s' = s_fatalErrCh s @ es" "\<forall>e \<in> set es. \<not> impossible_error e"
    and served: "m_IsBlocking m \<longrightarrow> a \<or> surb_failure (m_ID m) \<in> set es"
  shows "session_inv K used callers s'"
proof -
  have qk: "queue_ok used callers (s_out s) (m # ms)" and ck: "callers_ok used callers (m # ms) s"
    using inv q by (simp_all add: session_inv_def)
  have "m_ID m \<notin> m_ID ` set ms" using qk by (simp add: queue_ok_def)
  then have other: "m_ID m' \<noteq> m_ID m" if "m' \<in> set ms" for m' using that by (metis imageI)
  have "queue_ok used callers (s_out s') ms" using qk ans other by (simp add: queue_ok_def)
  moreover have "callers_ok used callers ms s'"
    unfolding callers_ok_def
  proof (intro allI impI)
    fix i b
    assume c: "callers i = Some b"
    have old: "i \<in> used \<and> s_sentWaitChanMap s i \<noteq> None \<and> s_replyWaitChanMap s i \<noteq> None \<and>
        (b = AwaitSent i \<longrightarrow> (\<exists>m' \<in> set (m # ms). m_IsBlocking m' \<and> m_ID m' = i) \<or> answered (s_out s) i \<or>
           surb_failure i \<in> set (s_fatalErrCh s))"
      using ck c unfolding callers_ok_def by blast
    have "(\<exists>m' \<in> set ms. m_IsBlocking m' \<and> m_ID m' = i) \<or> answered (s_out s') i \<or> surb_failure i \<in> set (s_fatalErrCh s')"
      if "b = AwaitSent i"
      using old that ans [of i] err(1) served by auto
    with old maps show "i \<in> used \<and> s_sentWaitChanMap s' i \<noteq> None \<and> s_replyWaitChanMap s' i \<noteq> None \<and>
        (b = AwaitSent i \<longrightarrow> (\<exists>m' \<in> set ms. m_IsBlocking m' \<and> m_ID m' = i) \<or> answered (s_out s') i \<or>
           surb_failure i \<in> set (s_fatalErrCh s'))"
      by simp
  qed
  moreover have "i \<in> used" if "answered (s_out s') i" for i
    using that ans [of i] inv qk by (auto simp: session_inv_def queue_ok_def)
  ultimately show ?thesis using q' err inv by (auto simp: session_inv_def)
qed

lemma session_inv_sendNext:
  assumes inv: "session_inv K used callers s" and q: "queued K s = m # ms"
    and pushes: "e_pushes env = []" and sn: "sendNext K env s = Ok s'"
  shows "session_inv K used callers s'"
proof -
  have qi: "q_inv (MaxEgressQueueSize K) (s_egressQueue s)" using inv by (simp add: session_inv_def)
  from sendNext_head [OF qi, of m ms env] q sn pushes obtain q' where
    s': "s' = (doSend env m s)\<lparr>s_egressQueue := q'\<rparr>" "q_inv (MaxEgressQueueSize K) q'"
      "q_list (MaxEgressQueueSize K) q' = ms"
    by (auto simp: queued_def)
  have m: "m_WithSURB m" "m_IsBlocking m \<longrightarrow> callers (m_ID m) = Some (AwaitSent (m_ID m))"
    using inv q by (auto simp: session_inv_def queue_ok_def)
  note pop = session_inv_pop [OF inv q, where s' = s']
  show ?thesis
  proof (cases "m_IsBlocking m")
    case True
    then have "s_sentWaitChanMap s (m_ID m) \<noteq> None" using inv m(2) by (auto simp: session_inv_def callers_ok_def)
    from doSend_blocking [OF True m(1) this, of env] show ?thesis
    proof (elim disjE conjE)
      assume "s_fatalErrCh (doSend env m s) = s_fatalErrCh s"
        "\<forall>i. answered (s_out (doSend env m s)) i \<longleftrightarrow> i = m_ID m \<or> answered (s_out s) i"
      then show ?thesis by (intro pop [of True "[]"]) (auto simp: s' queued_def)
    next
      assume "s_fatalErrCh (doSend env m s) = s_fatalErrCh s @ [surb_failure (m_ID m)]"
        "\<forall>i. answered (s_out (doSend env m s)) i \<longleftrightarrow> answered (s_out s) i"
      then show ?thesis by (intro pop [of False "[surb_failure (m_ID m)]"]) (auto simp: s' queued_def)
    qed
  next
    case False
    from doSend_plain [OF this, of env s] obtain es where "s_fatalErrCh (doSend env m s) = s_fatalErrCh s @ es"
        "\<forall>e \<in> set es. \<not> impossible_error e" "\<forall>i. answered (s_out (doSend env m s)) i \<longleftrightarrow> answered (s_out s) i"
      by blast
    with False show ?thesis by (intro pop [of False es]) (auto simp: s' queued_def)
  qed
qed

lemma session_inv_doSend_decoy:
  assumes inv: "session_inv K used callers s"
  shows "session_inv K used callers (doSend env (decoy_message K ident sd b) s)"
proof -
  have "\<not> m_IsBlocking (decoy_message K ident sd b)" by (simp add: decoy_message_def blank_Message_def)
  from doSend_plain [OF this, of env s] obtain es where
    "s_fatalErrCh (doSend env (decoy_message K ident sd b) s) = s_fatalErrCh s @ es"
    "\<forall>e \<in> set es. \<not> impossible_error e"
    "\<And>i. answered (s_out (doSend env (decoy_message K ident sd b) s)) i \<longleftrightarrow> answered (s_out s) i" by blast
  then show ?thesis by (intro session_inv_quiet [OF inv]) simp_all
qed

lemma session_inv_fatal:
  "session_inv K used callers s \<Longrightarrow> \<not> impossible_error e \<Longrightarrow> session_inv K used callers (fatal e s)"
  by (rule session_inv_quiet [where s = s and es = "[e]"]) (simp_all add: fatal_def)

lemma session_inv_dropDecoy:
  assumes "session_inv K used callers s" and "sendDropDecoy K env s = Ok s'"
  shows "session_inv K used callers s'"
  using assms session_inv_doSend_decoy [OF assms(1)] session_inv_fatal [OF assms(1)]
  by (cases "GetService env (LoopService K)") (auto simp: sendDropDecoy_def split: sum.splits)

lemma session_inv_loopDecoy:
  assumes inv: "session_inv K used callers s" and sl: "sendLoopDecoy K env s = Ok s'"
  shows "session_inv K used callers s'"
proof -
  have "session_inv K used callers (incrementDecoyLoopTally s1)" if "session_inv K used callers s1" for s1
    by (rule session_inv_quiet [OF that, where es = "[]"]) (simp_all add: incrementDecoyLoopTally_def)
  with sl session_inv_doSend_decoy [OF inv] session_inv_fatal [OF inv] show ?thesis
    by (cases "GetService env (LoopService K)") (auto simp: sendLoopDecoy_def split: sum.splits)
qed

lemma session_inv_worker_fire:
  assumes inv: "session_inv K used callers s" and pushes: "e_pushes env = []"
    and wf: "worker_fire K dis env ev w s = Ok s'"
  shows "session_inv K used callers s'"
proof -
  have qi: "q_inv (MaxEgressQueueSize K) (s_egressQueue s)" using inv by (simp add: session_inv_def)
  have "session_inv K used callers s1" if f: "sendFromQueueOrDecoy K dis env s = Ok s1" for s1
  proof (cases "queued K s")
    case Nil
    then have "Queue_Peek (s_egressQueue s) = Ok (Inl ErrQueueEmpty)"
      using ring.peek_empty [OF qi] by (simp add: queued_def)
    with f inv session_inv_dropDecoy [OF inv] show ?thesis
      by (auto simp: sendFromQueueOrDecoy_def split: if_splits)
  next
    case (Cons m ms)
    then have "Queue_Peek (s_egressQueue s) = Ok (Inr (Some m))"
      using ring.peek_item [OF qi] by (simp add: queued_def)
    with f session_inv_sendNext [OF inv Cons pushes] show ?thesis by (simp add: sendFromQueueOrDecoy_def)
  qed
  with wf inv session_inv_dropDecoy [OF inv] session_inv_loopDecoy [OF inv] show ?thesis
    by (auto simp: worker_fire_def split: if_splits)
qed

lemma session_inv_worker_op:
  assumes "session_inv K used callers s" and "worker_op K now skew op (s\<lparr>s_opCh := ops\<rparr>, w) = (s', w')"
  shows "session_inv K used callers s'"
proof -
  have q: "session_inv K used callers (s\<lparr>s_opCh := ops\<rparr>)"
    by (rule session_inv_quiet [OF assms(1), where es = "[]"]) simp_all
  have "session_inv K used callers (s\<lparr>s_opCh := ops, s_onlineAt := now\<rparr>)"
    by (rule session_inv_quiet [OF assms(1), where es = "[]"]) simp_all
  with assms(2) q session_inv_fatal [OF q] show ?thesis
    by (auto simp: worker_op_def connStatusChange_def isDocValid_def Let_def
        split: workerOp.splits if_splits)
qed

lemma session_inv_onACK_delete:
  "session_inv K used callers s \<Longrightarrow> session_inv K used callers (onACK_delete sid s)"
  by (erule session_inv_quiet [where es = "[]"]) (simp_all add: onACK_delete_def)

lemma onACK_deliver_frame:
  assumes "onACK_deliver K decrypt ct msg s = Ok (s', r)"
  shows "s_egressQueue s' = s_egressQueue s \<and> s_sentWaitChanMap s' = s_sentWaitChanMap s \<and>
      s_replyWaitChanMap s' = s_replyWaitChanMap s \<and> s_fatalErrCh s' = s_fatalErrCh s \<and>
      s_surbIDMap s' = s_surbIDMap s \<and> s_opCh s' = s_opCh s \<and> (\<forall>i. answered (s_out s') i \<longleftrightarrow> answered (s_out s) i)"
  using assms by (auto simp: onACK_deliver_def session_upd go_slice_def split: option.splits sum.splits if_splits)

lemma session_inv_onACK_deliver:
  assumes inv: "session_inv K used callers s" and a: "onACK_deliver K decrypt ct msg s = Ok (s', r)"
  shows "session_inv K used callers s'"
  using onACK_deliver_frame [OF a] by (intro session_inv_quiet [OF inv, where es = "[]"]) simp_all

lemma session_inv_onConnection:
  "session_inv K used callers s \<Longrightarrow> session_inv K used callers (onConnection err s)"
  by (erule session_inv_quiet [where es = "[]"]) (simp_all add: onConnection_def event_def Let_def)

lemma session_inv_onDocument:
  "session_inv K used callers s \<Longrightarrow> session_inv K used callers (onDocument d s)"
  by (erule session_inv_quiet [where es = "[]"]) (simp_all add: onDocument_def event_def Let_def)

lemma session_inv_collect:
  "session_inv K used callers s \<Longrightarrow> session_inv K used callers (garbageCollect K now keys s)"
proof (induction keys arbitrary: s)
  case (Cons k keys)
  have "session_inv K used callers (event ev (s\<lparr>s_surbIDMap := f\<rparr>))" for ev f
    by (rule session_inv_quiet [OF Cons.prems, where es = "[]"]) (simp_all add: event_def)
  with Cons show ?case by (auto split: option.splits)
qed simp

lemma session_inv_sink:
  "session_inv K used callers s \<Longrightarrow> eventSinkWorker ws s = (s', out) \<Longrightarrow> session_inv K used callers s'"
proof (induction ws s arbitrary: s' out rule: eventSinkWorker.induct)
  case (3 ws s)
  then show ?case by (auto intro!: session_inv_quiet [OF 3(1), where es = "[]"])
next
  case (4 ws s)
  have "session_inv K used callers (s\<lparr>s_eventCh := es\<rparr>)" for es
    by (rule session_inv_quiet [OF 4(2), where es = "[]"]) simp_all
  with 4 show ?case by (auto split: list.splits prod.splits)
qed auto

definition sys_inv :: "kconst \<Rightarrow> 'r system \<Rightarrow> bool" where
  "sys_inv K y \<longleftrightarrow> session_inv K (y_used y) (y_callers y) (y_session y)"

lemma user_step_inv:
  assumes "user_step K decrypt y y'" and "sys_inv K y"
  shows "sys_inv K y'"
  using assms
proof (induction rule: user_step.induct)
  case (send env ident y rcpt prv message s' res)
  show ?case
  proof (cases "composeMessage K env rcpt prv message False")
    case (Inl err)
    with send have "s' = y_session y" by (simp add: SendUnreliableMessage_def)
    with send(4) show ?thesis by (auto simp: sys_inv_def session_inv_defs)
  next
    case (Inr m)
    note p = composeMessage_payload [OF Inr]
    from send(3) Inr obtain q err where
      "Queue_Push (MaxEgressQueueSize K) (s_egressQueue (y_session y)) m = Ok (q, err)"
      "s' = (y_session y)\<lparr>s_egressQueue := q\<rparr>"
      by (cases "Queue_Push (MaxEgressQueueSize K) (s_egressQueue (y_session y)) m")
        (auto simp: SendUnreliableMessage_def split: option.splits)
    with session_inv_push [of K "y_used y" "y_callers y" "y_session y" m q err] p send(1,2,4) show ?thesis
      by (simp add: sys_inv_def)
  qed
next
  case (block env ident y rcpt prv message s' b)
  then show ?case using session_inv_block by (simp add: sys_inv_def)
next
  case (sent y ident m s' b)
  then have "answered (s_out (y_session y)) ident" by (auto simp: answered_def)
  with sent show ?case
    by (auto simp: sys_inv_def BlockingSend_sent_def intro!: session_inv_caller)
next
  case (not_sent y ident s' b)
  then have "answered (s_out (y_session y)) ident" by (auto simp: answered_def)
  with not_sent show ?case
    by (auto simp: sys_inv_def BlockingSend_sent_def intro!: session_inv_caller)
next
  case (reply y ident t p s' b)
  then show ?case by (auto simp: sys_inv_def BlockingSend_reply_def intro!: session_inv_caller)
next
  case (timeout y ident t s' b)
  then show ?case by (auto simp: sys_inv_def BlockingSend_reply_def intro!: session_inv_caller)
next
  case (ack_delete sid ciphertext msg y)
  then show ?case by (simp add: sys_inv_def session_inv_onACK_delete)
next
  case (ack_deliver ciphertext msg y s' reply)
  then show ?case by (auto simp: sys_inv_def intro: session_inv_onACK_deliver)
next
  case (collect y now keys)
  then show ?case by (simp add: sys_inv_def session_inv_collect)
next
  case (sink ws y s' out)
  then show ?case by (auto simp: sys_inv_def intro: session_inv_sink)
qed (simp add: sys_inv_def)

lemma sys_step_inv:
  assumes "sys_step K dis g decrypt y y'" and "sys_inv K y"
  shows "sys_inv K y'"
  using assms
proof (induction rule: sys_step.induct)
  case (user y y')
  then show ?case by (rule user_step_inv)
next
  case (operation y w op ops env skew r' s' w')
  from worker_iteration_step [OF operation(3)] operation(4) show ?case
    by (auto simp: sys_inv_def intro: session_inv_worker_op)
next
  case (fire y w ev env skew r' s' w')
  from worker_iteration_step [OF fire(4)] fire(2,3,5) show ?case
    by (auto simp: sys_inv_def intro: session_inv_worker_fire)
next
  case (connection y err)
  then show ?case by (simp add: sys_inv_def session_inv_onConnection)
next
  case (document y d)
  then show ?case by (simp add: sys_inv_def session_inv_onDocument)
qed (simp add: sys_inv_def)

lemma sys_init_inv:
  assumes "0 < MaxEgressQueueSize K"
  shows "sys_inv K (sys_init K g r doc ops evs hasDoc)"
proof -
  let ?s = "(new_Session K)\<lparr>s_opCh := ops, s_eventCh := evs, s_hasPKIDoc := hasDoc\<rparr>"
  have 1: "session_inv K {} (\<lambda>_. None) ?s"
    by (rule session_inv_quiet [OF queued_new_Session [OF assms], where es = "[]"]) simp_all
  show ?thesis using 1 session_inv_fatal [OF 1 possible_errors(2)]
    by (cases doc) (simp_all add: sys_inv_def sys_init_def worker_begin_def Let_def split_beta)
qed

lemma sys_reachable_inv:
  "sys_reachable K dis g decrypt y \<Longrightarrow> 0 < MaxEgressQueueSize K \<Longrightarrow> sys_inv K y"
  by (induction rule: sys_reachable.induct)
    (auto intro: sys_init_inv sys_step_inv)

text \<open>The queue is served in order: a tick of the P timer answers the head, whoever waits for it.\<close>

lemma tick_serves_head:
  assumes inv: "session_inv K used callers s" and q: "queued K s = m # ms" and w: "wk_isConnected w"
    and env: "e_pushes env = []" "e_surbID env = Inr sid"
  shows "\<exists>r' s' w'. worker_iteration K dis g env skew LambdaPFired (r, s, w) = Ok (Some (r', s', w')) \<and>
    wk_isConnected w' \<and> session_inv K used callers s' \<and> queued K s' = ms \<and>
    (\<forall>i. answered (s_out s) i \<longrightarrow> answered (s_out s') i) \<and> (m_IsBlocking m \<longrightarrow> answered (s_out s') (m_ID m))"
proof -
  have qi: "q_inv (MaxEgressQueueSize K) (s_egressQueue s)" using inv by (simp add: session_inv_def)
  obtain q' where sn: "sendNext K env s = Ok ((doSend env m s)\<lparr>s_egressQueue := q'\<rparr>)"
      "q_list (MaxEgressQueueSize K) q' = ms"
    using sendNext_head [OF qi, of m ms env] q env(1) by (auto simp: queued_def)
  let ?s = "(doSend env m s)\<lparr>s_egressQueue := q'\<rparr>"
  have wf: "worker_fire K dis env LambdaPFired w s = Ok ?s"
    using w sn(1) ring.peek_item [OF qi, of m ms] q
    by (simp add: worker_fire_def sendFromQueueOrDecoy_def queued_def)
  obtain r' w' where t: "reset_timers g r LambdaPFired w = (r', w')" by fastforce
  have it: "worker_iteration K dis g env skew LambdaPFired (r, s, w) = Ok (Some (r', ?s, w'))"
    using wf t by (simp add: worker_iteration_def)
  have m: "m_WithSURB m" "m_IsBlocking m \<longrightarrow> s_sentWaitChanMap s (m_ID m) \<noteq> None"
    using inv q by (auto simp: session_inv_defs)
  have mono: "answered (s_out s) i \<longrightarrow> answered (s_out ?s) i" for i
    using env(2) by (auto simp: doSend_def session_upd Let_def split: prod.splits option.splits)
  have "answered (s_out ?s) (m_ID m)" if "m_IsBlocking m"
    using that m env(2) by (auto simp: doSend_def session_upd Let_def split: prod.splits option.splits)
  with it mono session_inv_worker_fire [OF inv env(1) wf] sn(2) w reset_timers_frame [OF t] show ?thesis
    by (intro exI [of _ r'] exI [of _ ?s] exI [of _ w']) (simp add: queued_def)
qed

text \<open>Ticks of the P timer, one after the other.\<close>

fun p_ticks ::
  "kconst \<Rightarrow> bool \<Rightarrow> 'r rng_ops \<Rightarrow> int \<Rightarrow> senv list \<Rightarrow> 'r \<times> Session \<times> worker \<Rightarrow> ('r \<times> Session \<times> worker) outcome" where
  "p_ticks K dis g skew [] rsw = Ok rsw"
| "p_ticks K dis g skew (env # envs) rsw =
     obind (worker_iteration K dis g env skew LambdaPFired rsw) (\<lambda>o1. case o1 of
       None \<Rightarrow> Ok rsw
     | Some rsw' \<Rightarrow> p_ticks K dis g skew envs rsw')"

lemma ticks_serve:
  assumes "session_inv K used callers s" and "queued K s = ms @ m # rest" and "m_IsBlocking m"
    and "wk_isConnected w" and "length envs = Suc (length ms)"
    and "\<forall>env \<in> set envs. e_pushes env = [] \<and> e_surbID env \<in> range Inr"
  shows "\<exists>r' s' w'. p_ticks K dis g skew envs (r, s, w) = Ok (r', s', w') \<and> answered (s_out s') (m_ID m)"
  using assms
proof (induction ms arbitrary: s w r envs)
  case Nil
  then obtain env sid where e: "envs = [env]" "e_pushes env = []" "e_surbID env = Inr sid"
    by (auto simp: length_Suc_conv)
  from tick_serves_head [OF Nil(1) _ Nil(4) e(2,3), of m rest dis g skew r] Nil(2,3) e(1) show ?case by auto
next
  case (Cons a ms)
  then obtain env envs' sid where e: "envs = env # envs'" "e_pushes env = []" "e_surbID env = Inr sid"
      "length envs' = Suc (length ms)" "\<forall>env \<in> set envs'. e_pushes env = [] \<and> e_surbID env \<in> range Inr"
    by (auto simp: length_Suc_conv)
  from tick_serves_head [OF Cons.prems(1) _ Cons.prems(4) e(2,3), of a "ms @ m # rest" dis g skew r] Cons.prems(2)
  obtain r' s' w' where 1: "worker_iteration K dis g env skew LambdaPFired (r, s, w) = Ok (Some (r', s', w'))"
      "wk_isConnected w'" "session_inv K used callers s'" "queued K s' = ms @ m # rest" by auto
  from Cons.IH [OF 1(3,4) Cons.prems(3) 1(2) e(4,5), of r'] 1(1) e(1) show ?case by auto
qed

text \<open>A goroutine of the connection blocked on a reply that nobody takes.\<close>

definition ack_stuck :: "'r system \<Rightarrow> bytes \<Rightarrow> bytes \<Rightarrow> bool" where
  "ack_stuck y i p \<longleftrightarrow> (i, p) \<in># y_acks y \<and> y_callers y i = None \<and> i \<in> y_used y"

lemma ack_stuck_step: "sys_step K dis g decrypt y y' \<Longrightarrow> ack_stuck y i p \<Longrightarrow> ack_stuck y' i p"
proof (induction rule: sys_step.induct)
  case (user y y')
  then show ?case by (induction rule: user_step.induct) (auto simp: ack_stuck_def in_diff_count)
qed (auto simp: ack_stuck_def)

interpretation late: preserved "sys_step K dis g decrypt" "\<lambda>y. ack_stuck y i p" for K dis g decrypt i p
  by unfold_locales (rule ack_stuck_step)

text \<open>A caller whose answer can no longer come.\<close>

definition stuck :: "'r system \<Rightarrow> bytes \<Rightarrow> bool" where
  "stuck y i \<longleftrightarrow> y_worker y = None \<and> i \<in> y_used y \<and> y_callers y i = Some (AwaitSent i) \<and>
     \<not> answered (s_out (y_session y)) i"

lemma answered_collect [simp]: "s_out (garbageCollect K now keys s) = s_out s"
  by (induction keys arbitrary: s) (auto simp: event_def split: option.splits)

lemma answered_sink: "eventSinkWorker ws s = (s', out) \<Longrightarrow> s_out s' = s_out s"
proof (induction ws s arbitrary: s' out rule: eventSinkWorker.induct)
  case (4 ws s)
  then show ?case by (fastforce split: list.splits prod.splits)
qed auto

lemma out_push [simp]:
  "SendUnreliableMessage K env rcpt prv message s = Ok (s', res) \<Longrightarrow> s_out s' = s_out s"
  by (cases "composeMessage K env rcpt prv message False") (auto simp: SendUnreliableMessage_def obind_eq_Ok
      split: option.splits)

lemma out_block [simp]:
  "BlockingSend_begin K env rcpt prv message s = Ok (s', b) \<Longrightarrow> s_out s' = s_out s"
  by (cases "composeMessage K env rcpt prv message True") (auto simp: BlockingSend_begin_def obind_eq_Ok Let_def
      blocking_forget_def split: option.splits)

lemma stuck_user_step:
  assumes "user_step K decrypt y y'" and "stuck y i"
  shows "stuck y' i"
  using assms
proof (induction rule: user_step.induct)
  case (block env ident y rcpt prv message s' b)
  then show ?case by (auto simp: stuck_def)
next
  case (sent y ident m s' b)
  then have "ident \<noteq> i" by (auto simp: stuck_def answered_def)
  with sent show ?case by (auto simp: stuck_def BlockingSend_sent_def)
next
  case (not_sent y ident s' b)
  then have "ident \<noteq> i" by (auto simp: stuck_def answered_def)
  with not_sent show ?case by (auto simp: stuck_def BlockingSend_sent_def blocking_forget_def)
next
  case (reply y ident t p s' b)
  then show ?case by (auto simp: stuck_def BlockingSend_reply_def blocking_forget_def)
next
  case (timeout y ident t s' b)
  then show ?case by (auto simp: stuck_def BlockingSend_reply_def blocking_forget_def)
next
  case (ack_deliver ciphertext msg y s' reply)
  then show ?case using onACK_deliver_frame [OF ack_deliver(2)] by (simp add: stuck_def)
qed (auto simp: stuck_def answered_sink onACK_delete_def)

lemma stuck_step: "sys_step K dis g decrypt y y' \<Longrightarrow> stuck y i \<Longrightarrow> stuck y' i"
  by (induction rule: sys_step.induct)
    (auto simp: stuck_def onConnection_def onDocument_def event_def Let_def dest: stuck_user_step [unfolded stuck_def])

interpretation halted: preserved "sys_step K dis g decrypt" "\<lambda>y. stuck y i" for K dis g decrypt i
  by unfold_locales (rule stuck_step)

text \<open>
  A run for the witnesses: the session connects, a goroutine sends a message and blocks, the worker
  sends it, the goroutine waits for the reply, and the reply comes.
\<close>

abbreviation example_reach :: "unit system \<Rightarrow> bool" where
  "example_reach \<equiv> sys_reachable example_const True (const_rng 7) (\<lambda>ct k. Inr (replicate 10 7))"

lemma example_N: "MaxEgressQueueSize example_const = 3"
  by (simp add: example_const_def)

lemma example_connected:
  "\<exists>y w. example_reach y \<and> y_worker y = Some w \<and> wk_isConnected w \<and> y_used y = {} \<and>
     s_egressQueue (y_session y) = new_Queue 3 \<and> s_fatalErrCh (y_session y) = [] \<and> s_out (y_session y) = []"
proof -
  let ?y = "sys_init example_const (const_rng 7) () (Some doc4) [opConnStatusChanged True] [] True"
  obtain w where w: "y_worker ?y = Some w"
    by (simp add: sys_init_def worker_begin_def Let_def split_beta)
  have s: "s_opCh (y_session ?y) = [opConnStatusChanged True]" "s_egressQueue (y_session ?y) = new_Queue 3"
      "s_fatalErrCh (y_session ?y) = []" "s_out (y_session ?y) = []" "y_used ?y = {}"
    by (simp_all add: sys_init_def worker_begin_def Let_def split_beta new_Session_def example_N)
  let ?s = "(y_session ?y)\<lparr>s_opCh := [], s_onlineAt := 100\<rparr>" and ?w = "w\<lparr>wk_isConnected := True\<rparr>"
  obtain r2 w2 where r: "reset_timers (const_rng 7) (y_rng ?y) (WakeOp (opConnStatusChanged True)) ?w = (r2, w2)"
    by (rule prod.exhaust)
  have it: "worker_iteration example_const True (const_rng 7) example_senv 0 (WakeOp (opConnStatusChanged True))
      (y_rng ?y, (y_session ?y)\<lparr>s_opCh := []\<rparr>, w) = Ok (Some (r2, ?s, w2))"
    using r by (simp add: worker_iteration_def worker_op_def connStatusChange_def example_senv_def Let_def)
  have "wk_isConnected w2" using r by (auto simp: reset_timers_def Let_def split_beta)
  have "example_reach ?y" by (rule sys_reachable.init) simp
  from sys_reachable.step [OF this sys_step.operation [OF w s(1) it]] \<open>wk_isConnected w2\<close> s(2-) show ?thesis
    by (intro exI [of _ "?y\<lparr>y_session := ?s, y_worker := Some w2, y_rng := r2\<rparr>"] exI [of _ w2]) simp
qed

lemma example_blocked:
  "\<exists>y w m. example_reach y \<and> y_worker y = Some w \<and> wk_isConnected w \<and>
     y_callers y [9, 9] = Some (AwaitSent [9, 9]) \<and> s_fatalErrCh (y_session y) = [] \<and> s_out (y_session y) = [] \<and>
     q_inv 3 (s_egressQueue (y_session y)) \<and> q_list 3 (s_egressQueue (y_session y)) = [m] \<and> m_IsBlocking m \<and>
     m_WithSURB m \<and> \<not> m_IsDecoy m \<and> m_ID m = [9, 9] \<and> s_sentWaitChanMap (y_session y) [9, 9] = Some () \<and>
     s_replyWaitChanMap (y_session y) [9, 9] = Some ()"
proof -
  obtain y w where y: "example_reach y" "y_worker y = Some w" "wk_isConnected w" "y_used y = {}"
      "s_egressQueue (y_session y) = new_Queue 3" "s_fatalErrCh (y_session y) = []" "s_out (y_session y) = []"
    using example_connected by blast
  obtain m where m: "composeMessage example_const example_senv ''x'' ''b'' [1] True = Inr m" "m_ID m = [9, 9]"
      "m_IsBlocking m" "m_WithSURB m" "\<not> m_IsDecoy m"
    by (simp add: composeMessage_def example_const_def example_senv_def blank_Message_def)
  obtain q where q: "Queue_Push 3 (new_Queue 3) m = Ok (q, None)" "q_inv 3 q" "q_list 3 q = [m]"
    using example_push [of m] by (elim exE conjE) (rule that)
  let ?s = "(y_session y)\<lparr>s_sentWaitChanMap := (s_sentWaitChanMap (y_session y))([9, 9] \<mapsto> ()),
        s_replyWaitChanMap := (s_replyWaitChanMap (y_session y))([9, 9] \<mapsto> ()), s_egressQueue := q\<rparr>"
  have b: "BlockingSend_begin example_const example_senv ''x'' ''b'' [1] (y_session y) = Ok (?s, AwaitSent [9, 9])"
    using m q y(5) by (simp add: BlockingSend_begin_def Let_def example_N)
  have "e_msgID example_senv = Inr [9, 9]" "[9, 9] \<notin> y_used y" using y(4) by (simp_all add: example_senv_def)
  from sys_reachable.step [OF y(1) sys_step.user [OF user_step.block [OF this b]]] y m q(2,3) show ?thesis
    by (intro exI [of _ "y\<lparr>y_session := ?s, y_used := insert [9, 9] (y_used y),
          y_callers := (y_callers y)([9, 9] := caller_next (AwaitSent [9, 9]))\<rparr>"] exI [of _ w] exI [of _ m])
      (simp add: caller_next_def)
qed

lemma example_replied:
  "\<exists>y t p. example_reach y \<and> y_callers y [9, 9] = Some (AwaitReply [9, 9] t) \<and> ([9, 9], p) \<in># y_acks y"
proof -
  obtain y w m where y: "example_reach y" "y_worker y = Some w" "wk_isConnected w"
      "y_callers y [9, 9] = Some (AwaitSent [9, 9])" "s_out (y_session y) = []"
      "q_inv 3 (s_egressQueue (y_session y))" "q_list 3 (s_egressQueue (y_session y)) = [m]"
    and m: "m_IsBlocking m" "m_WithSURB m" "\<not> m_IsDecoy m" "m_ID m = [9, 9]"
      "s_sentWaitChanMap (y_session y) [9, 9] = Some ()" "s_replyWaitChanMap (y_session y) [9, 9] = Some ()"
    using example_blocked by blast
  let ?m = "m\<lparr>m_SentAt := 100, m_ReplyETA := Second, m_Key := [1]\<rparr>" and ?dec = "\<lambda>ct k. Inr (replicate 10 7)"
  note qh = sendNext_head [where K = example_const and s = "y_session y" and m = m and ms = "[]" and env = example_senv]
  obtain q where q: "sendNext example_const example_senv (y_session y) =
      Ok ((doSend example_senv m (y_session y))\<lparr>s_egressQueue := q\<rparr>)"
    using qh y(6,7) by (auto simp: example_N)
  let ?s = "(doSend example_senv m (y_session y))\<lparr>s_egressQueue := q\<rparr>"
  have ds: "s_out ?s = [MinSend m None, SentWait [9, 9] ?m]" "s_surbIDMap ?s [5, 5] = Some ?m"
      "s_replyWaitChanMap ?s [9, 9] = Some ()"
    using m y(5) by (simp_all add: doSend_def example_senv_def Let_def session_upd)
  obtain r2 w2 where r: "reset_timers (const_rng 7) (y_rng y) LambdaPFired w = (r2, w2)" by (rule prod.exhaust)
  have "Queue_Peek (s_egressQueue (y_session y)) = Ok (Inr (Some m))" using ring.peek_item [OF y(6,7)] .
  with y(3) q r have it: "worker_iteration example_const True (const_rng 7) example_senv 0 LambdaPFired
      (y_rng y, y_session y, w) = Ok (Some (r2, ?s, w2))"
    by (simp add: worker_iteration_def worker_fire_def sendFromQueueOrDecoy_def)
  let ?y1 = "y\<lparr>y_session := ?s, y_worker := Some w2, y_rng := r2\<rparr>"
  have y1: "example_reach ?y1"
    using sys_reachable.step [OF y(1) sys_step.fire [OF y(2) _ _ it]] by (simp add: example_senv_def)
  obtain t where t: "BlockingSend_sent example_const [9, 9] (Some ?m) (y_session ?y1) = (?s, AwaitReply [9, 9] t)"
    by (simp add: BlockingSend_sent_def)
  let ?y2 = "?y1\<lparr>y_session := ?s, y_callers := (y_callers ?y1)([9, 9] := caller_next (AwaitReply [9, 9] t))\<rparr>"
  have y2: "example_reach ?y2"
    by (rule sys_reachable.step [OF y1 sys_step.user [OF user_step.sent [OF _ _ t]]]) (use y(4) ds(1) in simp_all)
  let ?k = "AckLoaded [5, 5] [] ?m" and ?k' = "AckDeleted [] ?m"
  let ?y3 = "?y2\<lparr>y_onACK := add_mset ?k (y_onACK ?y2)\<rparr>"
  let ?y4 = "?y3\<lparr>y_session := onACK_delete [5, 5] (y_session ?y3), y_onACK := add_mset ?k' (y_onACK ?y3 - {#?k#})\<rparr>"
  let ?s5 = "act (ReplyWait [9, 9] (replicate 8 7)) (y_session ?y4)"
  let ?y5 = "?y4\<lparr>y_session := ?s5, y_onACK := y_onACK ?y4 - {#?k'#},
      y_acks := y_acks ?y4 + (case Some ([9, 9], replicate 8 7) of None \<Rightarrow> {#} | Some r \<Rightarrow> {#r#})\<rparr>"
  have y3: "example_reach ?y3"
    by (rule sys_reachable.step [OF y2 sys_step.user [OF user_step.ack_load]]) (use ds(2) in \<open>simp add: onACK_load_def\<close>)
  have y4: "example_reach ?y4"
    by (rule sys_reachable.step [OF y3 sys_step.user [OF user_step.ack_delete]]) simp
  have "onACK_deliver example_const ?dec [] ?m (y_session ?y4) = Ok (?s5, Some ([9, 9], replicate 8 7))"
    using ds m by (simp add: onACK_deliver_def onACK_delete_def go_slice_def act_def example_const_def eval_nat_numeral)
  then have y5: "example_reach ?y5"
    by (intro sys_reachable.step [OF y4 sys_step.user [OF user_step.ack_deliver]]) simp_all
  then show ?thesis
    by (intro exI [of _ ?y5] exI [of _ t] exI [of _ "replicate 8 7"]) (simp add: caller_next_def)
qed

section \<open>Properties\<close>

text \<open>
  C3. Whatever the goroutines of a session do, in every reachable state none of the failures that the
  code calls impossible (an empty queue, a nil message, a missing waiting channel) has been
  reported; the queue is intact and its messages have distinct identifiers; and a goroutine that
  waits for its message to be sent is registered, and its message is queued, or its answer is
  there, or the random source failed when it was to be sent.
\<close>

theorem impossible_failures_impossible:
  assumes "sys_reachable K dis g decrypt y" and "0 < MaxEgressQueueSize K" and "s = y_session y"
  shows "(\<forall>e \<in> set (s_fatalErrCh s). \<not> impossible_error e) \<and>
    q_inv (MaxEgressQueueSize K) (s_egressQueue s) \<and> distinct (map m_ID (queued K s)) \<and>
    (\<forall>i. y_callers y i = Some (AwaitSent i) \<longrightarrow> s_sentWaitChanMap s i \<noteq> None \<and> s_replyWaitChanMap s i \<noteq> None \<and>
      ((\<exists>m \<in> set (queued K s). m_IsBlocking m \<and> m_ID m = i) \<or> answered (s_out s) i \<or>
       surb_failure i \<in> set (s_fatalErrCh s)))"
  using sys_reachable_inv [OF assms(1,2)] assms(3)
  by (auto simp: sys_inv_def session_inv_def queue_ok_def callers_ok_def)

theorem impossible_failures_impossible_witness:
  "\<exists>y. y_callers y [9, 9] = Some (AwaitSent [9, 9]) \<and> example_reach y \<and>
     (\<exists>m \<in> set (queued example_const (y_session y)). m_ID m = [9, 9])"
proof -
  obtain y where y: "example_reach y" "y_callers y [9, 9] = Some (AwaitSent [9, 9])"
      "s_fatalErrCh (y_session y) = []" "s_out (y_session y) = []"
    using example_blocked by blast
  have "0 < MaxEgressQueueSize example_const" by (simp add: example_N)
  from impossible_failures_impossible [OF y(1) this refl] y show ?thesis
    by (intro exI [of _ y]) (auto simp: answered_def)
qed

text \<open>
  C4. A blocking send is served in bounded time: if a goroutine waits for its message to be sent, the
  worker is connected and the random source works, then a number of P ticks no larger than the
  capacity of the queue answers it, whatever the minimal client says to each message.
\<close>

theorem blocking_caller_served:
  assumes "sys_reachable K dis g decrypt y" and "0 < MaxEgressQueueSize K"
    and "y_callers y i = Some (AwaitSent i)" and "y_worker y = Some w" and "wk_isConnected w"
    and "surb_failure i \<notin> set (s_fatalErrCh (y_session y))"
  shows "\<exists>n \<le> MaxEgressQueueSize K. \<forall>envs. length envs = n \<and>
      (\<forall>env \<in> set envs. e_pushes env = [] \<and> e_surbID env \<in> range Inr) \<longrightarrow>
    (\<exists>r' s' w'. p_ticks K dis g skew envs (y_rng y, y_session y, w) = Ok (r', s', w') \<and> answered (s_out s') i)"
proof -
  let ?s = "y_session y"
  have inv: "session_inv K (y_used y) (y_callers y) ?s"
    using sys_reachable_inv [OF assms(1,2)] by (simp add: sys_inv_def)
  then consider "answered (s_out ?s) i" | m where "m \<in> set (queued K ?s)" "m_IsBlocking m" "m_ID m = i"
    using assms(3,6) by (auto simp: session_inv_def callers_ok_def)
  then show ?thesis
  proof cases
    case 1
    then show ?thesis by (intro exI [of _ 0]) simp
  next
    case 2
    obtain ms rest where q: "queued K ?s = ms @ m # rest" using split_list [OF 2(1)] by blast
    have "length (queued K ?s) \<le> MaxEgressQueueSize K"
      using inv ring.items_le_cap by (auto simp: session_inv_def queued_def)
    then have "Suc (length ms) \<le> MaxEgressQueueSize K" using q by simp
    moreover have "\<exists>r' s' w'. p_ticks K dis g skew envs (y_rng y, ?s, w) = Ok (r', s', w') \<and> answered (s_out s') i"
      if "length envs = Suc (length ms)" "\<forall>env \<in> set envs. e_pushes env = [] \<and> e_surbID env \<in> range Inr" for envs
      using ticks_serve [OF inv q 2(2) assms(5) that, of dis g skew "y_rng y"] 2(3) by simp
    ultimately show ?thesis by blast
  qed
qed

theorem blocking_caller_served_witness:
  "\<exists>y w n. n \<le> 3 \<and> example_reach y \<and> (\<exists>r' s' w'. p_ticks example_const True (const_rng 7) 0
     (replicate n example_senv) (y_rng y, y_session y, w) = Ok (r', s', w') \<and> answered (s_out s') [9, 9])"
proof -
  obtain y w where y: "example_reach y" "y_callers y [9, 9] = Some (AwaitSent [9, 9])" "y_worker y = Some w"
      "wk_isConnected w" "s_fatalErrCh (y_session y) = []"
    using example_blocked by blast
  have N: "0 < MaxEgressQueueSize example_const" by (simp add: example_N)
  have "surb_failure [9, 9] \<notin> set (s_fatalErrCh (y_session y))" using y(5) by simp
  from blocking_caller_served [OF y(1) N y(2-4) this, of 0] obtain n where n: "n \<le> 3"
      "\<forall>envs. length envs = n \<and> (\<forall>env \<in> set envs. e_pushes env = [] \<and> e_surbID env \<in> range Inr) \<longrightarrow>
        (\<exists>r' s' w'. p_ticks example_const True (const_rng 7) 0 envs (y_rng y, y_session y, w) = Ok (r', s', w') \<and>
          answered (s_out s') [9, 9])"
    by (auto simp: example_N)
  have "e_pushes example_senv = []" "e_surbID example_senv \<in> range Inr" by (simp_all add: example_senv_def)
  then have "\<exists>r' s' w'. p_ticks example_const True (const_rng 7) 0 (replicate n example_senv)
      (y_rng y, y_session y, w) = Ok (r', s', w') \<and> answered (s_out s') [9, 9]"
    by (intro n(2) [rule_format]) auto
  with n(1) y(1) show ?thesis by blast
qed

text \<open>
  C37. But a blocking send does not notice that the session halts: once the worker has returned, a
  goroutine that still waits for its message to be sent waits for ever, whatever happens.
\<close>

theorem blocking_caller_stuck_after_halt:
  assumes "sys_reachable K dis g decrypt y" and "0 < MaxEgressQueueSize K"
    and "y_worker y = None" and "y_callers y i = Some (AwaitSent i)"
    and "\<not> answered (s_out (y_session y)) i" and "(sys_step K dis g decrypt)\<^sup>*\<^sup>* y y'"
  shows "y_callers y' i = Some (AwaitSent i) \<and> \<not> answered (s_out (y_session y')) i"
proof -
  have "i \<in> y_used y"
    using sys_reachable_inv [OF assms(1,2)] assms(4) by (auto simp: sys_inv_def session_inv_def callers_ok_def)
  with halted.along [OF assms(6), of i] assms(3-5) show ?thesis by (simp add: stuck_def)
qed

theorem blocking_caller_stuck_after_halt_witness:
  "\<exists>y. example_reach y \<and> y_worker y = None \<and> y_callers y [9, 9] = Some (AwaitSent [9, 9]) \<and>
     \<not> answered (s_out (y_session y)) [9, 9]"
proof -
  obtain y w where y: "example_reach y" "y_callers y [9, 9] = Some (AwaitSent [9, 9])" "y_worker y = Some w"
      "s_out (y_session y) = []"
    using example_blocked by blast
  have N: "0 < MaxEgressQueueSize example_const" by (simp add: example_N)
  have "worker_iteration example_const True (const_rng 7) example_senv 0 WakeHalt (y_rng y, y_session y, w) = Ok None"
    by (simp add: worker_iteration_def)
  from sys_reachable.step [OF y(1) sys_step.worker_halt [OF y(3) this]]
  have h: "example_reach (y\<lparr>y_worker := None\<rparr>)" .
  from blocking_caller_stuck_after_halt [OF h N, of "[9, 9]", OF _ _ _ rtranclp.rtrancl_refl] y h show ?thesis
    by (intro exI [of _ "y\<lparr>y_worker := None\<rparr>"]) simp
qed

text \<open>
  C33. A late reply leaves a goroutine behind: when the reply to a blocking send is handed over and the
  caller's timer fires first, the caller returns, and the goroutine of the connection that runs the
  callback waits for ever for somebody to take the reply.  The connection waits for its callbacks
  before it ends (\<open>cbWg.Wait\<close>), so neither a reconnect nor a shutdown gets past it.
\<close>

theorem late_reply_blocks_callback:
  assumes "sys_reachable K dis g decrypt y" and "0 < MaxEgressQueueSize K"
    and "y_callers y i = Some (AwaitReply i t)" and "(i, p) \<in># y_acks y"
  shows "\<exists>y1. sys_step K dis g decrypt y y1 \<and> y_callers y1 i = None \<and>
    (\<forall>y'. (sys_step K dis g decrypt)\<^sup>*\<^sup>* y1 y' \<longrightarrow> (i, p) \<in># y_acks y')"
proof -
  obtain s' b where b: "BlockingSend_reply i None (y_session y) = (s', b)" by fastforce
  let ?y = "y\<lparr>y_session := s', y_callers := (y_callers y)(i := caller_next b)\<rparr>"
  have step: "sys_step K dis g decrypt y ?y" using sys_step.user [OF user_step.timeout [OF assms(3) b]] .
  have "i \<in> y_used y"
    using sys_reachable_inv [OF assms(1,2)] assms(3) by (auto simp: sys_inv_def session_inv_def callers_ok_def)
  with b assms(4) have st: "ack_stuck ?y i p"
    by (auto simp: ack_stuck_def BlockingSend_reply_def caller_next_def)
  from step late.along [OF _ st] st show ?thesis by (auto simp: ack_stuck_def)
qed

theorem late_reply_blocks_callback_witness:
  "\<exists>y p. example_reach y \<and> y_callers y [9, 9] = None \<and> ([9, 9], p) \<in># y_acks y"
proof -
  obtain y t p where y: "example_reach y" "y_callers y [9, 9] = Some (AwaitReply [9, 9] t)"
      "([9, 9], p) \<in># y_acks y"
    using example_replied by blast
  have "0 < MaxEgressQueueSize example_const" by (simp add: example_N)
  from late_reply_blocks_callback [OF y(1) this y(2,3)] y(1) show ?thesis
    by (blast intro: sys_reachable.step)
qed

end
