(* ===== verification/Meson_Katzenmint.thy ===== *)
theory Meson_Katzenmint
  imports Meson_Types
begin

unbundle bit_operations_syntax

text \<open>
  \<^verbatim>\<open>src/pkiclient/katzenmint.go\<close>: the PKI client that queries the Katzenmint chain through a
  Tendermint light client.  The JSON encoder, the light client, the document and descriptor codec
  (\<^verbatim>\<open>katzenmint-pki\<close>) are third-party code: the fields of \<open>km_env\<close>, an argument of every
  operation.  \<open>Uvarint\<close> and \<open>Varint\<close> of \<^verbatim>\<open>encoding/binary\<close> are modelled, since \<open>GetEpoch\<close>
  decodes the chain's answer with them.  The locale \<open>pki_source\<close> states what the rest of the
  client relies on: a document returned for an epoch is a document of that epoch.
\<close>

section \<open>Variable-length integers (encoding/binary)\<close>

text \<open>\<open>Uvarint\<close>: the loop over the buffer, at index \<open>i\<close>, with shift \<open>s\<close> and value \<open>x\<close> so far.\<close>

fun Uvarint_loop :: "nat \<Rightarrow> nat \<Rightarrow> u64 \<Rightarrow> bytes \<Rightarrow> u64 \<times> int" where
  "Uvarint_loop i s x [] = (0, 0)"
| "Uvarint_loop i s x (b # bs) =
     (if b < 0x80 then
        (if i > 9 \<or> i = 9 \<and> b > 1 then (0, - (int i + 1))
         else (x OR push_bit s (ucast b), int i + 1))
      else Uvarint_loop (Suc i) (s + 7) (x OR push_bit s (ucast (b AND 0x7f))) bs)"

definition Uvarint :: "bytes \<Rightarrow> u64 \<times> int" where
  "Uvarint buf = Uvarint_loop 0 0 0 buf"

definition Varint :: "bytes \<Rightarrow> int \<times> int" where
  "Varint buf = (let (ux, n) = Uvarint buf; x = i64_of_u64 (drop_bit 1 ux)
                 in (if ux AND 1 \<noteq> 0 then - x - 1 else x, n))"

text \<open>The encoders of the same package, which the chain writes its answer with.\<close>

fun PutUvarint :: "nat \<Rightarrow> bytes" where
  "PutUvarint x = (if x \<ge> 128 then (word_of_nat x OR 0x80) # PutUvarint (x div 128)
                   else [word_of_nat x])"

declare PutUvarint.simps [simp del]

definition PutVarint :: "int \<Rightarrow> bytes" where
  "PutVarint x = PutUvarint (nat (if x < 0 then - 2 * x - 1 else 2 * x))"

section \<open>Definitions\<close>

datatype Command = GetEpochCmd | GetConsensusCmd | PublishMixDescriptor

record Query =
  Version :: string
  QEpoch :: u64
  Cmd :: Command
  Payload :: string

record ResponseQuery =
  Code :: u32
  Log :: string
  Value :: bytes
  Height :: int

record ResponseTx =
  CheckTx_Code :: u32
  CheckTx_Log :: string
  DeliverTx_Code :: u32
  DeliverTx_Log :: string

record 'k km_env =
  ProtocolVersion :: string
  EncodeJson :: "Query \<Rightarrow> bytes result"
  ABCIQuery :: "bytes \<Rightarrow> ResponseQuery result"
  VerifyAndParseDocument :: "bytes \<Rightarrow> Document result"
  IsDescriptorWellFormed :: "MixDescriptor \<Rightarrow> u64 \<Rightarrow> go_error option"
  SignDescriptor :: "'k \<Rightarrow> MixDescriptor \<Rightarrow> bytes result"
  FormTransaction :: "Command \<Rightarrow> u64 \<Rightarrow> string \<Rightarrow> 'k \<Rightarrow> bytes result"
  EncodeHex :: "bytes \<Rightarrow> string"
  BroadcastTxCommit :: "bytes \<Rightarrow> ResponseTx result"

definition ErrNoDocument :: go_error where
  "ErrNoDocument = Sentinel ''pki.ErrNoDocument''"

definition ErrInvalidEpoch :: go_error where
  "ErrInvalidEpoch = Sentinel ''s11n.ErrInvalidEpoch''"

definition query :: "'k km_env \<Rightarrow> u64 \<Rightarrow> Command \<Rightarrow> ResponseQuery result" where
  "query env epoch command =
    (let q = \<lparr>Version = ProtocolVersion env, QEpoch = epoch, Cmd = command, Payload = ''''\<rparr> in
     case EncodeJson env q of
       Inl err \<Rightarrow> Inl (Errorf ''failed to encode data: %v'' [ArgE err])
     | Inr data \<Rightarrow>
         (case ABCIQuery env data of
            Inl err \<Rightarrow> Inl (Errorf ''failed to query katzenmint pki: %v'' [ArgE err])
          | Inr resp \<Rightarrow> Inr resp))"

text \<open>\<open>GetEpoch\<close> returns its three named results on every path.\<close>

definition PKIClient_GetEpoch :: "'k km_env \<Rightarrow> u64 \<times> u64 \<times> go_error option" where
  "PKIClient_GetEpoch env =
    (case query env 0 GetEpochCmd of
       Inl err \<Rightarrow> (0, 0, Some err)
     | Inr resp \<Rightarrow>
         if Code resp \<noteq> 0 then (0, 0, Some (Errorf (Log resp) []))
         else if length (Value resp) \<noteq> 16 then
           (0, 0, Some (Errorf ''retrieved epoch information has incorrect format'' []))
         else
           let epoch = fst (Uvarint (take 8 (Value resp)));
               startingHeight = fst (Varint (take 8 (drop 8 (Value resp))))
           in if startingHeight > Height resp then
                (epoch, 0, Some (Errorf
                   ''retrieved starting height is more than the corresponding block height'' []))
              else (epoch, u64_of_i64 (to_i64 (Height resp - startingHeight)), None))"

definition PKIClient_GetDoc :: "'k km_env \<Rightarrow> u64 \<Rightarrow> (Document \<times> bytes) result" where
  "PKIClient_GetDoc env epoch =
    (case query env epoch GetConsensusCmd of
       Inl err \<Rightarrow> Inl err
     | Inr resp \<Rightarrow>
         if Code resp \<noteq> 0 then
           (if Code resp = 0x5 then Inl ErrNoDocument else Inl (Errorf (Log resp) []))
         else
           (case VerifyAndParseDocument env (Value resp) of
              Inl err \<Rightarrow> Inl (Errorf ''failed to extract doc: %v'' [ArgE err])
            | Inr d \<Rightarrow> if Epoch d \<noteq> epoch then Inl ErrInvalidEpoch else Inr (d, Value resp)))"

definition PostTx :: "'k km_env \<Rightarrow> bytes \<Rightarrow> ResponseTx result" where
  "PostTx env tx =
    (case BroadcastTxCommit env tx of
       Inl err \<Rightarrow> Inl err
     | Inr resp \<Rightarrow>
         if CheckTx_Code resp \<noteq> 0 then
           Inl (Errorf ''send transaction failed at checking tx: %v'' [ArgS (CheckTx_Log resp)])
         else if DeliverTx_Code resp \<noteq> 0 then
           Inl (Errorf ''send transaction failed at delivering tx: %v'' [ArgS (DeliverTx_Log resp)])
         else Inr resp)"

definition PKIClient_Post :: "'k km_env \<Rightarrow> u64 \<Rightarrow> 'k \<Rightarrow> MixDescriptor \<Rightarrow> go_error option" where
  "PKIClient_Post env epoch signingKey d =
    (case IsDescriptorWellFormed env d epoch of
       Some err \<Rightarrow> Some err
     | None \<Rightarrow>
         (case SignDescriptor env signingKey d of
            Inl err \<Rightarrow> Some err
          | Inr sig \<Rightarrow>
              (case FormTransaction env PublishMixDescriptor epoch (EncodeHex env sig) signingKey of
                 Inl err \<Rightarrow> Some err
               | Inr tx \<Rightarrow>
                   (case PostTx env tx of Inl err \<Rightarrow> Some err | Inr _ \<Rightarrow> None))))"

definition PKIClient_Deserialize :: "'k km_env \<Rightarrow> bytes \<Rightarrow> Document result" where
  "PKIClient_Deserialize env raw = VerifyAndParseDocument env raw"

text \<open>
  Construction and shutdown.  The database, the light client and the RPC client are third-party
  code, given by the error each constructor returned.  Beside the result stands whether the
  database is left open.
\<close>

record PKIClient =
  pc_light :: bool
  pc_db :: bool

definition NewPKIClient ::
  "go_error option \<Rightarrow> go_error option \<Rightarrow> go_error option \<Rightarrow> bool \<times> PKIClient result" where
  "NewPKIClient dbErr lightErr rpcErr =
    (case dbErr of
       Some err \<Rightarrow> (False, Inl (Errorf ''error opening katzenmint-pki database: %v'' [ArgE err]))
     | None \<Rightarrow>
         (case lightErr of
            Some err \<Rightarrow>
              (True, Inl (Errorf ''error initialization of katzenmint-pki light client: %v'' [ArgE err]))
          | None \<Rightarrow>
              (case rpcErr of
                 Some err \<Rightarrow>
                   (True, Inl (Errorf ''error connection to katzenmint-pki full node: %v'' [ArgE err]))
               | None \<Rightarrow> (True, Inr \<lparr>pc_light = True, pc_db = True\<rparr>))))"

definition NewPKIClientFromLightClient :: "PKIClient result" where
  "NewPKIClientFromLightClient = Inr \<lparr>pc_light = True, pc_db = False\<rparr>"

text \<open>\<open>Close\<close> of a nil database interface panics.\<close>

definition PKIClient_Shutdown :: "PKIClient \<Rightarrow> PKIClient outcome" where
  "PKIClient_Shutdown p =
    (if \<not> pc_db p then Panic ''nil pointer dereference'' else Ok (p\<lparr>pc_light := False, pc_db := False\<rparr>))"

section \<open>The contract of a document source\<close>

locale pki_source =
  fixes getDoc :: "'ctx \<Rightarrow> u64 \<Rightarrow> (Document \<times> bytes) result"
  assumes getDoc_epoch: "getDoc ctx e = Inr (d, raw) \<Longrightarrow> Epoch d = e"

lemma PKIClient_GetDoc_epoch: "PKIClient_GetDoc env e = Inr (d, raw) \<Longrightarrow> Epoch d = e"
  by (auto simp: PKIClient_GetDoc_def split: sum.splits if_splits)

interpretation km: pki_source PKIClient_GetDoc
  by unfold_locales (rule PKIClient_GetDoc_epoch)

section \<open>Decoding the chain's answer\<close>

lemma low7_recombine:
  "(ucast ((word_of_nat x OR 0x80 :: u8) AND 0x7f) :: u64) OR push_bit 7 (word_of_nat (x div 128))
     = word_of_nat x"
proof (rule bit_eqI)
  fix n assume "possible_bit TYPE(u64) n"
  then have n64: "n < 64" by simp
  have "(0x7f :: u8) = mask 7" "(0x80 :: u8) = 2 ^ 7" by (simp_all add: mask_eq_decr_exp)
  then have c: "bit (0x7f :: u8) n \<longleftrightarrow> n < 7" and d: "bit (0x80 :: u8) n \<longleftrightarrow> n = 7"
    by (auto simp only: bit_mask_iff bit_exp_iff) auto
  have "bit (x div 128) (n - 7) = bit x n" if "7 \<le> n"
  proof -
    have "128 * 2 ^ (n - 7) = (2::nat) ^ n" using power_add [of "2::nat" 7 "n - 7"] that by simp
    then show ?thesis by (simp add: bit_iff_odd flip: div_mult2_eq)
  qed
  then show "bit ((ucast ((word_of_nat x OR 0x80 :: u8) AND 0x7f) :: u64) OR push_bit 7 (word_of_nat (x div 128))) n
     = bit (word_of_nat x :: u64) n"
    using n64 c d by (auto simp: bit_or_iff bit_and_iff bit_push_bit_iff bit_ucast_iff
      bit_of_nat_iff)
qed

lemma continuation_byte: "\<not> (word_of_nat x OR 0x80 :: u8) < 0x80"
proof -
  have "(0x80::u8) \<le> word_of_nat x OR 0x80" by (metis le_word_or1)
  then show ?thesis by (simp add: not_less)
qed

lemma Uvarint_loop_PutUvarint:
  "x < 2 ^ (7 * k) \<Longrightarrow> i + k \<le> 9 \<Longrightarrow>
   Uvarint_loop i s acc (PutUvarint x @ rest) =
     (acc OR push_bit s (word_of_nat x), int (i + length (PutUvarint x)))"
proof (induction x arbitrary: i s acc k rule: PutUvarint.induct)
  case (1 x)
  show ?case
  proof (cases "x \<ge> 128")
    case True
    with "1.prems" obtain k' where k: "k = Suc k'" by (cases k) auto
    have "x div 128 < 2 ^ (7 * k')"
      using "1.prems"(1) by (simp add: k power_add less_mult_imp_div_less mult.commute)
    then have "Uvarint_loop (Suc i) (s + 7) acc' (PutUvarint (x div 128) @ rest) =
      (acc' OR push_bit (s + 7) (word_of_nat (x div 128)),
       int (Suc i + length (PutUvarint (x div 128))))" for acc'
      using "1.IH" [OF True] "1.prems"(2) k by simp
    moreover have "push_bit s (ucast ((word_of_nat x OR 0x80 :: u8) AND 0x7f) :: u64) OR
        push_bit (s + 7) (word_of_nat (x div 128)) = push_bit s (word_of_nat x)"
      unfolding push_bit_push_bit [symmetric, of s 7] push_bit_or [symmetric] low7_recombine ..
    ultimately show ?thesis
      using continuation_byte [of x] True
      by (simp add: PutUvarint.simps [of x] or.assoc)
  next
    case False
    then have "(word_of_nat x :: u8) < 0x80" 
      by (simp add: word_less_nat_alt unat_of_nat)
    moreover have "(ucast (word_of_nat x :: u8) :: u64) = word_of_nat x"
      using False by (simp add: unsigned_of_nat take_bit_nat_eq_self)
    moreover have "i \<le> 9" "i = 9 \<longrightarrow> k = 0" using "1.prems"(2) by auto
    ultimately show ?thesis using False "1.prems"
      by (auto simp add: PutUvarint.simps [of x])
  qed
qed

lemma length_PutUvarint: "x < 2 ^ (7 * k) \<Longrightarrow> 0 < k \<Longrightarrow> length (PutUvarint x) \<le> k"
proof (induction x arbitrary: k rule: PutUvarint.induct)
  case (1 x)
  show ?case
  proof (cases "x \<ge> 128")
    case True
    with "1.prems" obtain k' where k: "k = Suc k'" by (cases k) auto
    have lt: "x div 128 < 2 ^ (7 * k')"
      using "1.prems"(1) by (simp add: k power_add less_mult_imp_div_less mult.commute)
    moreover have "0 < k'" using lt True by (cases k') auto
    ultimately show ?thesis using "1.IH" [OF True] True by (simp add: PutUvarint.simps [of x] k)
  next
    case False
    with "1.prems" show ?thesis by (simp add: PutUvarint.simps [of x])
  qed
qed

text \<open>The encoding of \<open>x\<close> in the first bytes of a zeroed buffer of eight bytes.\<close>

definition pad8 :: "bytes \<Rightarrow> bytes" where
  "pad8 bs = bs @ replicate (8 - length bs) 0"

lemma length_pad8: "length bs \<le> 8 \<Longrightarrow> length (pad8 bs) = 8"
  by (simp add: pad8_def)

lemma Uvarint_pad8: "x < 2 ^ 56 \<Longrightarrow> fst (Uvarint (pad8 (PutUvarint x))) = word_of_nat x"
  using Uvarint_loop_PutUvarint [of x 8 0 0 0] by (simp add: Uvarint_def pad8_def)

lemma Varint_pad8:
  assumes "- (2 ^ 55) \<le> x" and "x < 2 ^ 55"
  shows "fst (Varint (pad8 (PutVarint x))) = x"
proof -
  define z where "z = nat (if x < 0 then - 2 * x - 1 else 2 * x)"
  have z: "z < 2 ^ 56" using assms by (simp add: z_def nat_less_iff)
  have u: "fst (Uvarint (pad8 (PutVarint x))) = word_of_nat z"
    using Uvarint_pad8 [OF z] by (simp add: PutVarint_def z_def)
  have half: "i64_of_u64 (drop_bit 1 (word_of_nat z)) = int (z div 2)"
  proof -
    have "uint (word_of_nat z :: u64) = int z"
      using z by (simp add: unsigned_of_nat take_bit_nat_eq_self)
    then have "uint (drop_bit 1 (word_of_nat z :: u64)) = int (z div 2)"
      by (simp only: drop_bit_eq_div power_one_right uint_div zdiv_int) simp
    then show ?thesis using z by (simp add: i64_of_u64_small)
  qed
  have odd: "(word_of_nat z AND 1 :: u64) \<noteq> 0 \<longleftrightarrow> odd z"
    by (simp add: and_one_eq mod_2_eq_odd)
  have v: "fst (Varint (pad8 (PutVarint x))) = (if odd z then - int (z div 2) - 1 else int (z div 2))"
    using u half odd by (simp add: Varint_def split_beta)
  have "int z = (if x < 0 then - 2 * x - 1 else 2 * x)" by (simp add: z_def)
  then have "if x < 0 then odd z \<and> int (z div 2) = - x - 1 else even z \<and> int (z div 2) = x"
    by presburger
  with v show ?thesis by (simp split: if_splits)
qed

lemma Uvarint_loop_unterminated: "\<forall>b \<in> set bs. 0x80 \<le> b \<Longrightarrow> Uvarint_loop i s x bs = (0, 0)"
  by (induction bs arbitrary: i s x) (auto simp: not_less)

section \<open>Properties\<close>

text \<open>
  C24. \<open>GetEpoch\<close> decodes what the chain encodes: when the query answers with code 0 and the
  sixteen bytes holding the varint of the epoch and the zig-zag varint of the starting height,
  it returns that epoch and the number of blocks since the starting height, without error.
\<close>

theorem GetEpoch_decodes:
  assumes "query env 0 GetEpochCmd = Inr resp" and "Code resp = 0"
    and "Value resp = pad8 (PutUvarint e) @ pad8 (PutVarint h)"
    and "e < 2 ^ 56" and "- (2 ^ 55) \<le> h" and "h < 2 ^ 55"
    and "h \<le> Height resp" and "Height resp < 2 ^ 62"
  shows "PKIClient_GetEpoch env = (word_of_nat e, word_of_int (Height resp - h), None)"
proof -
  have z: "nat (if h < 0 then - 2 * h - 1 else 2 * h) < 2 ^ (7 * 8)"
    using assms(5,6) by (simp add: nat_less_iff)
  have l: "length (pad8 (PutUvarint e)) = 8" "length (pad8 (PutVarint h)) = 8"
    using length_PutUvarint [of e 8] assms(4) length_PutUvarint [OF z]
    by (simp_all add: length_pad8 PutVarint_def)
  have r: "to_i64 (Height resp - h) = Height resp - h"
    using assms(5-8) by (intro to_i64_id) (simp add: is_i64_def)
  show ?thesis
    using assms(1-3,7) l Uvarint_pad8 [OF assms(4)] Varint_pad8 [OF assms(5,6)] r
    by (simp add: PKIClient_GetEpoch_def Let_def u64_of_i64_def)
qed

text \<open>An environment that answers every query with the given response.\<close>

definition answer_env :: "ResponseQuery \<Rightarrow> unit km_env" where
  "answer_env resp = \<lparr>ProtocolVersion = ''1'', EncodeJson = (\<lambda>_. Inr []), ABCIQuery = (\<lambda>_. Inr resp),
     VerifyAndParseDocument = (\<lambda>b. Inr (empty_doc 5)), IsDescriptorWellFormed = (\<lambda>_ _. None),
     SignDescriptor = (\<lambda>_ _. Inr []), FormTransaction = (\<lambda>_ _ _ _. Inr []), EncodeHex = (\<lambda>_. []),
     BroadcastTxCommit = (\<lambda>_. Inl (ExtError ''offline''))\<rparr>"

lemma query_answer_env [simp]: "query (answer_env resp) e c = Inr resp"
  by (simp add: query_def answer_env_def Let_def)

theorem GetEpoch_decodes_witness:
  "PKIClient_GetEpoch (answer_env \<lparr>Code = 0, Log = [],
     Value = pad8 (PutUvarint 300) @ pad8 (PutVarint 1000), Height = 1007\<rparr>) = (300, 7, None)"
  using GetEpoch_decodes [of "answer_env \<lparr>Code = 0, Log = [],
     Value = pad8 (PutUvarint 300) @ pad8 (PutVarint 1000), Height = 1007\<rparr>" _ 300 1000]
  by simp

text \<open>
  \<open>GetEpoch\<close> ignores the byte counts that \<open>Uvarint\<close> and \<open>Varint\<close> return: sixteen bytes that
  hold no terminated varint are reported as epoch 0 with the whole height elapsed, and no error.
\<close>

lemma GetEpoch_undecodable_is_epoch_zero:
  assumes "query env 0 GetEpochCmd = Inr resp" and "Code resp = 0" and "length (Value resp) = 16"
    and "\<forall>b \<in> set (Value resp). 0x80 \<le> b" and "0 \<le> Height resp" and "Height resp < 2 ^ 63"
  shows "PKIClient_GetEpoch env = (0, word_of_int (Height resp), None)"
proof -
  have t: "\<forall>b \<in> set (take 8 (Value resp)). 0x80 \<le> b" using assms(4) in_set_takeD by fast
  have d: "\<forall>b \<in> set (take 8 (drop 8 (Value resp))). 0x80 \<le> b"
    using assms(4) in_set_takeD in_set_dropD by fast
  have u: "Uvarint (take 8 (Value resp)) = (0, 0)" "Varint (take 8 (drop 8 (Value resp))) = (0, 0)"
    using Uvarint_loop_unterminated [OF t] Uvarint_loop_unterminated [OF d]
    by (simp_all add: Uvarint_def Varint_def i64_of_u64_def to_i64_def)
  have "to_i64 (Height resp) = Height resp"
    using assms(5,6) by (intro to_i64_id) (simp add: is_i64_def)
  with assms u show ?thesis by (simp add: PKIClient_GetEpoch_def Let_def u64_of_i64_def)
qed

text \<open>
  \<open>GetDoc\<close> succeeds exactly when the query succeeds with code 0 and the answer parses to a
  document of the requested epoch (a document of another epoch is refused); code 5, and only it,
  is the hard failure \<open>ErrNoDocument\<close>.
\<close>

lemma GetDoc_correct:
  "(PKIClient_GetDoc env epoch = Inr (d, raw) \<longleftrightarrow>
     (\<exists>resp. query env epoch GetConsensusCmd = Inr resp \<and> Code resp = 0 \<and>
        VerifyAndParseDocument env (Value resp) = Inr d \<and> Epoch d = epoch \<and> raw = Value resp)) \<and>
   (PKIClient_GetDoc env epoch = Inl ErrNoDocument \<longleftrightarrow>
     (\<exists>resp. query env epoch GetConsensusCmd = Inr resp \<and> Code resp = 5))"
  by (auto simp: PKIClient_GetDoc_def query_def Let_def ErrNoDocument_def ErrInvalidEpoch_def
      split: sum.splits if_splits)

text \<open>
  \<open>Post\<close> reports success only when the descriptor is well formed, was signed and wrapped in a
  publish transaction, and the chain accepted that transaction both when checking and when
  delivering it.
\<close>

lemma Post_success:
  "PKIClient_Post env epoch key d = None \<longleftrightarrow>
    IsDescriptorWellFormed env d epoch = None \<and>
    (\<exists>sig tx resp. SignDescriptor env key d = Inr sig \<and>
       FormTransaction env PublishMixDescriptor epoch (EncodeHex env sig) key = Inr tx \<and>
       BroadcastTxCommit env tx = Inr resp \<and> CheckTx_Code resp = 0 \<and> DeliverTx_Code resp = 0)"
  by (auto simp: PKIClient_Post_def PostTx_def split: option.splits sum.splits if_splits)

end
