(* ===== verification/Meson_Cache.thy ===== *)
theory Meson_Cache
  imports Meson_Katzenmint Meson_Epochtime
begin

text \<open>
  \<^verbatim>\<open>src/pkiclient/cache.go\<close>: the caching PKI client.  The documents live in a
  \<^verbatim>\<open>container/list\<close> ordered by use, whose elements the map \<open>docs\<close> points to by epoch.  A list
  element is its identity (a number, as the pointer would be) with the entry it holds; the front
  of the list is the head.  \<open>fetchQueue\<close> holds the operations waiting for the worker.  The backing
  client is the argument \<open>impl\<close>; its context argument is opaque.

  The worker is the only goroutine that inserts, and it looks the epoch up again before it
  fetches: that, and the epoch law of the backing client (locale \<open>pki_source\<close>), keep the map and
  the list in step.
\<close>

section \<open>Definitions\<close>

definition errNotSupported :: go_error where
  "errNotSupported = Sentinel ''pkiclient: operation not supported''"

definition errHalted :: go_error where
  "errHalted = Sentinel ''pkiclient: client was halted''"

definition fetchBacklog :: nat where "fetchBacklog = 8"
definition lruMaxSize :: nat where "lruMaxSize = 8"
definition epochRetrieveInterval :: int where "epochRetrieveInterval = 3 * Second"

record cacheEntry =
  ce_raw :: bytes
  ce_doc :: Document

text \<open>\<open>*list.Element\<close>: its identity and the value it holds.\<close>

type_synonym element = "nat \<times> cacheEntry"

text \<open>
  \<open>*time.Timer\<close>: nil before the worker creates it, running with a duration, fired with the tick
  still in its channel, or idle after the tick was received.
\<close>

datatype timer = TimerNil | TimerRunning int | TimerFired | TimerIdle

record 'ctx fetchOp =
  op_ctx :: 'ctx
  op_epoch :: u64
  op_doneCh :: nat

record 'ctx Cache =
  c_docs :: "u64 \<rightharpoonup> element"
  c_lru :: "element list"
  c_nextElem :: nat
  c_timer :: timer
  memEpoch :: u64
  memHeight :: u64
  fetchQueue :: "'ctx fetchOp list"
  c_halted :: bool

text \<open>What is sent on an operation's \<open>doneCh\<close>.\<close>

datatype reply = ReplyErr go_error | ReplyEntry cacheEntry

definition NewCacheClient :: "'ctx Cache" where
  "NewCacheClient = \<lparr>c_docs = Map.empty, c_lru = [], c_nextElem = 0, c_timer = TimerNil,
     memEpoch = 0, memHeight = 0, fetchQueue = [], c_halted = False\<rparr>"

text \<open>\<^verbatim>\<open>container/list\<close>: \<open>MoveToFront\<close> and \<open>Remove\<close> of an element by identity.\<close>

definition list_remove :: "nat \<Rightarrow> element list \<Rightarrow> element list" where
  "list_remove e xs = filter (\<lambda>x. fst x \<noteq> e) xs"

definition MoveToFront :: "nat \<Rightarrow> element list \<Rightarrow> element list" where
  "MoveToFront e xs = (case find (\<lambda>x. fst x = e) xs of
     None \<Rightarrow> xs | Some x \<Rightarrow> x # list_remove e xs)"

definition cacheGet :: "'ctx Cache \<Rightarrow> u64 \<Rightarrow> 'ctx Cache \<times> cacheEntry option" where
  "cacheGet c ep =
    (case c_docs c ep of
       None \<Rightarrow> (c, None)
     | Some (e, d) \<Rightarrow> (c\<lparr>c_lru := MoveToFront e (c_lru c)\<rparr>, Some d))"

text \<open>The purge loop: while the list is too long, drop its back element and its map entry.\<close>

function purge ::
  "(u64 \<rightharpoonup> element) \<Rightarrow> element list \<Rightarrow> (u64 \<rightharpoonup> element) \<times> element list" where
  "purge ds xs =
    (if length xs > lruMaxSize then
       (let (e, d) = last xs in purge (ds(Epoch (ce_doc d) := None)) (list_remove e xs))
     else (ds, xs))"
  by pat_completeness auto
termination
proof (relation "measure (\<lambda>(ds, xs). length xs)")
  show "wf (measure (\<lambda>(ds, xs). length xs))" by simp
next
  fix ds :: "u64 \<rightharpoonup> element" and xs :: "element list" and x e d
  assume "lruMaxSize < length xs" and x: "x = last xs" "(e, d) = x"
  then have "(e, d) \<in> set xs" by (metis last_in_set length_0_conv not_less0)
  then have "length (list_remove e xs) < length xs"
    by (auto simp: list_remove_def intro: length_filter_less)
  then show "((ds(Epoch (ce_doc d) := None), list_remove e xs), (ds, xs)) \<in> measure (\<lambda>(ds, xs). length xs)"
    by simp
qed

declare purge.simps [simp del]

definition insertLRU :: "'ctx Cache \<Rightarrow> cacheEntry \<Rightarrow> 'ctx Cache" where
  "insertLRU c newEntry =
    (let e = (c_nextElem c, newEntry);
         l = e # c_lru c;
         ds = (c_docs c)(Epoch (ce_doc newEntry) \<mapsto> e);
         (ds', l') = purge ds l
     in c\<lparr>c_docs := ds', c_lru := l', c_nextElem := Suc (c_nextElem c)\<rparr>)"

text \<open>The worker's handling of one operation: the new state and what it sends on \<open>doneCh\<close>.\<close>

definition worker_fetch ::
  "('ctx \<Rightarrow> u64 \<Rightarrow> (Document \<times> bytes) result) \<Rightarrow> 'ctx Cache \<Rightarrow> 'ctx fetchOp \<Rightarrow>
   'ctx Cache \<times> reply" where
  "worker_fetch impl c op =
    (case cacheGet c (op_epoch op) of
       (c1, Some d) \<Rightarrow> (c1, ReplyEntry d)
     | (c1, None) \<Rightarrow>
         (case impl (op_ctx op) (op_epoch op) of
            Inl err \<Rightarrow> (c1, ReplyErr err)
          | Inr (d, rw) \<Rightarrow>
              let e = \<lparr>ce_raw = rw, ce_doc = d\<rparr> in (insertLRU c1 e, ReplyEntry e)))"

text \<open>
  One round of the worker: it returns when halted, takes the first queued operation when there
  is one, and blocks otherwise (\<open>None\<close>).
\<close>

definition worker_round ::
  "('ctx \<Rightarrow> u64 \<Rightarrow> (Document \<times> bytes) result) \<Rightarrow> 'ctx Cache \<Rightarrow>
   ('ctx Cache \<times> (nat \<times> reply) list) option" where
  "worker_round impl c =
    (if c_halted c then None
     else case fetchQueue c of
       [] \<Rightarrow> None
     | op # rest \<Rightarrow>
         (case worker_fetch impl (c\<lparr>fetchQueue := rest\<rparr>) op of
            (c', r) \<Rightarrow> Some (c', [(op_doneCh op, r)])))"

text \<open>The worker goroutine first creates the timer.\<close>

definition worker_start :: "'ctx Cache \<Rightarrow> 'ctx Cache" where
  "worker_start c = c\<lparr>c_timer := TimerRunning 0\<rparr>"

text \<open>
  \<open>GetDoc\<close> up to the point where it returns (fast path) or has queued its operation; \<open>None\<close> when
  the queue is full and the send blocks.
\<close>

definition GetDoc_call ::
  "'ctx Cache \<Rightarrow> 'ctx \<Rightarrow> u64 \<Rightarrow> nat \<Rightarrow> ('ctx Cache \<times> (Document \<times> bytes) option) option" where
  "GetDoc_call c cx ep ch =
    (case cacheGet c ep of
       (c1, Some d) \<Rightarrow> Some (c1, Some (ce_doc d, ce_raw d))
     | (c1, None) \<Rightarrow>
         if length (fetchQueue c1) < fetchBacklog
         then Some (c1\<lparr>fetchQueue := fetchQueue c1 @ [\<lparr>op_ctx = cx, op_epoch = ep, op_doneCh = ch\<rparr>]\<rparr>, None)
         else None)"

text \<open>What \<open>GetDoc\<close> returns for the value it receives on \<open>doneCh\<close>.\<close>

fun GetDoc_return :: "reply \<Rightarrow> (Document \<times> bytes) result" where
  "GetDoc_return (ReplyErr r) = Inl r"
| "GetDoc_return (ReplyEntry e) = Inr (ce_doc e, ce_raw e)"

text \<open>A whole \<open>GetDoc\<close> call of a client whose operation the worker takes next.\<close>

definition Cache_GetDoc ::
  "('ctx \<Rightarrow> u64 \<Rightarrow> (Document \<times> bytes) result) \<Rightarrow> 'ctx Cache \<Rightarrow> 'ctx \<Rightarrow> u64 \<Rightarrow>
   'ctx Cache \<times> (Document \<times> bytes) result" where
  "Cache_GetDoc impl c cx ep =
    (case cacheGet c ep of
       (c1, Some d) \<Rightarrow> (c1, Inr (ce_doc d, ce_raw d))
     | (c1, None) \<Rightarrow>
         (case worker_fetch impl c1 \<lparr>op_ctx = cx, op_epoch = ep, op_doneCh = 0\<rparr> of
            (c2, r) \<Rightarrow> (c2, GetDoc_return r)))"

text \<open>The runtime fires a running timer.\<close>

definition timer_fire :: "'ctx Cache \<Rightarrow> 'ctx Cache" where
  "timer_fire c = (case c_timer c of
     TimerRunning _ \<Rightarrow> c\<lparr>c_timer := TimerFired\<rparr> | _ \<Rightarrow> c)"

text \<open>
  \<open>GetEpoch\<close>, in the two steps between which other goroutines can run: the \<open>select\<close> either
  returns the remembered epoch or takes the tick (\<open>None\<close>: the backing client must be asked; its
  answer is the argument of the second step).  Reading the channel of a nil timer panics.
\<close>

definition GetEpoch_select :: "'ctx Cache \<Rightarrow> ('ctx Cache \<times> epoch_info option) outcome" where
  "GetEpoch_select c =
    (case c_timer c of
       TimerNil \<Rightarrow> Panic ''nil pointer dereference''
     | TimerFired \<Rightarrow> Ok (c\<lparr>c_timer := TimerIdle\<rparr>, None)
     | _ \<Rightarrow> Ok (c, Some (memEpoch c, memHeight c, None)))"

definition GetEpoch_retrieved :: "'ctx Cache \<Rightarrow> epoch_info \<Rightarrow> 'ctx Cache \<times> epoch_info" where
  "GetEpoch_retrieved c r =
    (case r of (ep, ellapsedHeight, err) \<Rightarrow>
       if err = None
       then (c\<lparr>memEpoch := ep, memHeight := ellapsedHeight,
               c_timer := TimerRunning epochRetrieveInterval\<rparr>, r)
       else (c\<lparr>c_timer := TimerRunning 0\<rparr>, r))"

definition Cache_GetEpoch :: "'ctx Cache \<Rightarrow> epoch_info \<Rightarrow> ('ctx Cache \<times> epoch_info) outcome" where
  "Cache_GetEpoch c impl =
    obind (GetEpoch_select c) (\<lambda>(c', r). case r of
      Some info \<Rightarrow> Ok (c', info)
    | None \<Rightarrow> Ok (GetEpoch_retrieved c' impl))"

text \<open>
  \<open>Halt\<close> stops the worker, which stops its timer when it returns (a tick that is already in the
  channel stays there), and answers every queued operation.
\<close>

definition timer_stop :: "timer \<Rightarrow> timer" where
  "timer_stop t = (case t of TimerFired \<Rightarrow> TimerFired | _ \<Rightarrow> TimerIdle)"

definition Cache_Halt :: "'ctx Cache \<Rightarrow> 'ctx Cache \<times> (nat \<times> reply) list" where
  "Cache_Halt c = (c\<lparr>c_halted := True, c_timer := timer_stop (c_timer c), fetchQueue := []\<rparr>,
     map (\<lambda>op. (op_doneCh op, ReplyErr errHalted)) (fetchQueue c))"

definition Cache_Post :: "'ctx Cache \<Rightarrow> go_error option" where
  "Cache_Post c = Some errNotSupported"

text \<open>
  The whole client as a transition system: calls of clients, rounds of the worker, the timer, and
  \<open>Halt\<close>, in any order.
\<close>

inductive cache_step ::
  "('ctx \<Rightarrow> u64 \<Rightarrow> (Document \<times> bytes) result) \<Rightarrow> 'ctx Cache \<Rightarrow> 'ctx Cache \<Rightarrow> bool"
  for impl where
  call: "GetDoc_call c cx ep ch = Some (c', r) \<Longrightarrow> cache_step impl c c'"
| round: "worker_round impl c = Some (c', rs) \<Longrightarrow> cache_step impl c c'"
| start: "cache_step impl c (worker_start c)"
| fire: "cache_step impl c (timer_fire c)"
| select: "GetEpoch_select c = Ok (c', r) \<Longrightarrow> cache_step impl c c'"
| retrieved: "GetEpoch_retrieved c info = (c', info') \<Longrightarrow> cache_step impl c c'"
| halt: "Cache_Halt c = (c', rs) \<Longrightarrow> cache_step impl c c'"

inductive cache_reachable ::
  "('ctx \<Rightarrow> u64 \<Rightarrow> (Document \<times> bytes) result) \<Rightarrow> 'ctx Cache \<Rightarrow> bool"
  for impl where
  init: "cache_reachable impl NewCacheClient"
| step: "cache_reachable impl c \<Longrightarrow> cache_step impl c c' \<Longrightarrow> cache_reachable impl c'"

section \<open>The invariant and the specification\<close>

abbreviation entry_epoch :: "cacheEntry \<Rightarrow> u64" where
  "entry_epoch d \<equiv> Epoch (ce_doc d)"

definition lru_ok :: "(u64 \<rightharpoonup> element) \<Rightarrow> element list \<Rightarrow> bool" where
  "lru_ok ds xs \<longleftrightarrow>
     distinct (map fst xs) \<and> distinct (map (entry_epoch \<circ> snd) xs) \<and>
     (\<forall>ep x. ds ep = Some x \<longleftrightarrow> x \<in> set xs \<and> entry_epoch (snd x) = ep)"

definition cache_inv :: "'ctx Cache \<Rightarrow> bool" where
  "cache_inv c \<longleftrightarrow> lru_ok (c_docs c) (c_lru c) \<and> (\<forall>x \<in> set (c_lru c). fst x < c_nextElem c) \<and>
     length (c_lru c) \<le> lruMaxSize"

text \<open>The specification: a list of entries, most recently used first, of bounded length.\<close>

definition cached :: "'ctx Cache \<Rightarrow> cacheEntry list" where
  "cached c = map snd (c_lru c)"

definition spec_get :: "cacheEntry list \<Rightarrow> u64 \<Rightarrow> cacheEntry list \<times> cacheEntry option" where
  "spec_get xs ep = (case find (\<lambda>d. entry_epoch d = ep) xs of
     None \<Rightarrow> (xs, None)
   | Some d \<Rightarrow> (d # filter (\<lambda>d. entry_epoch d \<noteq> ep) xs, Some d))"

definition spec_insert :: "cacheEntry list \<Rightarrow> cacheEntry \<Rightarrow> cacheEntry list" where
  "spec_insert xs d = take lruMaxSize (d # xs)"

section \<open>The list and the map stay in step\<close>

lemma list_remove_last:
  assumes "distinct (map fst xs)" and "xs \<noteq> []"
  shows "list_remove (fst (last xs)) xs = butlast xs"
proof -
  obtain ys y where xs: "xs = ys @ [y]" using assms(2) by (metis append_butlast_last_id)
  with assms(1) have "\<forall>x \<in> set ys. fst x \<noteq> fst y" by (metis (no_types) distinct_append
      disjoint_insert(1) image_eqI list.set_map list.simps(9) map_append list.simps(15))
  with xs show ?thesis by (simp add: list_remove_def)
qed

lemma lru_ok_elem: "lru_ok ds xs \<Longrightarrow> x \<in> set xs \<Longrightarrow> ds (entry_epoch (snd x)) = Some x"
  unfolding lru_ok_def by blast

lemma lru_ok_inj: "lru_ok ds xs \<Longrightarrow> x \<in> set xs \<Longrightarrow> y \<in> set xs \<Longrightarrow>
    entry_epoch (snd x) = entry_epoch (snd y) \<Longrightarrow> x = y"
  by (metis lru_ok_elem option.inject)

lemma lru_ok_id_inj: "lru_ok ds xs \<Longrightarrow> x \<in> set xs \<Longrightarrow> y \<in> set xs \<Longrightarrow> fst x = fst y \<Longrightarrow> x = y"
  unfolding lru_ok_def by (metis eq_key_imp_eq_value prod.collapse)

lemma lru_ok_butlast:
  assumes ok: "lru_ok ds xs" and ne: "xs \<noteq> []"
  shows "lru_ok (ds(entry_epoch (snd (last xs)) := None)) (butlast xs)"
proof -
  obtain ys y where xs: "xs = ys @ [y]" using ne by (metis append_butlast_last_id)
  have d: "entry_epoch (snd y) \<notin> (entry_epoch \<circ> snd) ` set ys"
    using ok by (simp add: lru_ok_def xs)
  show ?thesis
    using ok d unfolding lru_ok_def xs by (auto simp: image_iff simp del: split_paired_All)
qed

lemma lru_ok_Cons:
  assumes ok: "lru_ok ds xs" and id: "fst e \<notin> fst ` set xs"
    and ep: "\<And>x. x \<in> set xs \<Longrightarrow> entry_epoch (snd x) \<noteq> entry_epoch (snd e)"
  shows "lru_ok (ds(entry_epoch (snd e) \<mapsto> e)) (e # xs)"
proof -
  have "(entry_epoch \<circ> snd) e \<notin> (entry_epoch \<circ> snd) ` set xs"
    using ep unfolding image_iff comp_apply by metis
  moreover have "(ds(entry_epoch (snd e) \<mapsto> e)) k = Some x \<longleftrightarrow>
      x \<in> set (e # xs) \<and> entry_epoch (snd x) = k" for k x
    using ok ep [of x] by (auto simp: lru_ok_def simp del: split_paired_All)
  ultimately show ?thesis
    using ok id unfolding lru_ok_def by (simp only: list.map distinct.simps set_map) blast
qed

lemma purge_take: "lru_ok ds xs \<Longrightarrow> \<exists>ds'. purge ds xs = (ds', take lruMaxSize xs) \<and>
    lru_ok ds' (take lruMaxSize xs)"
proof (induction ds xs rule: purge.induct)
  case (1 ds xs)
  show ?case
  proof (cases "length xs > lruMaxSize")
    case True
    then have ne: "xs \<noteq> []" by auto
    have "distinct (map fst xs)" using "1.prems" by (simp add: lru_ok_def)
    note rem = list_remove_last [OF this ne]
    have tk: "take lruMaxSize (butlast xs) = take lruMaxSize xs"
      using True by (simp add: take_butlast)
    obtain e d where ed: "last xs = (e, d)" by (cases "last xs")
    have "\<exists>ds'. purge (ds(entry_epoch d := None)) (butlast xs) = (ds', take lruMaxSize xs) \<and>
        lru_ok ds' (take lruMaxSize xs)"
      using "1.IH" [OF True refl ed [symmetric]] lru_ok_butlast [OF "1.prems" ne] rem tk ed
      by (simp del: fun_upd_apply)
    with True rem ed show ?thesis by (subst purge.simps) simp
  next
    case False
    with "1.prems" show ?thesis by (subst purge.simps) simp
  qed
qed

lemma MoveToFront_elem:
  assumes ok: "lru_ok ds xs" and x: "x \<in> set xs"
  shows "MoveToFront (fst x) xs = x # filter (\<lambda>y. entry_epoch (snd y) \<noteq> entry_epoch (snd x)) xs"
proof -
  have "find (\<lambda>y. fst y = fst x) xs = Some x"
    using x lru_ok_id_inj [OF ok _ x] by (intro find_unique) simp_all
  moreover have "filter (\<lambda>y. fst y \<noteq> fst x) xs =
      filter (\<lambda>y. entry_epoch (snd y) \<noteq> entry_epoch (snd x)) xs"
    using lru_ok_id_inj [OF ok _ x] lru_ok_inj [OF ok _ x] by (intro filter_cong) metis+
  ultimately show ?thesis by (simp add: MoveToFront_def list_remove_def)
qed

lemma lru_ok_MoveToFront:
  assumes ok: "lru_ok ds xs" and x: "x \<in> set xs"
  shows "lru_ok ds (MoveToFront (fst x) xs)" and "set (MoveToFront (fst x) xs) = set xs"
    and "length (MoveToFront (fst x) xs) = length xs"
proof -
  let ?ys = "filter (\<lambda>y. entry_epoch (snd y) \<noteq> entry_epoch (snd x)) xs"
  note mv = MoveToFront_elem [OF ok x]
  have st: "set (x # ?ys) = set xs" using lru_ok_inj [OF ok _ x] x by auto
  have "distinct (map fst ?ys)" "distinct (map (entry_epoch \<circ> snd) ?ys)"
    using ok by (simp_all add: lru_ok_def distinct_map_filter)
  moreover have "fst x \<notin> fst ` set ?ys" using lru_ok_id_inj [OF ok _ x] by auto
  moreover have "(entry_epoch \<circ> snd) x \<notin> (entry_epoch \<circ> snd) ` set ?ys" by auto
  moreover have "\<forall>ep y. ds ep = Some y \<longleftrightarrow> y \<in> set (x # ?ys) \<and> entry_epoch (snd y) = ep"
    using ok unfolding st lru_ok_def by blast
  ultimately have ok': "lru_ok ds (x # ?ys)"
    unfolding lru_ok_def by (simp only: list.map distinct.simps set_map) simp
  have "length (x # ?ys) = length xs"
    using distinct_card [of "x # ?ys"] distinct_card [of xs] ok ok' st
    unfolding lru_ok_def distinct_map by metis
  with ok' st mv show "lru_ok ds (MoveToFront (fst x) xs)"
    "set (MoveToFront (fst x) xs) = set xs" "length (MoveToFront (fst x) xs) = length xs"
    by simp_all
qed

section \<open>Refinement of the list specification\<close>

lemma cacheGet_refines:
  assumes inv: "cache_inv c" and get: "cacheGet c ep = (c', r)"
  shows "cache_inv c'" and "(cached c', r) = spec_get (cached c) ep"
    and "c' = c\<lparr>c_lru := c_lru c'\<rparr>"
proof -
  have ok: "lru_ok (c_docs c) (c_lru c)" using inv by (simp add: cache_inv_def)
  have "cache_inv c' \<and> (cached c', r) = spec_get (cached c) ep \<and> c' = c\<lparr>c_lru := c_lru c'\<rparr>"
  proof (cases "c_docs c ep")
    case None
    have "x \<in> set (c_lru c) \<Longrightarrow> entry_epoch (snd x) \<noteq> ep" for x
      using lru_ok_elem [OF ok, of x] None by auto
    then have "find (\<lambda>d. entry_epoch d = ep) (cached c) = None"
      by (auto simp: find_None_iff cached_def)
    with get None inv show ?thesis by (simp add: cacheGet_def spec_get_def)
  next
    case (Some x)
    have x: "x \<in> set (c_lru c)" "entry_epoch (snd x) = ep"
      using ok Some unfolding lru_ok_def by blast+
    have c': "c' = c\<lparr>c_lru := MoveToFront (fst x) (c_lru c)\<rparr>" "r = Some (snd x)"
      using get Some by (auto simp: cacheGet_def split_beta)
    have "find (\<lambda>d. entry_epoch d = ep) (cached c) = Some (snd x)"
    proof (rule find_unique)
      show "snd x \<in> set (cached c)" using x(1) by (simp add: cached_def)
      show "\<forall>d \<in> set (cached c). entry_epoch d = ep \<longrightarrow> d = snd x"
      proof (intro ballI impI)
        fix d assume "d \<in> set (cached c)" and d: "entry_epoch d = ep"
        then obtain y where y: "y \<in> set (c_lru c)" "d = snd y" by (auto simp: cached_def)
        with lru_ok_inj [OF ok y(1) x(1)] d x(2) show "d = snd x" by simp
      qed
    qed (rule x(2))
    then have "(cached c', r) = spec_get (cached c) ep"
      using c' MoveToFront_elem [OF ok x(1)] x(2)
      by (simp add: spec_get_def cached_def filter_map o_def)
    with c' lru_ok_MoveToFront [OF ok x(1)] inv show ?thesis by (simp add: cache_inv_def)
  qed
  then show "cache_inv c'" "(cached c', r) = spec_get (cached c) ep" "c' = c\<lparr>c_lru := c_lru c'\<rparr>"
    by blast+
qed

lemma insertLRU_refines:
  assumes inv: "cache_inv c" and new: "c_docs c (entry_epoch d) = None"
  shows "cache_inv (insertLRU c d)" and "cached (insertLRU c d) = spec_insert (cached c) d"
proof -
  have ok: "lru_ok (c_docs c) (c_lru c)" using inv by (simp add: cache_inv_def)
  let ?e = "(c_nextElem c, d)"
  have "fst ?e \<notin> fst ` set (c_lru c)" using inv by (force simp: cache_inv_def)
  moreover have "entry_epoch (snd x) \<noteq> entry_epoch d" if "x \<in> set (c_lru c)" for x
    using lru_ok_elem [OF ok that] new by auto
  ultimately have ok1: "lru_ok ((c_docs c)(entry_epoch d \<mapsto> ?e)) (?e # c_lru c)"
    using lru_ok_Cons [OF ok, of ?e] by simp
  then obtain ds' where p: "purge ((c_docs c)(entry_epoch d \<mapsto> ?e)) (?e # c_lru c) =
      (ds', take lruMaxSize (?e # c_lru c))" "lru_ok ds' (take lruMaxSize (?e # c_lru c))"
    using purge_take by blast
  have ins: "insertLRU c d = c\<lparr>c_docs := ds', c_lru := take lruMaxSize (?e # c_lru c),
      c_nextElem := Suc (c_nextElem c)\<rparr>"
    using p(1) by (simp add: insertLRU_def Let_def del: fun_upd_apply)
  have "x \<in> set (take lruMaxSize (?e # c_lru c)) \<Longrightarrow> fst x < Suc (c_nextElem c)" for x
    using inv by (auto simp: cache_inv_def less_SucI dest!: in_set_takeD)
  with p(2) show "cache_inv (insertLRU c d)" by (simp add: ins cache_inv_def)
  show "cached (insertLRU c d) = spec_insert (cached c) d"
    by (simp add: ins cached_def spec_insert_def flip: take_map)
qed

lemma cache_inv_frame [simp]:
  "cache_inv (c\<lparr>fetchQueue := q\<rparr>) = cache_inv c" "cache_inv (c\<lparr>c_timer := t\<rparr>) = cache_inv c"
  "cache_inv (c\<lparr>memEpoch := m\<rparr>) = cache_inv c" "cache_inv (c\<lparr>memHeight := m\<rparr>) = cache_inv c"
  "cache_inv (c\<lparr>c_halted := h\<rparr>) = cache_inv c"
  by (simp_all add: cache_inv_def)

lemma cacheGet_miss: "cacheGet c ep = (c', None) \<Longrightarrow> c' = c \<and> c_docs c ep = None"
  by (auto simp: cacheGet_def split: option.splits prod.splits)

lemma cacheGet_hit:
  assumes "cache_inv c" and "cacheGet c ep = (c', Some d)"
  shows "entry_epoch d = ep \<and> d \<in> set (cached c)"
proof -
  have "snd (spec_get (cached c) ep) = Some d"
    using cacheGet_refines(2) [OF assms] by (metis snd_conv)
  then have "find (\<lambda>d. entry_epoch d = ep) (cached c) = Some d"
    by (auto simp: spec_get_def split: option.splits)
  then show ?thesis by (auto simp: find_Some_iff)
qed

section \<open>A cached document source is a document source\<close>

text \<open>
  The contract of a document source that keeps state: an invariant that every fetch keeps, under
  which the returned document is a document of the requested epoch.
\<close>

locale stateful_pki_source =
  fixes inv :: "'s \<Rightarrow> bool"
    and getDocS :: "'s \<Rightarrow> 'ctx \<Rightarrow> u64 \<Rightarrow> 's \<times> (Document \<times> bytes) result"
  assumes getDocS_inv: "inv s \<Longrightarrow> getDocS s cx e = (s', r) \<Longrightarrow> inv s'"
    and getDocS_epoch: "inv s \<Longrightarrow> getDocS s cx e = (s', Inr (d, rw)) \<Longrightarrow> Epoch d = e"

definition served :: "('ctx \<Rightarrow> u64 \<Rightarrow> (Document \<times> bytes) result) \<Rightarrow> 'ctx Cache \<Rightarrow> bool" where
  "served impl c \<longleftrightarrow> (\<forall>d \<in> set (cached c). \<exists>cx. impl cx (entry_epoch d) = Inr (ce_doc d, ce_raw d))"

context pki_source
begin

lemma worker_fetch_cases:
  assumes inv: "cache_inv c" and wf: "worker_fetch getDoc c op = (c', r)"
  obtains (hit) d where "cacheGet c (op_epoch op) = (c', Some d)" "r = ReplyEntry d"
  | (error) e where "c' = c" "r = ReplyErr e" "getDoc (op_ctx op) (op_epoch op) = Inl e"
  | (fetched) d where "c_docs c (entry_epoch d) = None" "c' = insertLRU c d" "r = ReplyEntry d"
      "getDoc (op_ctx op) (op_epoch op) = Inr (ce_doc d, ce_raw d)" "entry_epoch d = op_epoch op"
proof (cases "cacheGet c (op_epoch op)")
  case (Pair c1 g)
  show thesis
  proof (cases g)
    case (Some d)
    with Pair wf hit show thesis by (auto simp: worker_fetch_def)
  next
    case None
    with cacheGet_miss Pair have c1: "c1 = c" "c_docs c (op_epoch op) = None" by blast+
    show thesis
    proof (cases "getDoc (op_ctx op) (op_epoch op)")
      case (Inl e)
      with Pair None c1 wf error show thesis by (auto simp: worker_fetch_def)
    next
      case (Inr p)
      obtain d rw where p: "p = (d, rw)" by (cases p)
      with Inr getDoc_epoch have "Epoch d = op_epoch op" by blast
      with Pair None c1 wf Inr p fetched [of "\<lparr>ce_raw = rw, ce_doc = d\<rparr>"] show thesis
        by (auto simp: worker_fetch_def Let_def)
    qed
  qed
qed

lemma worker_fetch_inv:
  assumes "cache_inv c" and "worker_fetch getDoc c op = (c', r)"
  shows "cache_inv c' \<and> (\<forall>d. r = ReplyEntry d \<longrightarrow> entry_epoch d = op_epoch op)"
  using assms
proof (cases rule: worker_fetch_cases)
  case (hit d)
  with cacheGet_refines(1) [OF assms(1)] cacheGet_hit [OF assms(1)] show ?thesis by auto
next
  case (error e)
  with assms(1) show ?thesis by simp
next
  case (fetched d)
  with insertLRU_refines(1) [OF assms(1)] show ?thesis by auto
qed

lemma worker_fetch_fields:
  assumes "worker_fetch getDoc c op = (c', r)"
  shows "fetchQueue c' = fetchQueue c"
  using assms by (auto simp: worker_fetch_def cacheGet_def insertLRU_def Let_def split_beta
      split: option.splits sum.splits prod.splits)

lemma worker_fetch_served:
  assumes "cache_inv c" "served getDoc c" "worker_fetch getDoc c op = (c', r)"
  shows "served getDoc c'"
  using assms(1,3)
proof (cases rule: worker_fetch_cases)
  case (hit d)
  have "set (cached c') \<subseteq> set (cached c)"
    using cacheGet_refines(2) [OF assms(1) hit(1)] cacheGet_hit [OF assms(1) hit(1)]
    by (auto simp: spec_get_def split: option.splits)
  with assms(2) show ?thesis by (auto simp: served_def)
next
  case (error e)
  with assms(2) show ?thesis by simp
next
  case (fetched d)
  then have "set (cached c') \<subseteq> insert d (set (cached c))"
    using insertLRU_refines(2) [OF assms(1) fetched(1)] by (auto simp: spec_insert_def dest!: in_set_takeD)
  moreover have "\<exists>cx. getDoc cx (entry_epoch d) = Inr (ce_doc d, ce_raw d)" using fetched by auto
  ultimately show ?thesis using assms(2) unfolding served_def by blast
qed

lemma Cache_GetDoc_worker:
  assumes "cache_inv c"
  shows "Cache_GetDoc getDoc c cx e =
    (case worker_fetch getDoc c \<lparr>op_ctx = cx, op_epoch = e, op_doneCh = 0\<rparr> of
       (c', r) \<Rightarrow> (c', GetDoc_return r))"
  using cacheGet_miss
  by (fastforce simp: Cache_GetDoc_def worker_fetch_def split: prod.splits option.splits)

lemma cached_source: "stateful_pki_source cache_inv (Cache_GetDoc getDoc)"
proof
  fix c c' :: "'ctx Cache" and cx e r d rw
  assume inv: "cache_inv c"
  obtain c1 r1 where wf: "worker_fetch getDoc c \<lparr>op_ctx = cx, op_epoch = e, op_doneCh = 0\<rparr> = (c1, r1)"
    by fastforce
  note eq = Cache_GetDoc_worker [OF inv, of cx e] and i = worker_fetch_inv [OF inv wf]
  show "cache_inv c'" if "Cache_GetDoc getDoc c cx e = (c', r)" using that eq wf i by simp
  show "Epoch d = e" if "Cache_GetDoc getDoc c cx e = (c', Inr (d, rw))"
    using that eq wf i by (cases r1) auto
qed

lemma worker_round_inv:
  assumes "cache_inv c" and "worker_round getDoc c = Some (c', rs)"
  shows "cache_inv c' \<and> length (fetchQueue c') \<le> length (fetchQueue c) \<and>
    (\<exists>op rest r. fetchQueue c = op # rest \<and> rs = [(op_doneCh op, r)] \<and>
       (\<forall>d. r = ReplyEntry d \<longrightarrow> entry_epoch d = op_epoch op))"
proof -
  obtain op rest r where q: "fetchQueue c = op # rest"
      "worker_fetch getDoc (c\<lparr>fetchQueue := rest\<rparr>) op = (c', r)" "rs = [(op_doneCh op, r)]"
    using assms(2) by (auto simp: worker_round_def split: list.splits prod.splits if_splits)
  have "cache_inv (c\<lparr>fetchQueue := rest\<rparr>)" using assms(1) by simp
  from worker_fetch_inv [OF this q(2)] worker_fetch_fields [OF q(2)] q show ?thesis by simp
qed

lemma cache_step_inv:
  assumes "cache_step getDoc c c'" "cache_inv c" "length (fetchQueue c) \<le> fetchBacklog"
  shows "cache_inv c' \<and> length (fetchQueue c') \<le> fetchBacklog"
  using assms
proof (induction rule: cache_step.induct)
  case (call c cx ep ch c' r)
  obtain c1 g where g: "cacheGet c ep = (c1, g)" by fastforce
  have c1: "cache_inv c1" "c1 = c\<lparr>c_lru := c_lru c1\<rparr>"
    using cacheGet_refines [OF call.prems(1) g] by simp_all
  then have "fetchQueue c1 = fetchQueue c" by (metis Cache.select_convs(7) Cache.surjective Cache.update_convs(2))
  with c1(1) g call show ?case
    by (auto simp: GetDoc_call_def split: option.splits if_splits)
next
  case (round c c' rs)
  with worker_round_inv [OF round.prems(1) round.hyps] show ?case by linarith
qed (auto simp: worker_start_def timer_fire_def GetEpoch_select_def GetEpoch_retrieved_def
  Cache_Halt_def split: timer.splits if_splits prod.splits)

lemma reachable_inv:
  "cache_reachable getDoc c \<Longrightarrow> cache_inv c \<and> length (fetchQueue c) \<le> fetchBacklog"
proof (induction rule: cache_reachable.induct)
  case init
  show ?case by (simp add: NewCacheClient_def cache_inv_def lru_ok_def)
next
  case (step c c')
  then show ?case using cache_step_inv by blast
qed

lemma transparent:
  assumes inv: "cache_inv c" and srv: "served getDoc c" and det: "\<And>cx cx' e. getDoc cx e = getDoc cx' e"
  shows "\<exists>c'. Cache_GetDoc getDoc c cx e = (c', getDoc cx e) \<and> cache_inv c' \<and> served getDoc c'"
proof -
  let ?op = "\<lparr>op_ctx = cx, op_epoch = e, op_doneCh = 0\<rparr>"
  obtain c' r where wf: "worker_fetch getDoc c ?op = (c', r)" by fastforce
  have "GetDoc_return r = getDoc cx e"
    using inv wf
  proof (cases rule: worker_fetch_cases)
    case (hit d)
    with cacheGet_hit [OF inv] srv obtain cx' where "getDoc cx' e = Inr (ce_doc d, ce_raw d)"
      by (fastforce simp: served_def)
    with det [of cx' e cx] hit show ?thesis by simp
  qed simp_all
  with Cache_GetDoc_worker [OF inv, of cx e] wf worker_fetch_inv [OF inv wf]
    worker_fetch_served [OF inv srv wf] show ?thesis by simp
qed

end

sublocale pki_source \<subseteq> cached: stateful_pki_source cache_inv "Cache_GetDoc getDoc"
  by (rule cached_source)

section \<open>Properties\<close>

text \<open>The Katzenmint client is the source behind the cache: \<open>km.cached\<close> is the cached client.\<close>

lemmas km_cached_epoch = km.cached.getDocS_epoch

text \<open>
  C15. Whatever clients, worker, timer and \<open>Halt\<close> do, in every reachable state of the cache over the
  Katzenmint client the map and the list hold the same elements, one per epoch, at most
  \<open>lruMaxSize\<close> of them, and at most \<open>fetchBacklog\<close> operations wait for the worker.
\<close>

theorem cache_reachable_invariant:
  assumes "cache_reachable PKIClient_GetDoc c"
  shows "cache_inv c \<and> length (c_lru c) \<le> lruMaxSize \<and> length (fetchQueue c) \<le> fetchBacklog"
  using km.reachable_inv [OF assms] by (simp add: cache_inv_def)

text \<open>
  C14. The cache implements the bounded most-recently-used list: a hit returns the entry of the
  epoch and moves it to the front; a miss asks the source, whose answer is returned, and a fetched
  entry is put in front while the entries beyond \<open>lruMaxSize\<close> are dropped from the back; an error
  leaves the entries as they are.
\<close>

theorem Cache_GetDoc_refines_lru:
  assumes "cache_inv c" and "Cache_GetDoc PKIClient_GetDoc c env e = (c', r)"
  shows "(\<exists>d. spec_get (cached c) e = (cached c', Some d) \<and> r = Inr (ce_doc d, ce_raw d)) \<or>
    (snd (spec_get (cached c) e) = None \<and> r = PKIClient_GetDoc env e \<and>
      (case r of Inl _ \<Rightarrow> cached c' = cached c
       | Inr (d, rw) \<Rightarrow> cached c' = spec_insert (cached c) \<lparr>ce_raw = rw, ce_doc = d\<rparr>))"
proof -
  let ?op = "\<lparr>op_ctx = env, op_epoch = e, op_doneCh = 0\<rparr>"
  obtain r1 where wf: "worker_fetch PKIClient_GetDoc c ?op = (c', r1)" and r: "r = GetDoc_return r1"
    using km.Cache_GetDoc_worker [OF assms(1), of env e] assms(2) by (auto split: prod.splits)
  have miss: "snd (spec_get (cached c) e) = None" if "c_docs c e = None"
    using cacheGet_refines(2) [OF assms(1), of e c None] that
    by (metis cacheGet_def option.simps(4) snd_conv)
  show ?thesis
    using assms(1) wf
  proof (cases rule: km.worker_fetch_cases)
    case (hit d)
    with cacheGet_refines(2) [OF assms(1), of e] r show ?thesis by (metis GetDoc_return.simps(2) fetchOp.select_convs(2))
  next
    case (error err)
    have "c_docs c e = None"
      using wf error by (auto simp: worker_fetch_def cacheGet_def split: option.splits sum.splits)
    with error miss r show ?thesis by simp
  next
    case (fetched d)
    with miss r insertLRU_refines(2) [OF assms(1) fetched(1)] show ?thesis by (cases d) simp
  qed
qed

definition env5 :: "unit km_env" where
  "env5 = answer_env \<lparr>Code = 0, Log = [], Value = [1, 2], Height = 3\<rparr>"

lemma env5_GetDoc: "PKIClient_GetDoc env5 5 = Inr (empty_doc 5, [1, 2])"
  by (simp add: PKIClient_GetDoc_def env5_def) (simp add: answer_env_def)

theorem cache_reachable_invariant_witness:
  "\<exists>c1 c2. GetDoc_call NewCacheClient env5 5 9 = Some (c1, None) \<and>
     worker_round PKIClient_GetDoc c1 = Some (c2, [(9, ReplyEntry \<lparr>ce_raw = [1, 2], ce_doc = empty_doc 5\<rparr>)]) \<and>
     cache_inv c2 \<and> length (c_lru c2) \<le> lruMaxSize"
proof -
  obtain c1 where c1: "GetDoc_call NewCacheClient env5 5 9 = Some (c1, None)"
      "fetchQueue c1 = [\<lparr>op_ctx = env5, op_epoch = 5, op_doneCh = 9\<rparr>]" "c_docs c1 = (\<lambda>_. None)" "\<not> c_halted c1"
    by (simp add: GetDoc_call_def cacheGet_def NewCacheClient_def fetchBacklog_def)
  obtain c2 where c2: "worker_round PKIClient_GetDoc c1 =
      Some (c2, [(9, ReplyEntry \<lparr>ce_raw = [1, 2], ce_doc = empty_doc 5\<rparr>)])"
    using c1 by (simp add: worker_round_def worker_fetch_def cacheGet_def env5_GetDoc Let_def)
  have "cache_reachable PKIClient_GetDoc c2"
    using cache_reachable.step [OF cache_reachable.step [OF cache_reachable.init cache_step.call [OF c1(1)]]
        cache_step.round [OF c2]] .
  from cache_reachable_invariant [OF this] c1(1) c2 show ?thesis by blast
qed

lemma NewCacheClient_inv: "cache_inv NewCacheClient \<and> cached NewCacheClient = []"
  by (simp add: NewCacheClient_def cache_inv_def lru_ok_def cached_def)

theorem Cache_GetDoc_refines_lru_witness:
  "\<exists>c'. Cache_GetDoc PKIClient_GetDoc NewCacheClient env5 5 = (c', Inr (empty_doc 5, [1, 2])) \<and>
     cached c' = [\<lparr>ce_raw = [1, 2], ce_doc = empty_doc 5\<rparr>]"
proof -
  obtain c' r where g: "Cache_GetDoc PKIClient_GetDoc NewCacheClient env5 5 = (c', r)" by fastforce
  have i: "cache_inv (NewCacheClient :: unit km_env Cache)" by (simp add: NewCacheClient_inv)
  from Cache_GetDoc_refines_lru [OF i g] g show ?thesis
    by (auto simp: NewCacheClient_inv env5_GetDoc spec_get_def spec_insert_def lruMaxSize_def)
qed

text \<open>
  C16. Caching is transparent: over a source whose answers do not depend on the moment (any client
  that returns documents of the requested epoch), a cache that holds only entries the source
  served returns exactly what the source would return, and keeps holding only such entries.
\<close>

theorem cache_transparent:
  assumes "\<And>cx e d rw. impl cx e = Inr (d, rw) \<Longrightarrow> Epoch d = e"
    and "\<And>cx cx' e. impl cx e = impl cx' e" and "cache_inv c" and "served impl c"
  shows "\<exists>c'. Cache_GetDoc impl c cx e = (c', impl cx e) \<and> cache_inv c' \<and> served impl c'"
proof -
  have "pki_source impl" using assms(1) by unfold_locales
  from pki_source.transparent [OF this assms(3,4)] assms(2) show ?thesis by blast
qed

theorem cache_transparent_witness:
  "\<exists>c'. Cache_GetDoc (\<lambda>(u::unit) e. Inr (empty_doc e, [])) NewCacheClient () 7
       = (c', Inr (empty_doc 7, [])) \<and> cache_inv c' \<and> served (\<lambda>(u::unit) e. Inr (empty_doc e, [])) c'"
  using cache_transparent [of "\<lambda>(u::unit) e. Inr (empty_doc e, [])" NewCacheClient "()" 7]
  by (force simp: NewCacheClient_inv served_def)

text \<open>
  Until the first epoch has been retrieved, \<open>GetEpoch\<close> answers every call that does not take
  the timer's tick with epoch 0, height 0 and no error, for which \<open>epochtime.Now\<close> reports the
  epoch \<open>2^64 - 1\<close>; and before the worker goroutine has created the timer it panics.
\<close>

lemma GetEpoch_before_first_retrieval:
  "GetEpoch_select NewCacheClient = Panic ''nil pointer dereference'' \<and>
   GetEpoch_select (worker_start NewCacheClient) = Ok (worker_start NewCacheClient, Some (0, 0, None)) \<and>
   (\<exists>c. GetEpoch_select (timer_fire (worker_start NewCacheClient)) = Ok (c, None) \<and>
      GetEpoch_select c = Ok (c, Some (0, 0, None))) \<and>
   Now (0, 0, None) = (- 1, 0, TestPeriod, None)"
  by (simp add: GetEpoch_select_def NewCacheClient_def worker_start_def timer_fire_def Now_def Let_def
      testEpochInterval_def u64_of_i64_def i64_of_u64_def to_i64_def TestPeriod_def Second_def)

text \<open>
  \<open>Halt\<close> answers every operation that was queued with \<open>errHalted\<close> and empties the queue; but a
  \<open>GetDoc\<close> of an uncached epoch made afterwards is queued and no round of the worker ever runs
  again, so nothing answers it.
\<close>

lemma Halt_answers_only_queued:
  assumes "Cache_Halt c = (c1, rs)" and "c_docs c ep = None"
  shows "map fst rs = map op_doneCh (fetchQueue c) \<and> set (map snd rs) \<subseteq> {ReplyErr errHalted} \<and>
    (\<exists>c2. GetDoc_call c1 cx ep ch = Some (c2, None) \<and>
      fetchQueue c2 = [\<lparr>op_ctx = cx, op_epoch = ep, op_doneCh = ch\<rparr>] \<and> worker_round impl c2 = None)"
  using assms
  by (auto simp: Cache_Halt_def GetDoc_call_def cacheGet_def worker_round_def fetchBacklog_def o_def)

end
