(* ===== verification/Meson_PKI.thy ===== *)
theory Meson_PKI
  imports Meson_Cache Meson_MinClient
begin

text \<open>
  \<^verbatim>\<open>src/minclient/pki.go\<close>: the component that keeps the PKI documents of the minimal client.  Its
  state is the record \<open>pki\<close>; the PKI client behind it is an argument \<open>getDocS\<close> with a state of its
  own (the cache of \<open>Meson_Cache\<close>).  The worker goroutine is a state machine: it waits in its
  \<open>select\<close>, is woken, and runs one round of its loop; the other goroutines call \<open>currentDocument\<close>
  and \<open>setClockSkew\<close>, whose channel operations are steps of their own.  The round of the worker
  is one step here: what it shares with its callers while it runs is the map of documents only, and
  the callback returns.  \<open>Meson_Runtime\<close> takes the round apart where the callback may block.
\<close>

section \<open>Definitions\<close>

definition errGetConsensusCanceled :: go_error where
  "errGetConsensusCanceled = Sentinel ''minclient/pki: consensus fetch canceled''"

definition WarpedEpoch :: string where "WarpedEpoch = ''true''"

definition recheckInterval :: int where
  "recheckInterval = (if WarpedEpoch = ''true'' then 3 * Second else 10 * Second)"

definition initialSpawnDelay :: int where "initialSpawnDelay = 3 * Second"

text \<open>
  The worker's timer (a \<open>time.Timer\<close> of the language version the module declares): running; expired
  with its tick waiting in the channel; or neither, after it was stopped or its tick was taken.
\<close>

datatype wtimer = Running int | Ticked | Idle

text \<open>Where the worker goroutine is.\<close>

datatype wstate = InSelect | Woken bool | BlockedOnTimer | Returned

record 's pki =
  p_docs :: "u64 \<Rightarrow> Document option"
  p_failedFetches :: "u64 \<Rightarrow> go_error option"
  p_clockSkew :: int
  p_forceUpdateCh :: bool
  p_doneWorkerCh :: bool
  p_doneClosed :: bool
  p_timer :: wtimer
  p_worker :: wstate
  p_lastCallbackEpoch :: u64
  p_source :: 's
  p_callbacks :: "Document list"

definition newPKI :: "'s \<Rightarrow> 's pki" where
  "newPKI src = \<lparr>p_docs = (\<lambda>_. None), p_failedFetches = (\<lambda>_. None), p_clockSkew = 0,
     p_forceUpdateCh = False, p_doneWorkerCh = False, p_doneClosed = False,
     p_timer = Running initialSpawnDelay, p_worker = InSelect, p_lastCallbackEpoch = 0,
     p_source = src, p_callbacks = []\<rparr>"

definition ClockSkew :: "'s pki \<Rightarrow> int" where
  "ClockSkew p = to_i64 (p_clockSkew p * Second)"

definition setClockSkew :: "'s pki \<Rightarrow> int \<Rightarrow> 's pki" where
  "setClockSkew p skew = p\<lparr>p_clockSkew := skew, p_forceUpdateCh := True\<rparr>"

definition skewedUnixTime :: "ClientConfig \<Rightarrow> int \<Rightarrow> 's pki \<Rightarrow> int" where
  "skewedUnixTime cfg unix p =
    (if \<not> cfg_EnableTimeSync cfg then unix else to_i64 (unix + p_clockSkew p))"

text \<open>
  \<open>currentDocument\<close>: it returns at once, or goes on to force an update and to wait for the worker.
  A channel operation that blocks is \<open>None\<close>.
\<close>

datatype lookup = Found Document | NoDoc | ForceFor u64

definition currentDocument_load :: "epoch_info \<Rightarrow> 's pki \<Rightarrow> lookup" where
  "currentDocument_load ei p =
    (case Now ei of (now, _, _, err) \<Rightarrow>
       if err \<noteq> None then NoDoc
       else (case p_docs p now of Some d \<Rightarrow> Found d | None \<Rightarrow> ForceFor now))"

definition currentDocument_force :: "'s pki \<Rightarrow> 's pki option" where
  "currentDocument_force p = (if p_forceUpdateCh p then None else Some (p\<lparr>p_forceUpdateCh := True\<rparr>))"

definition currentDocument_done :: "'s pki \<Rightarrow> u64 \<Rightarrow> ('s pki \<times> Document option) option" where
  "currentDocument_done p now =
    (if p_doneWorkerCh p then Some (p\<lparr>p_doneWorkerCh := False\<rparr>, p_docs p now)
     else if p_doneClosed p then Some (p, p_docs p now)
     else None)"

text \<open>
  Fetching.  The context of a fetch, and whether it was cancelled when \<open>GetDoc\<close> came back, is an
  argument (\<open>obs\<close>).
\<close>

definition getDocumentDirect ::
  "('s \<Rightarrow> 'ctx \<Rightarrow> u64 \<Rightarrow> 's \<times> (Document \<times> bytes) result) \<Rightarrow> 's \<Rightarrow> 'ctx \<times> bool \<Rightarrow> u64 \<Rightarrow>
   's \<times> Document result" where
  "getDocumentDirect getDocS src ob ep =
    (case getDocS src (fst ob) ep of (src', r) \<Rightarrow>
       (src', if snd ob then Inl errGetConsensusCanceled
              else (case r of Inl err \<Rightarrow> Inl err | Inr (d, _) \<Rightarrow> Inr d)))"

text \<open>The loop over the epochs: the state, whether a document was stored, and whether to return.\<close>

fun fetch_epochs ::
  "('s \<Rightarrow> 'ctx \<Rightarrow> u64 \<Rightarrow> 's \<times> (Document \<times> bytes) result) \<Rightarrow> (u64 \<Rightarrow> 'ctx \<times> bool) \<Rightarrow> u64 list \<Rightarrow>
   's pki \<Rightarrow> bool \<Rightarrow> 's pki \<times> bool \<times> bool" where
  "fetch_epochs getDocS obs [] p didUpdate = (p, didUpdate, False)"
| "fetch_epochs getDocS obs (ep # eps) p didUpdate =
     (if p_docs p ep \<noteq> None then fetch_epochs getDocS obs eps p didUpdate
      else if p_failedFetches p ep \<noteq> None then fetch_epochs getDocS obs eps p didUpdate
      else (case getDocumentDirect getDocS (p_source p) (obs ep) ep of (src', r) \<Rightarrow>
        let p1 = p\<lparr>p_source := src'\<rparr> in
        (case r of
           Inl err \<Rightarrow>
             if err = ErrNoDocument then
               fetch_epochs getDocS obs eps
                 (p1\<lparr>p_failedFetches := (p_failedFetches p1)(ep \<mapsto> err)\<rparr>) didUpdate
             else if err = errGetConsensusCanceled then (p1, didUpdate, True)
             else fetch_epochs getDocS obs eps p1 didUpdate
         | Inr d \<Rightarrow> fetch_epochs getDocS obs eps (p1\<lparr>p_docs := (p_docs p1)(ep \<mapsto> d)\<rparr>) True)))"

definition pruneDocuments :: "u64 \<Rightarrow> 's pki \<Rightarrow> 's pki" where
  "pruneDocuments now p = p\<lparr>p_docs := (\<lambda>ep. if ep < now then None else p_docs p ep)\<rparr>"

definition pruneFailures :: "u64 \<Rightarrow> 's pki \<Rightarrow> 's pki" where
  "pruneFailures now p =
     p\<lparr>p_failedFetches := (\<lambda>ep. if ep < now \<or> ep > now + 1 then None else p_failedFetches p ep)\<rparr>"

text \<open>The document that the callback is called with, if it is called; and the call.\<close>

definition OnDocumentFn_arg :: "ClientConfig \<Rightarrow> u64 \<Rightarrow> 's pki \<Rightarrow> Document option" where
  "OnDocumentFn_arg cfg now p =
    (if now \<noteq> p_lastCallbackEpoch p \<and> cfg_OnDocumentFn cfg then p_docs p now else None)"

definition run_OnDocumentFn :: "ClientConfig \<Rightarrow> u64 \<Rightarrow> 's pki \<Rightarrow> 's pki" where
  "run_OnDocumentFn cfg now p =
    (case OnDocumentFn_arg cfg now p of
       Some d \<Rightarrow> p\<lparr>p_lastCallbackEpoch := now, p_callbacks := p_callbacks p @ [d]\<rparr>
     | None \<Rightarrow> p)"

text \<open>
  The body of the worker's loop after it was woken, in three parts: what comes before the callback
  (\<open>None\<close> when the iteration ends there: no epoch, or the fetch was cancelled and the worker returns),
  the callback, and what comes after it.  Before a send on \<open>doneWorkerCh\<close> the channel is emptied and
  no other goroutine sends on it, so the send never blocks.
\<close>

definition pki_fetch ::
  "('s \<Rightarrow> 'ctx \<Rightarrow> u64 \<Rightarrow> 's \<times> (Document \<times> bytes) result) \<Rightarrow> epoch_info \<Rightarrow>
   (u64 \<Rightarrow> 'ctx \<times> bool) \<Rightarrow> 's pki \<Rightarrow> 's pki \<times> u64 option" where
  "pki_fetch getDocS ei obs p =
    (case Now ei of (now, _, _, err) \<Rightarrow>
       if err \<noteq> None then (p\<lparr>p_worker := InSelect\<rparr>, None)
       else
         (case fetch_epochs getDocS obs [now - 1, now] p False of (p1, didUpdate, canceled) \<Rightarrow>
            if canceled then (p1\<lparr>p_worker := Returned, p_timer := Idle\<rparr>, None)
            else
              let p2 = pruneFailures now p1;
                  p3 = (if didUpdate then pruneDocuments now p2 else p2)
              in (p3, Some now)))"

definition pki_finish :: "'s pki \<Rightarrow> 's pki" where
  "pki_finish p = p\<lparr>p_doneWorkerCh := True, p_timer := Running recheckInterval, p_worker := InSelect\<rparr>"

definition pki_round ::
  "ClientConfig \<Rightarrow> ('s \<Rightarrow> 'ctx \<Rightarrow> u64 \<Rightarrow> 's \<times> (Document \<times> bytes) result) \<Rightarrow> epoch_info \<Rightarrow>
   (u64 \<Rightarrow> 'ctx \<times> bool) \<Rightarrow> 's pki \<Rightarrow> 's pki" where
  "pki_round cfg getDocS ei obs p =
    (case pki_fetch getDocS ei obs p of
       (p1, None) \<Rightarrow> p1
     | (p1, Some now) \<Rightarrow> pki_finish (run_OnDocumentFn cfg now p1))"

text \<open>
  The worker leaves its \<open>select\<close>: \<open>Woken timerFired\<close>; then, unless the timer fired, it stops the
  timer, and takes its tick when it could not be stopped any more, which blocks when there is none.
\<close>

definition stop_timer :: "bool \<Rightarrow> 's pki \<Rightarrow> 's pki option" where
  "stop_timer timerFired p =
    (if timerFired then Some p
     else (case p_timer p of
             Running _ \<Rightarrow> Some (p\<lparr>p_timer := Idle\<rparr>)
           | Ticked \<Rightarrow> Some (p\<lparr>p_timer := Idle\<rparr>)
           | Idle \<Rightarrow> None))"

text \<open>The steps of the component: the worker, the timer, and the callers of its operations.\<close>

inductive pki_step ::
  "ClientConfig \<Rightarrow> ('s \<Rightarrow> 'ctx \<Rightarrow> u64 \<Rightarrow> 's \<times> (Document \<times> bytes) result) \<Rightarrow> 's pki \<Rightarrow> 's pki \<Rightarrow> bool"
  for cfg getDocS where
  halt: "p_worker p = InSelect \<Longrightarrow>
    pki_step cfg getDocS p (p\<lparr>p_worker := Returned, p_doneClosed := True, p_timer := Idle\<rparr>)"
| force: "p_worker p = InSelect \<Longrightarrow> p_forceUpdateCh p \<Longrightarrow>
    pki_step cfg getDocS p (p\<lparr>p_worker := Woken False, p_forceUpdateCh := False\<rparr>)"
| tick: "p_worker p = InSelect \<Longrightarrow> p_timer p = Ticked \<Longrightarrow>
    pki_step cfg getDocS p (p\<lparr>p_worker := Woken True, p_timer := Idle\<rparr>)"
| round: "p_worker p = Woken b \<Longrightarrow> stop_timer b p = Some p1 \<Longrightarrow>
    pki_step cfg getDocS p (pki_round cfg getDocS ei obs p1)"
| block: "p_worker p = Woken b \<Longrightarrow> stop_timer b p = None \<Longrightarrow>
    pki_step cfg getDocS p (p\<lparr>p_worker := BlockedOnTimer\<rparr>)"
| expire: "p_timer p = Running t \<Longrightarrow> pki_step cfg getDocS p (p\<lparr>p_timer := Ticked\<rparr>)"
| skew: "pki_step cfg getDocS p (setClockSkew p s)"
| request: "currentDocument_force p = Some p' \<Longrightarrow> pki_step cfg getDocS p p'"
| answer: "currentDocument_done p now = Some (p', r) \<Longrightarrow> pki_step cfg getDocS p p'"

inductive pki_reachable ::
  "ClientConfig \<Rightarrow> ('s \<Rightarrow> 'ctx \<Rightarrow> u64 \<Rightarrow> 's \<times> (Document \<times> bytes) result) \<Rightarrow> 's \<Rightarrow> 's pki \<Rightarrow> bool"
  for cfg getDocS src where
  init: "pki_reachable cfg getDocS src (newPKI src)"
| step: "pki_reachable cfg getDocS src p \<Longrightarrow> pki_step cfg getDocS p p' \<Longrightarrow> pki_reachable cfg getDocS src p'"

inductive_cases pki_stepE: "pki_step cfg getDocS p p'"

section \<open>Lemmas\<close>

lemmas run_OnDocumentFn_defs = run_OnDocumentFn_def OnDocumentFn_arg_def

lemmas pki_round_defs = pki_round_def pki_fetch_def pki_finish_def

text \<open>
  The invariant: the source keeps its own; each document is filed under its own epoch; the callback
  announced documents of changing epochs, the last of which is remembered; only \<open>ErrNoDocument\<close>
  suppresses further fetches.
\<close>

definition pki_inv :: "('s \<Rightarrow> bool) \<Rightarrow> 's pki \<Rightarrow> bool" where
  "pki_inv I p \<longleftrightarrow> I (p_source p) \<and> (\<forall>ep d. p_docs p ep = Some d \<longrightarrow> Epoch d = ep) \<and>
     distinct_adj (0 # map Epoch (p_callbacks p)) \<and>
     p_lastCallbackEpoch p = last (0 # map Epoch (p_callbacks p)) \<and>
     (\<forall>ep err. p_failedFetches p ep = Some err \<longrightarrow> err = ErrNoDocument)"

lemma pki_inv_simps [simp]:
  "pki_inv I (p\<lparr>p_worker := w\<rparr>) = pki_inv I p"
  "pki_inv I (p\<lparr>p_timer := t\<rparr>) = pki_inv I p"
  "pki_inv I (p\<lparr>p_forceUpdateCh := b\<rparr>) = pki_inv I p"
  "pki_inv I (p\<lparr>p_doneWorkerCh := b\<rparr>) = pki_inv I p"
  "pki_inv I (p\<lparr>p_doneClosed := b\<rparr>) = pki_inv I p"
  "pki_inv I (p\<lparr>p_clockSkew := x\<rparr>) = pki_inv I p"
  by (simp_all add: pki_inv_def)

lemma pki_inv_intros [intro]:
  "pki_inv I p \<Longrightarrow> I src \<Longrightarrow> pki_inv I (p\<lparr>p_source := src\<rparr>)"
  "pki_inv I p \<Longrightarrow> pki_inv I (p\<lparr>p_failedFetches := (p_failedFetches p)(ep \<mapsto> ErrNoDocument)\<rparr>)"
  "pki_inv I p \<Longrightarrow> Epoch d = ep \<Longrightarrow> pki_inv I (p\<lparr>p_docs := (p_docs p)(ep \<mapsto> d)\<rparr>)"
  "pki_inv I p \<Longrightarrow> pki_inv I (pruneDocuments now p)"
  "pki_inv I p \<Longrightarrow> pki_inv I (pruneFailures now p)"
  by (auto simp: pki_inv_def pruneDocuments_def pruneFailures_def)

lemma pki_inv_OnDocumentFn [intro]:
  assumes "pki_inv I p"
  shows "pki_inv I (run_OnDocumentFn cfg now p)"
  using assms
  by (auto simp: run_OnDocumentFn_defs pki_inv_def distinct_adj_append_iff
      simp flip: append_Cons split: option.splits)

lemma run_OnDocumentFn_fields [simp]:
  "p_docs (run_OnDocumentFn cfg now p) = p_docs p"
  "p_failedFetches (run_OnDocumentFn cfg now p) = p_failedFetches p"
  "p_source (run_OnDocumentFn cfg now p) = p_source p"
  by (simp_all add: run_OnDocumentFn_defs split: option.splits)

context stateful_pki_source
begin

lemma fetch_epochs_inv:
  assumes "pki_inv inv p"
  shows "pki_inv inv (fst (fetch_epochs getDocS obs eps p did))"
  using assms
proof (induction eps arbitrary: p did)
  case (Cons ep eps)
  obtain src' r where g: "getDocS (p_source p) (fst (obs ep)) ep = (src', r)" by fastforce
  have src: "inv (p_source p)" using Cons.prems by (simp add: pki_inv_def)
  have p1: "pki_inv inv (p\<lparr>p_source := src'\<rparr>)" using Cons.prems getDocS_inv [OF src g] by auto
  have p2: "pki_inv inv (p\<lparr>p_source := src', p_failedFetches := (p_failedFetches p)(ep \<mapsto> ErrNoDocument)\<rparr>)"
    using pki_inv_intros(2) [OF p1] by simp
  have p3: "pki_inv inv (p\<lparr>p_source := src', p_docs := (p_docs p)(ep \<mapsto> d)\<rparr>)" if "r = Inr (d, rw)" for d rw
    using pki_inv_intros(3) [OF p1] getDocS_epoch [OF src] g that by simp blast
  show ?case
    using Cons.prems Cons.IH p1 p2 p3
    by (simp add: getDocumentDirect_def g Let_def split: sum.splits prod.splits)
qed simp

lemma pki_fetch_inv:
  assumes "pki_inv inv p" and "pki_fetch getDocS ei obs p = (p', r)"
  shows "pki_inv inv p'"
proof -
  obtain now el till err where nw: "Now ei = (now, el, till, err)" by (metis prod_cases4)
  obtain p1 did can where f: "fetch_epochs getDocS obs [now - 1, now] p False = (p1, did, can)"
    by (metis prod_cases3)
  have "pki_inv inv p1" using fetch_epochs_inv [OF assms(1), of obs "[now - 1, now]" False] f by simp
  with assms show ?thesis
    by (auto simp: pki_fetch_def nw f Let_def simp del: fetch_epochs.simps split: if_splits)
qed

lemma pki_round_inv:
  assumes "pki_inv inv p"
  shows "pki_inv inv (pki_round cfg getDocS ei obs p)"
proof -
  obtain p1 r where f: "pki_fetch getDocS ei obs p = (p1, r)" by fastforce
  with pki_inv_OnDocumentFn [OF pki_fetch_inv [OF assms f]] pki_fetch_inv [OF assms f] show ?thesis
    by (auto simp: pki_round_def pki_finish_def split: option.splits)
qed

lemma pki_step_inv:
  assumes "pki_step cfg getDocS p p'" and "pki_inv inv p"
  shows "pki_inv inv p'"
  using assms
  by cases (auto simp: setClockSkew_def currentDocument_force_def currentDocument_done_def stop_timer_def
      split: if_splits wtimer.splits intro: pki_round_inv)

lemma newPKI_inv: "inv src \<Longrightarrow> pki_inv inv (newPKI src)"
  by (simp add: newPKI_def pki_inv_def)

lemma pki_reachable_inv:
  assumes "pki_reachable cfg getDocS src p" and "inv src"
  shows "pki_inv inv p"
  using assms by (induction rule: pki_reachable.induct) (blast intro: newPKI_inv pki_step_inv)+

end

lemma fetch_epochs_frame [simp]:
  "p_timer (fst (fetch_epochs getDocS obs eps p did)) = p_timer p"
  "p_worker (fst (fetch_epochs getDocS obs eps p did)) = p_worker p"
  "p_callbacks (fst (fetch_epochs getDocS obs eps p did)) = p_callbacks p"
  "p_lastCallbackEpoch (fst (fetch_epochs getDocS obs eps p did)) = p_lastCallbackEpoch p"
  "p_forceUpdateCh (fst (fetch_epochs getDocS obs eps p did)) = p_forceUpdateCh p"
  "p_doneWorkerCh (fst (fetch_epochs getDocS obs eps p did)) = p_doneWorkerCh p"
  "p_doneClosed (fst (fetch_epochs getDocS obs eps p did)) = p_doneClosed p"
  by (induction eps arbitrary: p did) (auto simp: Let_def split: sum.splits prod.splits)

lemma fetch_epochs_Cons:
  "fetch_epochs getDocS obs (ep # eps) p did =
    (case fetch_epochs getDocS obs [ep] p did of (p1, did1, can) \<Rightarrow>
       if can then (p1, did1, True) else fetch_epochs getDocS obs eps p1 did1)"
  by (auto simp: Let_def split: sum.splits prod.splits)

lemma fetch_one_other:
  assumes "fetch_epochs getDocS obs [ep] p did = (p1, did1, can)" and "ep' \<noteq> ep"
  shows "p_docs p1 ep' = p_docs p ep' \<and> p_failedFetches p1 ep' = p_failedFetches p ep'"
  using assms by (auto simp: Let_def split: sum.splits prod.splits if_splits)

lemma fetch_one_uncanceled:
  assumes "\<not> snd (obs ep)" and "\<And>src cx src'. getDocS src cx ep \<noteq> (src', Inl errGetConsensusCanceled)"
    and "fetch_epochs getDocS obs [ep] p did = (p1, did1, can)"
  shows "\<not> can"
  using assms by (auto simp: Let_def getDocumentDirect_def split: sum.splits prod.splits if_splits)

lemma fetch_one_served:
  assumes "\<not> snd (obs ep)" and "p_failedFetches p ep = None"
    and "getDocS (p_source p) (fst (obs ep)) ep = (src', Inr (d, rw))"
  shows "\<exists>p1 did1. fetch_epochs getDocS obs [ep] p did = (p1, did1, False) \<and> p_docs p1 ep \<noteq> None \<and>
    (p_docs p ep = None \<longrightarrow> did1)"
  using assms by (auto simp: getDocumentDirect_def)

text \<open>A worker that was woken by its timer has taken the tick.\<close>

lemma pki_round_worker: "p_worker (pki_round cfg getDocS ei obs p) \<noteq> Woken b"
  by (simp add: pki_round_defs Let_def split: prod.split del: fetch_epochs.simps)

lemma woken_by_timer:
  assumes "pki_reachable cfg getDocS src p" and "p_worker p = Woken True"
  shows "p_timer p = Idle"
  using assms
proof (induction rule: pki_reachable.induct)
  case init
  then show ?case by (simp add: newPKI_def)
next
  case (step p p')
  from step.hyps(2) show ?case
    using step.IH step.prems
    by cases (auto simp: setClockSkew_def currentDocument_force_def currentDocument_done_def pki_round_worker
        split: if_splits)
qed

text \<open>A round that can fetch the document of the current epoch.\<close>

lemma round_document:
  assumes "ei = (now + 1, h, None)" and "\<not> snd (obs now)" and "\<not> snd (obs (now - 1))"
    and "\<And>src cx ep src'. getDocS src cx ep \<noteq> (src', Inl errGetConsensusCanceled)"
    and "\<And>src cx. \<exists>src' d rw. getDocS src cx now = (src', Inr (d, rw))"
    and "p_failedFetches p now = None" and "p' = pki_round cfg getDocS ei obs p"
  shows "\<exists>d. p_docs p' now = Some d \<and> p_worker p' = InSelect \<and> p_doneWorkerCh p' \<and>
    p_timer p' = Running recheckInterval \<and>
    p_callbacks p' = p_callbacks p @ (if now \<noteq> p_lastCallbackEpoch p \<and> cfg_OnDocumentFn cfg then [d] else []) \<and>
    (p_docs p now = None \<longrightarrow> (\<forall>ep < now. p_docs p' ep = None))"
proof -
  obtain el till where nw: "Now ei = (now, el, till, None)"
    using assms(1) by (auto simp: Now_def Let_def)
  obtain p1 did1 can where f1: "fetch_epochs getDocS obs [now - 1] p False = (p1, did1, can)"
    by (metis prod_cases3)
  have nc: "\<not> can" using fetch_one_uncanceled [OF assms(3,4) f1] .
  have same: "p_docs p1 now = p_docs p now" "p_failedFetches p1 now = None"
    using fetch_one_other [OF f1, of now] assms(6) by auto
  obtain src' d rw where g: "getDocS (p_source p1) (fst (obs now)) now = (src', Inr (d, rw))"
    using assms(5) by blast
  from fetch_one_served [where getDocS = getDocS and obs = obs and ep = now and p = p1, OF assms(2) same(2) g, of did1] obtain p2 did2 where
      f2: "fetch_epochs getDocS obs [now] p1 did1 = (p2, did2, False)" "p_docs p2 now \<noteq> None"
        "p_docs p1 now = None \<longrightarrow> did2" by metis
  have f: "fetch_epochs getDocS obs [now - 1, now] p False = (p2, did2, False)"
    by (subst fetch_epochs_Cons) (simp add: f1 nc f2(1) del: fetch_epochs.simps)
  obtain d2 where d2: "p_docs p2 now = Some d2" using f2(2) by blast
  have frame: "p_callbacks p2 = p_callbacks p" "p_lastCallbackEpoch p2 = p_lastCallbackEpoch p"
    using fetch_epochs_frame(3,4) [of getDocS obs "[now - 1, now]" p False] f
    by (simp_all del: fetch_epochs.simps fetch_epochs_frame)
  have eq: "p' = (run_OnDocumentFn cfg now (if did2 then pruneDocuments now (pruneFailures now p2)
      else pruneFailures now p2))
      \<lparr>p_doneWorkerCh := True, p_timer := Running recheckInterval, p_worker := InSelect\<rparr>"
    unfolding assms(7) by (simp add: pki_round_defs nw f Let_def del: fetch_epochs.simps)
  show ?thesis
    unfolding eq using d2 frame f2(3) same(1)
    by (auto simp: run_OnDocumentFn_defs pruneDocuments_def pruneFailures_def)
qed

section \<open>Properties\<close>

text \<open>
  C9. Whatever the worker, its timer and its callers do, a document that \<open>currentDocument\<close> returns
  is the one for the epoch it asked for, and the documents announced through \<open>OnDocumentFn\<close> are of
  changing epochs; this holds over the cached Katzenmint client.
\<close>

theorem pki_documents_sound:
  assumes "pki_reachable cfg (Cache_GetDoc PKIClient_GetDoc) src p" and "cache_inv src"
  shows "(currentDocument_load ei p = Found d \<longrightarrow> Epoch d = fst (Now ei)) \<and>
    (currentDocument_done p now = Some (p', Some d) \<longrightarrow> Epoch d = now) \<and>
    distinct_adj (map Epoch (p_callbacks p))"
proof -
  have "pki_inv cache_inv p" using km.cached.pki_reachable_inv [OF assms] .
  then show ?thesis
    by (auto simp: pki_inv_def currentDocument_load_def currentDocument_done_def distinct_adj_Cons
        split: prod.splits if_splits option.splits)
qed

lemma env5_cache_inv: "cache_inv (NewCacheClient :: unit km_env Cache)"
  by (simp add: NewCacheClient_inv)

definition example_woken :: "unit km_env Cache pki" where
  "example_woken = (newPKI NewCacheClient)\<lparr>p_timer := Idle, p_worker := Woken True\<rparr>"

lemma example_woken_reachable: "pki_reachable example_cfg getDocS NewCacheClient example_woken"
proof -
  let ?p0 = "newPKI NewCacheClient :: unit km_env Cache pki"
  have 1: "pki_step example_cfg getDocS ?p0 (?p0\<lparr>p_timer := Ticked\<rparr>)"
    by (rule pki_step.expire [of _ initialSpawnDelay]) (simp add: newPKI_def)
  have "pki_step example_cfg getDocS (?p0\<lparr>p_timer := Ticked\<rparr>)
      (?p0\<lparr>p_timer := Ticked, p_worker := Woken True, p_timer := Idle\<rparr>)"
    by (rule pki_step.tick) (simp_all add: newPKI_def)
  then have 2: "pki_step example_cfg getDocS (?p0\<lparr>p_timer := Ticked\<rparr>) example_woken"
    by (simp add: example_woken_def newPKI_def)
  show ?thesis using pki_reachable.step [OF pki_reachable.step [OF pki_reachable.init 1] 2] .
qed

theorem pki_documents_sound_witness:
  "\<exists>(p :: unit km_env Cache pki) d. pki_reachable example_cfg (Cache_GetDoc PKIClient_GetDoc) NewCacheClient p \<and>
     currentDocument_load (6, 0, None) p = Found d \<and> Epoch d = 5"
proof -
  let ?p = "pki_round example_cfg (Cache_GetDoc PKIClient_GetDoc) (6, 0, None) (\<lambda>_. (env5, False)) example_woken"
  have st: "stop_timer True example_woken = Some example_woken" by (simp add: stop_timer_def)
  have "p_worker example_woken = Woken True" by (simp add: example_woken_def)
  from pki_step.round [OF this st] have
    r: "pki_reachable example_cfg (Cache_GetDoc PKIClient_GetDoc) NewCacheClient ?p"
    by (rule pki_reachable.step [OF example_woken_reachable])
  have e4: "PKIClient_GetDoc env5 4 = Inl ErrInvalidEpoch"
    by (simp add: PKIClient_GetDoc_def env5_def) (simp add: answer_env_def)
  have nw: "Now (6, 0, None) = (5, 0, TestPeriod, None)"
    by (simp add: Now_def Let_def testEpochInterval_def u64_of_i64_def i64_of_u64_def to_i64_def TestPeriod_def
        Second_def)
  have "p_docs ?p 5 = Some (empty_doc 5)"
    by (simp add: pki_round_defs nw getDocumentDirect_def Cache_GetDoc_def worker_fetch_def cacheGet_def
        e4 env5_GetDoc ErrInvalidEpoch_def ErrNoDocument_def errGetConsensusCanceled_def Let_def
        run_OnDocumentFn_defs pruneDocuments_def pruneFailures_def example_woken_def newPKI_def NewCacheClient_def)
  then have l: "currentDocument_load (6, 0, None) ?p = Found (empty_doc 5)"
    by (simp add: currentDocument_load_def nw)
  have "Epoch (empty_doc 5) = 5"
    using pki_documents_sound [OF r env5_cache_inv, of "(6, 0, None)" "empty_doc 5" 5 ?p] l unfolding nw fst_conv
    by blast
  with l have "currentDocument_load (6, 0, None) ?p = Found (empty_doc 5) \<and> Epoch (empty_doc 5) = 5"
    by (rule conjI)
  with r show ?thesis by blast
qed

text \<open>
  C21. A round of the worker provides the document of the current epoch: when the epoch is known, the
  fetch of that document succeeds and is neither suppressed nor cancelled, the document is there
  afterwards and is announced unless its epoch was announced last; the callers are signalled and
  the timer runs again.  If the document was missing before, everything older is discarded, also
  the previous epoch's document that the same round fetched first.
\<close>

theorem round_provides_document:
  assumes "ei = (now + 1, h, None)" and "\<not> snd (obs now)" and "\<not> snd (obs (now - 1))"
    and "\<And>src cx ep src'. getDocS src cx ep \<noteq> (src', Inl errGetConsensusCanceled)"
    and "\<And>src cx. \<exists>src' d rw. getDocS src cx now = (src', Inr (d, rw))"
    and "p_failedFetches p now = None" and "p' = pki_round cfg getDocS ei obs p"
  shows "\<exists>d. p_docs p' now = Some d \<and> p_worker p' = InSelect \<and> p_doneWorkerCh p' \<and>
    p_timer p' = Running recheckInterval \<and>
    p_callbacks p' = p_callbacks p @ (if now \<noteq> p_lastCallbackEpoch p \<and> cfg_OnDocumentFn cfg then [d] else []) \<and>
    (p_docs p now = None \<longrightarrow> (\<forall>ep < now. p_docs p' ep = None))"
  using round_document [OF assms] .

theorem round_provides_document_witness:
  "\<exists>d. p_docs (pki_round example_cfg (\<lambda>s cx ep. (s, Inr (empty_doc ep, []))) (5, 0, None) (\<lambda>_. ((), False))
      (newPKI ())) 4 = Some d"
proof -
  have "p_failedFetches (newPKI ()) 4 = None" by (simp add: newPKI_def)
  from round_provides_document [OF _ _ _ _ _ this refl, of "(5, 0, None)" 0 "\<lambda>_. ((), False)"
      "\<lambda>s cx ep. (s, Inr (empty_doc ep, []))" example_cfg]
  show ?thesis by auto
qed

text \<open>A worker whose timer is idle and that was not woken by it never fetches again.\<close>

definition worker_lost :: "'s pki \<Rightarrow> 's pki \<Rightarrow> bool" where
  "worker_lost p q \<longleftrightarrow> p_timer q = Idle \<and> p_worker q \<noteq> Woken True \<and> p_docs q = p_docs p \<and>
     p_source q = p_source p \<and> p_callbacks q = p_callbacks p"

lemma worker_lost_step:
  assumes "worker_lost p q" and "pki_step cfg getDocS q q'"
  shows "worker_lost p q'"
  using assms(2,1)
  by cases (auto simp: worker_lost_def setClockSkew_def currentDocument_force_def currentDocument_done_def
      stop_timer_def split: if_splits)

interpretation lost: preserved "pki_step cfg getDocS" "worker_lost p" for cfg getDocS p
  by unfold_locales (rule worker_lost_step)

text \<open>
  C32. A single failure of \<open>GetEpoch\<close> ends the PKI worker: a round that cannot learn the epoch leaves the
  timer unset, so from then on, whatever happens, the timer never runs again, no document is ever
  fetched or announced, and the next forced update blocks the worker on the timer's channel.
\<close>

theorem epoch_error_stops_worker:
  assumes "pki_reachable cfg getDocS src p" and "p_worker p = Woken b" and "stop_timer b p = Some p1"
    and "(pki_step cfg getDocS)\<^sup>*\<^sup>* (pki_round cfg getDocS (e, h, Some err) obs p1) q"
  shows "p_timer q = Idle \<and> p_docs q = p_docs p \<and> p_source q = p_source p \<and> p_callbacks q = p_callbacks p \<and>
    (p_worker q = InSelect \<and> p_forceUpdateCh q \<longrightarrow>
      (\<exists>q1 q2. pki_step cfg getDocS q q1 \<and> pki_step cfg getDocS q1 q2 \<and> p_worker q2 = BlockedOnTimer))"
proof -
  have "worker_lost p (pki_round cfg getDocS (e, h, Some err) obs p1)"
    using assms(2,3) woken_by_timer [OF assms(1)]
    by (auto simp: worker_lost_def pki_round_defs Now_def Let_def stop_timer_def split: if_splits wtimer.splits)
  from lost.along [OF assms(4) this] have lost: "worker_lost p q" .
  have "\<exists>q1 q2. pki_step cfg getDocS q q1 \<and> pki_step cfg getDocS q1 q2 \<and> p_worker q2 = BlockedOnTimer"
    if "p_worker q = InSelect" and "p_forceUpdateCh q"
  proof -
    let ?q1 = "q\<lparr>p_worker := Woken False, p_forceUpdateCh := False\<rparr>"
    have "pki_step cfg getDocS ?q1 (?q1\<lparr>p_worker := BlockedOnTimer\<rparr>)"
      using lost by (intro pki_step.block [of _ False]) (simp_all add: worker_lost_def stop_timer_def)
    moreover have "p_worker (?q1\<lparr>p_worker := BlockedOnTimer\<rparr>) = BlockedOnTimer" by simp
    ultimately show ?thesis using pki_step.force [OF that] by blast
  qed
  with lost show ?thesis by (simp add: worker_lost_def)
qed

theorem epoch_error_stops_worker_witness:
  "p_timer (pki_round example_cfg (\<lambda>s (cx::unit) ep. (s, Inr (empty_doc ep, []))) (0, 0, Some (ExtError ''down''))
      (\<lambda>_. ((), False)) ((newPKI ())\<lparr>p_timer := Idle, p_worker := Woken True\<rparr>)) = Idle"
proof -
  let ?g = "\<lambda>s (cx::unit) ep. (s :: unit, Inr (empty_doc ep, []))"
  have "pki_step example_cfg ?g (newPKI ()) ((newPKI ())\<lparr>p_timer := Ticked\<rparr>)"
    by (rule pki_step.expire [of _ initialSpawnDelay]) (simp add: newPKI_def)
  moreover have "pki_step example_cfg ?g ((newPKI ())\<lparr>p_timer := Ticked\<rparr>)
      ((newPKI ())\<lparr>p_timer := Ticked, p_worker := Woken True, p_timer := Idle\<rparr>)"
    by (rule pki_step.tick) (simp_all add: newPKI_def)
  ultimately have r: "pki_reachable example_cfg ?g () ((newPKI ())\<lparr>p_timer := Idle, p_worker := Woken True\<rparr>)"
    using pki_reachable.step [OF pki_reachable.step [OF pki_reachable.init]] by (simp add: newPKI_def)
  from epoch_error_stops_worker [OF r, of True "(newPKI ())\<lparr>p_timer := Idle, p_worker := Woken True\<rparr>"
      0 0 "ExtError ''down''" "\<lambda>_. ((), False)"]
  show ?thesis by (simp add: stop_timer_def)
qed

text \<open>
  Every completed round leaves a token in \<open>doneWorkerCh\<close>.  A later call of \<open>currentDocument\<close> for an
  epoch whose document is missing takes that token instead of waiting for the update it forces,
  and returns no document while the worker has not moved.
\<close>

lemma currentDocument_stale_answer:
  assumes "p_doneWorkerCh p" and "\<not> p_forceUpdateCh p" and "currentDocument_load ei p = ForceFor now"
  shows "\<exists>p1 p2. currentDocument_force p = Some p1 \<and> currentDocument_done p1 now = Some (p2, None) \<and>
    p_worker p2 = p_worker p \<and> p_source p2 = p_source p \<and> p_forceUpdateCh p2"
  using assms
  by (auto simp: currentDocument_load_def currentDocument_force_def currentDocument_done_def
      split: prod.splits if_splits option.splits)

end
