(* ===== verification/Meson_Runtime.thy ===== *)
theory Meson_Runtime
  imports Meson_System Meson_PKI
begin

text \<open>
  The session over the PKI component of its minimal client: \<open>NewSession\<close> and the session worker of
  \<open>Meson_System\<close> together with the PKI worker of \<open>Meson_PKI\<close>.  The two goroutines meet in two places.
  The session worker looks up the current document (\<open>minclient.CurrentDocument\<close>), for which it may
  have to force an update and to wait for the PKI worker; and the PKI worker announces a new document
  through \<open>onDocument\<close>, which waits for a place in \<open>opCh\<close>, a channel that only the session worker
  empties.  A round of the PKI worker is therefore two steps here when it announces a document, and
  an iteration of the session worker that needs documents is a lookup or more, step by step, and then
  its effect on the session.  Users come in when \<open>NewSession\<close> has returned; what they push while the
  worker still looks up its first document they may as well push right after.
\<close>

section \<open>Definitions\<close>

text \<open>
  Where the session's goroutine is: in \<open>awaitFirstPKIDoc\<close> (\<open>Failed\<close> when that gave up); about to look up a
  document, waiting to force an update, or waiting for the PKI worker, each with what it is for
  (\<open>None\<close>: the worker's start, else the timer that fired) and the answers so far; in the loop's
  \<open>select\<close>; or at its end.
\<close>

datatype wplace =
    AwaitFirst
  | Failed
  | Looking "wake option" "Document option list"
  | Forcing "wake option" "Document option list" u64
  | Awaiting "wake option" "Document option list" u64
  | Selecting
  | Gone

record ('r, 's) runtime =
  t_sys :: "'r system"
  t_place :: wplace
  t_pki :: "'s pki"
  t_callback :: "Document option"

definition rt_init :: "kconst \<Rightarrow> 's \<Rightarrow> 'r \<Rightarrow> ('r, 's) runtime" where
  "rt_init K src r =
    \<lparr>t_sys = \<lparr>y_session = new_Session K, y_worker = None, y_rng = r, y_callers = (\<lambda>_. None), y_used = {}, y_onACK = {#}, y_acks = {#}\<rparr>,
     t_place = AwaitFirst, t_pki = newPKI src, t_callback = None\<rparr>"

text \<open>\<open>NewSession\<close> has returned and the worker has its first document or has given up.\<close>

fun started :: "wplace \<Rightarrow> bool" where
  "started AwaitFirst = False"
| "started Failed = False"
| "started (Looking k _) = (k \<noteq> None)"
| "started (Forcing k _ _) = (k \<noteq> None)"
| "started (Awaiting k _ _) = (k \<noteq> None)"
| "started Selecting = True"
| "started Gone = True"

text \<open>
  Whether an iteration of the session worker calls the minimal client: a decoy looks up a service,
  and a message is sent once its SURB identifier is drawn.
\<close>

definition worker_asks :: "bool \<Rightarrow> senv \<Rightarrow> wake \<Rightarrow> worker \<Rightarrow> Session \<Rightarrow> bool" where
  "worker_asks disableDecoys env ev w s \<longleftrightarrow> wk_isConnected w \<and>
     (if ev = LambdaPFired then
        (case Queue_Peek (s_egressQueue s) of
           Ok (Inr _) \<Rightarrow> e_surbID env \<in> range Inr
         | _ \<Rightarrow> \<not> disableDecoys)
      else (ev = LambdaLFired \<or> ev = LambdaDFired) \<and> \<not> disableDecoys)"

definition after_load :: "wake option \<Rightarrow> Document option list \<Rightarrow> lookup \<Rightarrow> wplace" where
  "after_load k ds l =
    (case l of
       Found d \<Rightarrow> Looking k (ds @ [Some d])
     | NoDoc \<Rightarrow> Looking k (ds @ [None])
     | ForceFor now \<Rightarrow> Forcing k ds now)"

inductive rt_step ::
  "kconst \<Rightarrow> bool \<Rightarrow> 'r rng_ops \<Rightarrow> (bytes \<Rightarrow> bytes \<Rightarrow> bytes result) \<Rightarrow> ClientConfig \<Rightarrow>
   ('s \<Rightarrow> 'ctx \<Rightarrow> u64 \<Rightarrow> 's \<times> (Document \<times> bytes) result) \<Rightarrow> ('r, 's) runtime \<Rightarrow> ('r, 's) runtime \<Rightarrow> bool"
  for K dis g decrypt cfg getDocS where
  await: "t_place y = AwaitFirst \<Longrightarrow> s_opCh (y_session (t_sys y)) = op # ops \<Longrightarrow>
    awaitFirstPKIDoc K [AwaitOp op] ((y_session (t_sys y))\<lparr>s_opCh := ops\<rparr>) = (s', r) \<Longrightarrow>
    rt_step K dis g decrypt cfg getDocS y (y\<lparr>t_sys := (t_sys y)\<lparr>y_session := s'\<rparr>,
      t_place := (case r of None \<Rightarrow> AwaitFirst | Some None \<Rightarrow> Looking None [] | Some (Some _) \<Rightarrow> Failed)\<rparr>)"
| give_up: "t_place y = AwaitFirst \<Longrightarrow> ev \<in> {CtxDone err, AwaitHalt, AwaitTimeout} \<Longrightarrow>
    awaitFirstPKIDoc K [ev] (y_session (t_sys y)) = (s', r) \<Longrightarrow>
    rt_step K dis g decrypt cfg getDocS y (y\<lparr>t_sys := (t_sys y)\<lparr>y_session := s'\<rparr>, t_place := Failed\<rparr>)"
| load: "t_place y = Looking k ds \<Longrightarrow> k = None \<longrightarrow> ds = [] \<Longrightarrow>
    rt_step K dis g decrypt cfg getDocS y (y\<lparr>t_place := after_load k ds (currentDocument_load ei (t_pki y))\<rparr>)"
| force: "t_place y = Forcing k ds now \<Longrightarrow> currentDocument_force (t_pki y) = Some p' \<Longrightarrow>
    rt_step K dis g decrypt cfg getDocS y (y\<lparr>t_place := Awaiting k ds now, t_pki := p'\<rparr>)"
| answer: "t_place y = Awaiting k ds now \<Longrightarrow> currentDocument_done (t_pki y) now = Some (p', d) \<Longrightarrow>
    rt_step K dis g decrypt cfg getDocS y (y\<lparr>t_place := Looking k (ds @ [d]), t_pki := p'\<rparr>)"
| start: "t_place y = Looking None [d] \<Longrightarrow>
    worker_begin g (y_rng (t_sys y)) d (y_session (t_sys y)) = (s', rw) \<Longrightarrow>
    rt_step K dis g decrypt cfg getDocS y
      (y\<lparr>t_sys := (t_sys y)\<lparr>y_session := s', y_worker := map_option snd rw,
                   y_rng := (case rw of Some (r', _) \<Rightarrow> r' | None \<Rightarrow> y_rng (t_sys y))\<rparr>,
         t_place := (if rw = None then Gone else Selecting)\<rparr>)"
| asks: "t_place y = Selecting \<Longrightarrow> y_worker (t_sys y) = Some w \<Longrightarrow>
    worker_asks dis env ev w (y_session (t_sys y)) \<Longrightarrow>
    rt_step K dis g decrypt cfg getDocS y (y\<lparr>t_place := Looking (Some ev) []\<rparr>)"
| finish: "t_place y = Looking (Some ev) (d # ds) \<Longrightarrow> y_worker (t_sys y) = Some w \<Longrightarrow>
    worker_asks dis env ev w (y_session (t_sys y)) \<Longrightarrow> e_currentDoc env = d \<Longrightarrow> e_pushes env = [] \<Longrightarrow>
    worker_iteration K dis g env skew ev (y_rng (t_sys y), y_session (t_sys y), w) = Ok (Some (r', s', w')) \<Longrightarrow>
    rt_step K dis g decrypt cfg getDocS y
      (y\<lparr>t_sys := (t_sys y)\<lparr>y_session := s', y_worker := Some w', y_rng := r'\<rparr>, t_place := Selecting\<rparr>)"
| direct: "t_place y = Selecting \<Longrightarrow> y_worker (t_sys y) = Some w \<Longrightarrow>
    ev \<in> {LambdaPFired, LambdaLFired, LambdaDFired} \<Longrightarrow> \<not> worker_asks dis env ev w (y_session (t_sys y)) \<Longrightarrow>
    e_pushes env = [] \<Longrightarrow>
    worker_iteration K dis g env skew ev (y_rng (t_sys y), y_session (t_sys y), w) = Ok (Some (r', s', w')) \<Longrightarrow>
    rt_step K dis g decrypt cfg getDocS y
      (y\<lparr>t_sys := (t_sys y)\<lparr>y_session := s', y_worker := Some w', y_rng := r'\<rparr>\<rparr>)"
| operation: "t_place y = Selecting \<Longrightarrow> y_worker (t_sys y) = Some w \<Longrightarrow> s_opCh (y_session (t_sys y)) = op # ops \<Longrightarrow>
    worker_iteration K dis g env (ClockSkew (t_pki y)) (WakeOp op)
      (y_rng (t_sys y), (y_session (t_sys y))\<lparr>s_opCh := ops\<rparr>, w) = Ok (Some (r', s', w')) \<Longrightarrow>
    rt_step K dis g decrypt cfg getDocS y
      (y\<lparr>t_sys := (t_sys y)\<lparr>y_session := s', y_worker := Some w', y_rng := r'\<rparr>\<rparr>)"
| worker_halt: "t_place y = Selecting \<Longrightarrow> y_worker (t_sys y) = Some w \<Longrightarrow>
    worker_iteration K dis g env skew WakeHalt (y_rng (t_sys y), y_session (t_sys y), w) = Ok None \<Longrightarrow>
    rt_step K dis g decrypt cfg getDocS y (y\<lparr>t_sys := (t_sys y)\<lparr>y_worker := None\<rparr>, t_place := Gone\<rparr>)"
| user: "started (t_place y) \<Longrightarrow> user_step K decrypt (t_sys y) y' \<Longrightarrow>
    rt_step K dis g decrypt cfg getDocS y (y\<lparr>t_sys := y'\<rparr>)"
| early_sink: "eventSinkWorker ws (y_session (t_sys y)) = (s', out) \<Longrightarrow>
    rt_step K dis g decrypt cfg getDocS y (y\<lparr>t_sys := (t_sys y)\<lparr>y_session := s'\<rparr>\<rparr>)"
| connection: "length (s_opCh (y_session (t_sys y))) < opChSize \<Longrightarrow>
    rt_step K dis g decrypt cfg getDocS y
      (y\<lparr>t_sys := (t_sys y)\<lparr>y_session := onConnection err (y_session (t_sys y))\<rparr>\<rparr>)"
| announce: "p_worker (t_pki y) = Woken b \<Longrightarrow> t_callback y = None \<Longrightarrow> stop_timer b (t_pki y) = Some p1 \<Longrightarrow>
    pki_fetch getDocS ei obs p1 = (p2, Some now) \<Longrightarrow> OnDocumentFn_arg cfg now p2 = Some d \<Longrightarrow>
    rt_step K dis g decrypt cfg getDocS y (y\<lparr>t_pki := run_OnDocumentFn cfg now p2, t_callback := Some d\<rparr>)"
| announced: "t_callback y = Some d \<Longrightarrow> length (s_opCh (y_session (t_sys y))) < opChSize \<Longrightarrow>
    rt_step K dis g decrypt cfg getDocS y
      (y\<lparr>t_sys := (t_sys y)\<lparr>y_session := onDocument d (y_session (t_sys y))\<rparr>,
         t_pki := pki_finish (t_pki y), t_callback := None\<rparr>)"
| quiet: "p_worker (t_pki y) = Woken b \<Longrightarrow> t_callback y = None \<Longrightarrow> stop_timer b (t_pki y) = Some p1 \<Longrightarrow>
    pki_fetch getDocS ei obs p1 = (p2, r) \<Longrightarrow> r = None \<or> (\<exists>now. r = Some now \<and> OnDocumentFn_arg cfg now p2 = None) \<Longrightarrow>
    rt_step K dis g decrypt cfg getDocS y (y\<lparr>t_pki := pki_round cfg getDocS ei obs p1\<rparr>)"
| blocked: "p_worker (t_pki y) = Woken b \<Longrightarrow> t_callback y = None \<Longrightarrow> stop_timer b (t_pki y) = None \<Longrightarrow>
    rt_step K dis g decrypt cfg getDocS y (y\<lparr>t_pki := (t_pki y)\<lparr>p_worker := BlockedOnTimer\<rparr>\<rparr>)"
| pki: "pki_step cfg getDocS (t_pki y) p' \<Longrightarrow>
    (\<nexists>b. p_worker (t_pki y) = Woken b) \<or> p_worker p' = p_worker (t_pki y) \<Longrightarrow>
    rt_step K dis g decrypt cfg getDocS y (y\<lparr>t_pki := p'\<rparr>)"

inductive rt_reachable ::
  "kconst \<Rightarrow> bool \<Rightarrow> 'r rng_ops \<Rightarrow> (bytes \<Rightarrow> bytes \<Rightarrow> bytes result) \<Rightarrow> ClientConfig \<Rightarrow>
   ('s \<Rightarrow> 'ctx \<Rightarrow> u64 \<Rightarrow> 's \<times> (Document \<times> bytes) result) \<Rightarrow> 's \<Rightarrow> ('r, 's) runtime \<Rightarrow> bool"
  for K dis g decrypt cfg getDocS src where
  init: "rt_reachable K dis g decrypt cfg getDocS src (rt_init K src r)"
| step: "rt_reachable K dis g decrypt cfg getDocS src y \<Longrightarrow> rt_step K dis g decrypt cfg getDocS y y' \<Longrightarrow>
    rt_reachable K dis g decrypt cfg getDocS src y'"

section \<open>Lemmas\<close>

text \<open>
  Until the worker has started, the callbacks and the event sink have touched nothing but their
  channels; afterwards every step is one of the session's goroutines or leaves the session alone.
\<close>

definition early :: "kconst \<Rightarrow> 'r system \<Rightarrow> bool" where
  "early K y \<longleftrightarrow> y_worker y = None \<and> y_callers y = (\<lambda>_. None) \<and> y_used y = {} \<and> y_onACK y = {#} \<and> y_acks y = {#} \<and>
     (\<forall>e \<in> set (s_eventCh (y_session y)). early_event e) \<and>
     y_session y = (new_Session K)\<lparr>s_opCh := s_opCh (y_session y), s_eventCh := s_eventCh (y_session y),
       s_hasPKIDoc := s_hasPKIDoc (y_session y)\<rparr>"

lemma worker_asks_wake:
  "worker_asks dis env ev w s \<Longrightarrow> ev \<in> {LambdaPFired, LambdaLFired, LambdaDFired}"
  by (auto simp: worker_asks_def split: if_splits)

lemma early_upd:
  assumes "early K y"
    and "s' = (y_session y)\<lparr>s_opCh := s_opCh s', s_eventCh := s_eventCh s', s_hasPKIDoc := s_hasPKIDoc s'\<rparr>"
    and "set (s_eventCh s') \<subseteq> set (s_eventCh (y_session y)) \<union> Collect early_event"
  shows "early K (y\<lparr>y_session := s'\<rparr>)"
proof -
  let ?n = "new_Session K" and ?s = "y_session y"
  have e: "?s = ?n\<lparr>s_opCh := s_opCh ?s, s_eventCh := s_eventCh ?s, s_hasPKIDoc := s_hasPKIDoc ?s\<rparr>"
    using assms(1) by (simp add: early_def)
  have "s' = ?n\<lparr>s_opCh := s_opCh s', s_eventCh := s_eventCh s', s_hasPKIDoc := s_hasPKIDoc s'\<rparr>"
    by (subst assms(2), subst e) simp
  with assms(1,3) show ?thesis by (auto simp: early_def)
qed

lemma eventSinkWorker_frame:
  "eventSinkWorker ws s = (s', out) \<Longrightarrow> \<exists>es. s' = s\<lparr>s_eventCh := es\<rparr> \<and> set es \<subseteq> set (s_eventCh s)"
proof (induction ws s arbitrary: s' out rule: eventSinkWorker.induct)
  case (1 s)
  then show ?case by (auto intro: exI [of _ "s_eventCh s"])
next
  case (2 ws s)
  then show ?case by (auto intro: exI [of _ "s_eventCh s"])
next
  case (3 ws s)
  then show ?case by (cases "s_eventCh s") auto
next
  case (4 ws s)
  then show ?case
    by (cases "s_eventCh s") (fastforce intro: exI [of _ "s_eventCh s"] split: prod.splits)+
qed

lemma early_sink: "early K y \<Longrightarrow> eventSinkWorker ws (y_session y) = (s', out) \<Longrightarrow> early K (y\<lparr>y_session := s'\<rparr>)"
  by (rule early_upd, assumption) (auto dest!: eventSinkWorker_frame)



lemma started_after_load [simp]:
  "started (after_load k ds l) \<longleftrightarrow> k \<noteq> None" "after_load k ds l \<noteq> Failed"
  by (simp_all add: after_load_def split: lookup.splits)





text \<open>Who writes to \<open>opCh\<close> and to the worker's document.\<close>

lemma doSend_opCh [simp]: "s_opCh (doSend env m s) = s_opCh s"
  by (simp add: doSend_def session_upd Let_def split: sum.splits prod.splits option.splits)

lemma sendNext_opCh: "sendNext K env s = Ok s' \<Longrightarrow> s_opCh s' = s_opCh s"
  by (auto simp: sendNext_def session_upd Let_def elim!: obindE split: sum.splits option.splits)

lemma decoy_opCh:
  "sendDropDecoy K env s = Ok s' \<Longrightarrow> s_opCh s' = s_opCh s"
  "sendLoopDecoy K env s = Ok s' \<Longrightarrow> s_opCh s' = s_opCh s"
  by (auto simp: sendDropDecoy_def sendLoopDecoy_def session_upd elim!: obindE split: sum.splits)

lemma worker_fire_opCh: "worker_fire K dis env ev w s = Ok s' \<Longrightarrow> s_opCh s' = s_opCh s"
  by (auto simp: worker_fire_def sendFromQueueOrDecoy_def sendNext_opCh decoy_opCh elim!: obindE
      split: if_splits sum.splits)

lemma push_opCh:
  "SendUnreliableMessage K env rcpt prv message s = Ok (s', res) \<Longrightarrow> s_opCh s' = s_opCh s"
  by (cases "composeMessage K env rcpt prv message False")
    (auto simp: SendUnreliableMessage_def elim!: obindE split: option.splits)

lemma block_opCh:
  "BlockingSend_begin K env rcpt prv message s = Ok (s', b) \<Longrightarrow> s_opCh s' = s_opCh s"
  by (cases "composeMessage K env rcpt prv message True")
    (auto simp: BlockingSend_begin_def Let_def blocking_forget_def elim!: obindE split: option.splits)

lemma collect_opCh [simp]: "s_opCh (garbageCollect K now keys s) = s_opCh s"
  by (induction keys arbitrary: s) (auto simp: event_def split: option.splits)

lemma user_step_frame:
  "user_step K decrypt y y' \<Longrightarrow> s_opCh (y_session y') = s_opCh (y_session y) \<and> y_worker y' = y_worker y"
proof (induction rule: user_step.induct)
  case (sink ws y s' out)
  then show ?case by (auto dest: eventSinkWorker_frame)
next
  case (sent y ident m s' b)
  then show ?case by (auto simp: BlockingSend_sent_def)
next
  case (not_sent y ident s' b)
  then show ?case by (auto simp: BlockingSend_sent_def blocking_forget_def)
next
  case (ack_deliver ciphertext msg y s' reply)
  then show ?case using onACK_deliver_frame [OF ack_deliver(2)] by simp
qed (auto simp: BlockingSend_reply_def blocking_forget_def push_opCh block_opCh onACK_delete_def)

text \<open>
  The documents on their way: the ones announced so far are the ones the session has taken, then the
  ones in \<open>opCh\<close>, then the one whose announcement still waits for a place.
\<close>

fun announced_docs :: "workerOp list \<Rightarrow> Document list" where
  "announced_docs [] = []"
| "announced_docs (opNewDocument d # ops) = d # announced_docs ops"
| "announced_docs (opConnStatusChanged b # ops) = announced_docs ops"

lemma announced_docs_append [simp]: "announced_docs (ops @ ops') = announced_docs ops @ announced_docs ops'"
  by (induction ops rule: announced_docs.induct) auto

definition pending :: "('r, 's) runtime \<Rightarrow> Document list" where
  "pending y = (case t_callback y of Some d \<Rightarrow> [d] | None \<Rightarrow> [])"

definition taken_ok :: "('r, 's) runtime \<Rightarrow> Document list \<Rightarrow> bool" where
  "taken_ok y taken \<longleftrightarrow>
     p_callbacks (t_pki y) = taken @ announced_docs (s_opCh (y_session (t_sys y))) @ pending y \<and>
     (t_place y = AwaitFirst \<longrightarrow> taken = []) \<and>
     (t_place y \<noteq> AwaitFirst \<and> t_place y \<noteq> Failed \<longrightarrow> taken \<noteq> []) \<and>
     (\<not> started (t_place y) \<longrightarrow> y_worker (t_sys y) = None \<and> length taken \<le> 1) \<and>
     (\<forall>w. y_worker (t_sys y) = Some w \<longrightarrow> 1 < length taken \<longrightarrow> wk_doc w = last taken)"

lemma pki_step_callbacks:
  assumes "pki_step cfg getDocS p p'" and "(\<nexists>b. p_worker p = Woken b) \<or> p_worker p' = p_worker p"
  shows "p_callbacks p' = p_callbacks p"
  using assms
  by cases (auto simp: setClockSkew_def currentDocument_force_def currentDocument_done_def pki_round_worker
      split: if_splits)

lemma stop_timer_frame:
  "stop_timer b p = Some p' \<Longrightarrow> \<exists>tm. p' = p\<lparr>p_timer := tm\<rparr>"
  by (auto simp: stop_timer_def split: if_splits wtimer.splits intro: exI [of _ "p_timer p"])

lemma pki_fetch_frame:
  assumes "pki_fetch getDocS ei obs p = (p', r)"
  shows "p_callbacks p' = p_callbacks p \<and> (r \<noteq> None \<longrightarrow> p_worker p' = p_worker p) \<and>
    p_forceUpdateCh p' = p_forceUpdateCh p \<and> p_doneWorkerCh p' = p_doneWorkerCh p \<and> p_doneClosed p' = p_doneClosed p"
proof -
  obtain now el till err where nw: "Now ei = (now, el, till, err)" by (metis prod_cases4)
  obtain p1 did can where f: "fetch_epochs getDocS obs [now - 1, now] p False = (p1, did, can)"
    by (metis prod_cases3)
  have "p_callbacks p1 = p_callbacks p" "p_worker p1 = p_worker p" "p_forceUpdateCh p1 = p_forceUpdateCh p"
      "p_doneWorkerCh p1 = p_doneWorkerCh p" "p_doneClosed p1 = p_doneClosed p"
    using fetch_epochs_frame [of getDocS obs "[now - 1, now]" p False] f
    by (simp_all del: fetch_epochs.simps fetch_epochs_frame)
  with assms show ?thesis
    by (auto simp: pki_fetch_def nw f Let_def pruneDocuments_def pruneFailures_def simp del: fetch_epochs.simps
        split: if_splits)
qed

lemma run_OnDocumentFn_callbacks:
  "OnDocumentFn_arg cfg now p = Some d \<Longrightarrow> p_callbacks (run_OnDocumentFn cfg now p) = p_callbacks p @ [d]"
  "OnDocumentFn_arg cfg now p = None \<Longrightarrow> run_OnDocumentFn cfg now p = p"
  by (simp_all add: run_OnDocumentFn_def)

lemma quiet_callbacks:
  assumes "stop_timer b p = Some p1" and "pki_fetch getDocS ei obs p1 = (p2, r)"
    and "r = None \<or> (\<exists>now. r = Some now \<and> OnDocumentFn_arg cfg now p2 = None)"
  shows "p_callbacks (pki_round cfg getDocS ei obs p1) = p_callbacks p"
  using assms stop_timer_frame [OF assms(1)] pki_fetch_frame [OF assms(2)]
  by (auto simp: pki_round_def pki_finish_def run_OnDocumentFn_callbacks)

lemma worker_op_opCh: "worker_op K now skew op (s, w) = (s', w') \<Longrightarrow> s_opCh s' = s_opCh s"
  by (auto simp: worker_op_def connStatusChange_def Let_def fatal_def split: workerOp.splits option.splits if_splits)

lemma taken_await:
  assumes ok: "taken_ok y taken" and pl: "t_place y = AwaitFirst" and ops: "s_opCh (y_session (t_sys y)) = op # ops"
    and aw: "awaitFirstPKIDoc K [AwaitOp op] ((y_session (t_sys y))\<lparr>s_opCh := ops\<rparr>) = (s', r)"
  shows "\<exists>taken'. taken_ok (y\<lparr>t_sys := (t_sys y)\<lparr>y_session := s'\<rparr>,
      t_place := (case r of None \<Rightarrow> AwaitFirst | Some None \<Rightarrow> Looking None [] | Some (Some _) \<Rightarrow> Failed)\<rparr>) taken'"
proof (cases op)
  case (opConnStatusChanged b)
  with assms show ?thesis by (intro exI [of _ taken]) (auto simp: taken_ok_def pending_def)
next
  case (opNewDocument d)
  with aw have "s_opCh s' = ops" "r = Some None \<or> (\<exists>e. r = Some (Some e))"
    by (auto simp: fatal_def split: option.splits)
  with opNewDocument ok pl ops show ?thesis
    by (intro exI [of _ "[d]"]) (auto simp: taken_ok_def pending_def)
qed

lemma taken_operation:
  assumes ok: "taken_ok y taken" and pl: "t_place y = Selecting" and w: "y_worker (t_sys y) = Some w"
    and ops: "s_opCh (y_session (t_sys y)) = op # ops"
    and it: "worker_iteration K dis g env skew (WakeOp op) (r, (y_session (t_sys y))\<lparr>s_opCh := ops\<rparr>, w) =
      Ok (Some (r', s', w'))"
  shows "\<exists>taken'. taken_ok (y\<lparr>t_sys := (t_sys y)\<lparr>y_session := s', y_worker := Some w', y_rng := r'\<rparr>\<rparr>) taken'"
proof -
  from worker_iteration_step [OF it] obtain w1 where w1: "reset_timers g r (WakeOp op) w1 = (r', w')"
      "worker_op K (e_now env) skew op ((y_session (t_sys y))\<lparr>s_opCh := ops\<rparr>, w) = (s', w1)" by auto
  have s': "s_opCh s' = ops" using worker_op_opCh [OF w1(2)] by simp
  have d: "wk_doc w' = (case op of opNewDocument d \<Rightarrow> d | opConnStatusChanged _ \<Rightarrow> wk_doc w)"
    using worker_op_doc [OF w1(2)] reset_timers_frame [OF w1(1)] by simp
  show ?thesis
  proof (cases op)
    case (opConnStatusChanged b)
    with ok pl w ops s' d show ?thesis by (intro exI [of _ taken]) (auto simp: taken_ok_def pending_def)
  next
    case (opNewDocument nd)
    with ok pl w ops s' d show ?thesis by (intro exI [of _ "taken @ [nd]"]) (auto simp: taken_ok_def pending_def)
  qed
qed

lemma taken_fire:
  assumes ok: "taken_ok y taken" and w: "y_worker (t_sys y) = Some w" and st: "started (t_place y)"
    and ev: "ev \<in> {LambdaPFired, LambdaLFired, LambdaDFired}"
    and it: "worker_iteration K dis g env skew ev (r, y_session (t_sys y), w) = Ok (Some (r', s', w'))"
  shows "taken_ok (y\<lparr>t_sys := (t_sys y)\<lparr>y_session := s', y_worker := Some w', y_rng := r'\<rparr>, t_place := Selecting\<rparr>) taken"
proof -
  from worker_iteration_step [OF it] ev have w1: "reset_timers g r ev w = (r', w')"
      "worker_fire K dis env ev w (y_session (t_sys y)) = Ok s'" by auto
  with ok w st worker_fire_opCh [OF w1(2)] reset_timers_frame [OF w1(1)] show ?thesis
    by (auto simp: taken_ok_def pending_def)
qed

lemma after_load_cases: "after_load k ds l \<noteq> AwaitFirst" "after_load k ds l \<noteq> Selecting" "after_load k ds l \<noteq> Gone"
  by (simp_all add: after_load_def split: lookup.splits)

lemma rt_step_taken:
  assumes "rt_step K dis g decrypt cfg getDocS y y'" and ok: "taken_ok y taken"
  shows "\<exists>taken'. taken_ok y' taken'"
  using assms(1)
proof cases
  case (await op ops s' r)
  from taken_await [OF ok await(2-4)] show ?thesis unfolding await(1) .
next
  case (give_up ev err s' r)
  then have "s' = y_session (t_sys y)" by auto
  with give_up ok show ?thesis by (intro exI [of _ taken]) (auto simp: taken_ok_def pending_def)
next
  case (load k ds ei)
  with ok show ?thesis
    by (intro exI [of _ taken]) (auto simp: taken_ok_def pending_def after_load_cases)
next
  case (start d s' rw)
  then have "s_opCh s' = s_opCh (y_session (t_sys y))"
    by (auto simp: worker_begin_def fatal_def Let_def split: option.splits prod.splits)
  with start ok show ?thesis by (intro exI [of _ taken]) (auto simp: taken_ok_def pending_def)
next
  case (finish ev d ds w env skew r' s' w')
  from taken_fire [OF ok finish(3) _ worker_asks_wake [OF finish(4)] finish(7)] finish(2) show ?thesis
    unfolding finish(1) by auto
next
  case (direct w ev env skew r' s' w')
  have "y' = y\<lparr>t_sys := (t_sys y)\<lparr>y_session := s', y_worker := Some w', y_rng := r'\<rparr>, t_place := Selecting\<rparr>"
    using direct(1,2) by simp
  with taken_fire [OF ok direct(3) _ direct(4,7)] direct(2) show ?thesis by auto
next
  case (operation w op ops env r' s' w')
  from taken_operation [OF ok operation(2-5)] show ?thesis unfolding operation(1) .
next
  case (user ya)
  with ok user_step_frame [OF user(3)] show ?thesis by (intro exI [of _ taken]) (auto simp: taken_ok_def pending_def)
next
  case (early_sink ws s' out)
  with ok show ?thesis by (intro exI [of _ taken]) (auto simp: taken_ok_def pending_def dest!: eventSinkWorker_frame)
next
  case (connection err)
  with ok show ?thesis
    by (intro exI [of _ taken]) (auto simp: taken_ok_def pending_def onConnection_def event_def Let_def)
next
  case (announce b p1 ei obs p2 now d)
  with ok stop_timer_frame [OF announce(4)] pki_fetch_frame [OF announce(5)] show ?thesis
    by (intro exI [of _ taken]) (auto simp: taken_ok_def pending_def run_OnDocumentFn_callbacks)
next
  case (announced d)
  with ok show ?thesis
    by (intro exI [of _ taken]) (auto simp: taken_ok_def pending_def onDocument_def event_def pki_finish_def Let_def)
next
  case (quiet b p1 ei obs p2 r)
  with ok quiet_callbacks [OF quiet(4-6)] show ?thesis
    by (intro exI [of _ taken]) (auto simp: taken_ok_def pending_def)
next
  case (pki p')
  with ok pki_step_callbacks [OF pki(2,3)] show ?thesis
    by (intro exI [of _ taken]) (auto simp: taken_ok_def pending_def)
qed (use ok in \<open>intro exI [of _ taken],
      auto simp: taken_ok_def pending_def currentDocument_force_def currentDocument_done_def split: if_splits\<close>)

lemma rt_reachable_taken: "rt_reachable K dis g decrypt cfg getDocS src y \<Longrightarrow> \<exists>taken. taken_ok y taken"
proof (induction rule: rt_reachable.induct)
  case (init r)
  then show ?case by (simp add: taken_ok_def pending_def rt_init_def newPKI_def new_Session_def)
next
  case (step y y')
  then show ?case using rt_step_taken by blast
qed

context stateful_pki_source
begin

lemma rt_reachable_pki:
  assumes "rt_reachable K dis g decrypt cfg getDocS src y" and "inv src"
  shows "pki_inv inv (t_pki y)"
  using assms
proof (induction rule: rt_reachable.induct)
  case (init r)
  then show ?case by (simp add: rt_init_def newPKI_inv)
next
  case (step y y')
  then have inv: "pki_inv inv (t_pki y)" by simp
  have st: "pki_inv inv p1" if "stop_timer b (t_pki y) = Some p1" for b p1
    using that inv by (auto simp: stop_timer_def split: if_splits wtimer.splits)
  from step.hyps(2) show ?case
    using inv st
    by cases (auto simp: currentDocument_force_def currentDocument_done_def pki_finish_def split: if_splits
        intro: pki_step_inv pki_fetch_inv pki_round_inv)
qed

end

text \<open>A round of the PKI worker runs to its end when the callback finds a place in \<open>opCh\<close>.\<close>

lemma round_runs:
  assumes "p_worker (t_pki y) = Woken b" and "t_callback y = None" and "stop_timer b (t_pki y) = Some p1"
    and "length (s_opCh (y_session (t_sys y))) < opChSize"
  shows "\<exists>y'. (rt_step K dis g decrypt cfg getDocS)\<^sup>*\<^sup>* y y' \<and> t_pki y' = pki_round cfg getDocS ei obs p1 \<and>
    t_place y' = t_place y \<and> t_callback y' = None"
proof -
  obtain p2 r where f: "pki_fetch getDocS ei obs p1 = (p2, r)" by fastforce
  show ?thesis
  proof (cases "r = None \<or> (\<exists>now. r = Some now \<and> OnDocumentFn_arg cfg now p2 = None)")
    case True
    from rt_step.quiet [OF assms(1-3) f True] assms(2) show ?thesis
      by (intro exI [of _ "y\<lparr>t_pki := pki_round cfg getDocS ei obs p1\<rparr>"]) auto
  next
    case False
    then obtain now d where n: "r = Some now" "OnDocumentFn_arg cfg now p2 = Some d" by auto
    let ?y1 = "y\<lparr>t_pki := run_OnDocumentFn cfg now p2, t_callback := Some d\<rparr>"
    let ?y2 = "?y1\<lparr>t_sys := (t_sys y)\<lparr>y_session := onDocument d (y_session (t_sys y))\<rparr>,
         t_pki := pki_finish (t_pki ?y1), t_callback := None\<rparr>"
    have 1: "rt_step K dis g decrypt cfg getDocS y ?y1"
      using rt_step.announce [OF assms(1-3), of getDocS ei obs p2 now] f n by simp
    have 2: "rt_step K dis g decrypt cfg getDocS ?y1 ?y2"
      using rt_step.announced [of ?y1 d] assms(4) by simp
    have "t_pki ?y2 = pki_round cfg getDocS ei obs p1" using f n by (simp add: pki_round_def)
    moreover have "(rt_step K dis g decrypt cfg getDocS)\<^sup>*\<^sup>* y ?y2"
      by (rule converse_rtranclp_into_rtranclp, rule 1, rule r_into_rtranclp, rule 2)
    ultimately show ?thesis by (intro exI [of _ ?y2]) simp
  qed
qed

text \<open>A PKI worker whose announcement waits for a session worker that waits for it.\<close>

definition deadlocked :: "('r, 's) runtime \<Rightarrow> ('r, 's) runtime \<Rightarrow> bool" where
  "deadlocked y0 y \<longleftrightarrow> (\<exists>b. p_worker (t_pki y) = Woken b) \<and> t_callback y \<noteq> None \<and>
     opChSize \<le> length (s_opCh (y_session (t_sys y))) \<and> (\<exists>k ds now. t_place y = Awaiting k ds now) \<and>
     \<not> p_doneWorkerCh (t_pki y) \<and> \<not> p_doneClosed (t_pki y) \<and>
     t_place y = t_place y0 \<and> t_callback y = t_callback y0 \<and> p_docs (t_pki y) = p_docs (t_pki y0) \<and>
     s_opCh (y_session (t_sys y)) = s_opCh (y_session (t_sys y0))"

lemma pki_step_while_calling:
  assumes "pki_step cfg getDocS p p'" and "p_worker p = Woken b" and "p_worker p' = Woken b"
    and "\<not> p_doneWorkerCh p" and "\<not> p_doneClosed p"
  shows "\<not> p_doneWorkerCh p' \<and> \<not> p_doneClosed p' \<and> p_docs p' = p_docs p"
  using assms
  by cases (auto simp: setClockSkew_def currentDocument_force_def currentDocument_done_def pki_round_worker
      split: if_splits)

lemma deadlocked_step:
  assumes "rt_step K dis g decrypt cfg getDocS y y'" and "deadlocked y0 y"
  shows "deadlocked y0 y'"
  using assms(1)
proof cases
  case (user ya)
  with assms(2) user_step_frame [OF user(3)] show ?thesis by (auto simp: deadlocked_def)
next
  case (early_sink ws s' out)
  with assms(2) show ?thesis by (auto simp: deadlocked_def dest!: eventSinkWorker_frame)
next
  case (pki p')
  with assms(2) pki_step_while_calling [OF pki(2)] show ?thesis by (auto simp: deadlocked_def)
qed (use assms(2) in \<open>auto simp: deadlocked_def currentDocument_done_def\<close>)

interpretation deadlock: preserved "rt_step K dis g decrypt cfg getDocS" "deadlocked y0"
  for K dis g decrypt cfg and getDocS :: "'s \<Rightarrow> 'ctx \<Rightarrow> u64 \<Rightarrow> 's \<times> (Document \<times> bytes) result"
    and y0 :: "('r, 's) runtime"
  by unfold_locales (rule deadlocked_step)

text \<open>
  A run for the witnesses: the PKI worker announces the document of epoch 5, the session starts with
  it, and the connection comes up.
\<close>

definition any_doc :: "unit \<Rightarrow> unit \<Rightarrow> u64 \<Rightarrow> unit \<times> (Document \<times> bytes) result" where
  "any_doc src cx ep = (src, Inr (empty_doc ep, []))"

abbreviation example_rt_step :: "(unit, unit) runtime \<Rightarrow> (unit, unit) runtime \<Rightarrow> bool" where
  "example_rt_step \<equiv> rt_step example_const False (const_rng 7) (\<lambda>ct k. Inr []) example_cfg any_doc"

abbreviation example_rt :: "(unit, unit) runtime \<Rightarrow> bool" where
  "example_rt \<equiv> rt_reachable example_const False (const_rng 7) (\<lambda>ct k. Inr []) example_cfg any_doc ()"

definition example_pki :: "unit pki" where
  "example_pki = (newPKI ())\<lparr>p_docs := [5 \<mapsto> empty_doc 5], p_doneWorkerCh := True, p_timer := Running recheckInterval,
     p_lastCallbackEpoch := 5, p_callbacks := [empty_doc 5]\<rparr>"

lemma example_Now: "Now (n + 1, 0, None) = (n, 0, TestPeriod, None)"
  by (simp add: Now_def Let_def testEpochInterval_def u64_of_i64_def i64_of_u64_def to_i64_def TestPeriod_def
      Second_def)

lemma example_fetch:
  assumes "p_docs p = (\<lambda>_. None)" and "p_failedFetches p = (\<lambda>_. None)"
  shows "pki_fetch any_doc (6, 0, None) (\<lambda>_. ((), False)) p = (p\<lparr>p_docs := [5 \<mapsto> empty_doc 5]\<rparr>, Some 5)"
  using assms example_Now [of 5]
  by (auto simp: pki_fetch_def getDocumentDirect_def any_doc_def Let_def pruneDocuments_def pruneFailures_def
      intro!: pki.equality)

lemma first_tick:
  "rt_reachable K dis g decrypt cfg getDocS src
     ((rt_init K src r)\<lparr>t_pki := (newPKI src)\<lparr>p_timer := Idle, p_worker := Woken True\<rparr>\<rparr>)"
proof -
  let ?y0 = "rt_init K src r" and ?p1 = "(newPKI src)\<lparr>p_timer := Ticked\<rparr>"
  have "pki_step cfg getDocS (newPKI src) ?p1"
    by (rule pki_step.expire [of _ initialSpawnDelay]) (simp add: newPKI_def)
  then have 1: "rt_step K dis g decrypt cfg getDocS ?y0 (?y0\<lparr>t_pki := ?p1\<rparr>)"
    by (intro rt_step.pki) (simp_all add: rt_init_def newPKI_def)
  have "pki_step cfg getDocS ?p1 (?p1\<lparr>p_worker := Woken True, p_timer := Idle\<rparr>)"
    by (rule pki_step.tick) (simp_all add: newPKI_def)
  then have "rt_step K dis g decrypt cfg getDocS (?y0\<lparr>t_pki := ?p1\<rparr>)
      (?y0\<lparr>t_pki := ?p1\<rparr>\<lparr>t_pki := ?p1\<lparr>p_worker := Woken True, p_timer := Idle\<rparr>\<rparr>)"
    by (intro rt_step.pki) (simp_all add: newPKI_def)
  from rt_reachable.step [OF rt_reachable.step [OF rt_reachable.init 1] this] show ?thesis by (simp add: newPKI_def)
qed

lemma example_announced:
  "\<exists>y. example_rt y \<and> t_place y = AwaitFirst \<and> y_worker (t_sys y) = None \<and> t_pki y = example_pki \<and>
     t_callback y = None \<and> s_opCh (y_session (t_sys y)) = [opNewDocument (empty_doc 5)]"
proof -
  let ?y0 = "rt_init example_const () () :: (unit, unit) runtime"
  let ?p2 = "(newPKI ())\<lparr>p_timer := Idle, p_worker := Woken True\<rparr>"
  let ?p3 = "?p2\<lparr>p_docs := [5 \<mapsto> empty_doc 5]\<rparr>"
  have f: "pki_fetch any_doc (6, 0, None) (\<lambda>_. ((), False)) ?p2 = (?p3, Some 5)"
    by (rule example_fetch) (simp_all add: newPKI_def)
  have a: "OnDocumentFn_arg example_cfg 5 ?p3 = Some (empty_doc 5)"
    by (simp add: OnDocumentFn_arg_def newPKI_def example_cfg_def)
  let ?y3 = "?y0\<lparr>t_pki := run_OnDocumentFn example_cfg 5 ?p3, t_callback := Some (empty_doc 5)\<rparr>"
  have 3: "example_rt_step (?y0\<lparr>t_pki := ?p2\<rparr>) ?y3"
    using rt_step.announce [of "?y0\<lparr>t_pki := ?p2\<rparr>" True ?p2 any_doc "(6, 0, None)" "\<lambda>_. ((), False)" ?p3 5 example_cfg
        "empty_doc 5"] f a by (simp add: stop_timer_def rt_init_def)
  let ?y4 = "?y3\<lparr>t_sys := (t_sys ?y3)\<lparr>y_session := onDocument (empty_doc 5) (y_session (t_sys ?y3))\<rparr>,
      t_pki := pki_finish (t_pki ?y3), t_callback := None\<rparr>"
  have 4: "example_rt_step ?y3 ?y4"
    by (rule rt_step.announced) (simp_all add: rt_init_def new_Session_def opChSize_def)
  have p: "pki_finish (t_pki ?y3) = example_pki"
    using a by (simp add: pki_finish_def run_OnDocumentFn_def example_pki_def newPKI_def)
  have "example_rt ?y4"
    using rt_reachable.step [OF rt_reachable.step [OF first_tick 3] 4] .
  with p show ?thesis
    by (intro exI [of _ ?y4]) (simp add: rt_init_def onDocument_def event_def Let_def new_Session_def)
qed

lemma example_started:
  "\<exists>y w. example_rt y \<and> t_place y = Selecting \<and> y_worker (t_sys y) = Some w \<and> t_pki y = example_pki \<and>
     t_callback y = None \<and> s_opCh (y_session (t_sys y)) = []"
proof -
  obtain y where y: "example_rt y" "t_place y = AwaitFirst" "y_worker (t_sys y) = None" "t_pki y = example_pki"
      "t_callback y = None" "s_opCh (y_session (t_sys y)) = [opNewDocument (empty_doc 5)]"
    using example_announced by blast
  let ?s = "(y_session (t_sys y))\<lparr>s_opCh := []\<rparr>"
  have aw: "awaitFirstPKIDoc example_const [AwaitOp (opNewDocument (empty_doc 5))] ?s = (?s, Some None)"
    by (simp add: isDocValid_def empty_doc_def)
  let ?y1 = "y\<lparr>t_sys := (t_sys y)\<lparr>y_session := ?s\<rparr>, t_place := Looking None []\<rparr>"
  have 1: "example_rt_step y ?y1" using rt_step.await [OF y(2,6) aw] by simp
  have l: "currentDocument_load (6, 0, None) (t_pki ?y1) = Found (empty_doc 5)"
    using example_Now [of 5] y(4) by (simp add: currentDocument_load_def example_pki_def)
  let ?y2 = "?y1\<lparr>t_place := Looking None [Some (empty_doc 5)]\<rparr>"
  have 2: "example_rt_step ?y1 ?y2"
    using rt_step.load [of ?y1 None "[]" example_const False "const_rng 7" "\<lambda>ct k. Inr []" example_cfg any_doc "(6, 0, None)"] l
    by (simp add: after_load_def)
  obtain r w where b: "worker_begin (const_rng 7) (y_rng (t_sys ?y2)) (Some (empty_doc 5)) (y_session (t_sys ?y2)) =
      (y_session (t_sys ?y2), Some (r, w))"
    by (simp add: worker_begin_def Let_def split_beta)
  let ?y3 = "?y2\<lparr>t_sys := (t_sys ?y2)\<lparr>y_worker := Some w, y_rng := r\<rparr>, t_place := Selecting\<rparr>"
  have 3: "example_rt_step ?y2 ?y3" using rt_step.start [OF _ b] by simp
  have "example_rt ?y3"
    using rt_reachable.step [OF rt_reachable.step [OF rt_reachable.step [OF y(1) 1] 2] 3] .
  with y show ?thesis by (intro exI [of _ ?y3] exI [of _ w]) simp
qed

lemma example_running:
  "\<exists>y w. example_rt y \<and> t_place y = Selecting \<and> y_worker (t_sys y) = Some w \<and> wk_isConnected w \<and>
     t_pki y = example_pki \<and> t_callback y = None \<and> s_opCh (y_session (t_sys y)) = []"
proof -
  obtain y w where y: "example_rt y" "t_place y = Selecting" "y_worker (t_sys y) = Some w" "t_pki y = example_pki"
      "t_callback y = None" "s_opCh (y_session (t_sys y)) = []"
    using example_started by blast
  let ?y1 = "y\<lparr>t_sys := (t_sys y)\<lparr>y_session := onConnection None (y_session (t_sys y))\<rparr>\<rparr>"
  have 1: "example_rt_step y ?y1" by (rule rt_step.connection) (simp add: y(6) opChSize_def)
  have o: "s_opCh (y_session (t_sys ?y1)) = [opConnStatusChanged True]"
    using y(6) by (simp add: onConnection_def event_def Let_def)
  let ?s = "(y_session (t_sys ?y1))\<lparr>s_opCh := []\<rparr>" and ?w = "w\<lparr>wk_isConnected := True\<rparr>"
  obtain r2 w2 where r: "reset_timers (const_rng 7) (y_rng (t_sys y)) (WakeOp (opConnStatusChanged True)) ?w = (r2, w2)"
    by (rule prod.exhaust)
  have it: "worker_iteration example_const False (const_rng 7) example_senv (ClockSkew (t_pki ?y1))
      (WakeOp (opConnStatusChanged True)) (y_rng (t_sys ?y1), ?s, w) = Ok (Some (r2, ?s\<lparr>s_onlineAt := 100\<rparr>, w2))"
    using r by (simp add: worker_iteration_def worker_op_def connStatusChange_def example_senv_def Let_def)
  have w2: "wk_isConnected w2" using reset_timers_frame [OF r] by simp
  let ?y2 = "?y1\<lparr>t_sys := (t_sys ?y1)\<lparr>y_session := ?s\<lparr>s_onlineAt := 100\<rparr>, y_worker := Some w2, y_rng := r2\<rparr>\<rparr>"
  have 2: "example_rt_step ?y1 ?y2" by (rule rt_step.operation [OF _ _ o it]) (use y in simp_all)
  from rt_reachable.step [OF rt_reachable.step [OF y(1) 1] 2] y w2 show ?thesis
    by (intro exI [of _ ?y2] exI [of _ w2]) simp
qed

section \<open>Properties\<close>



text \<open>
  C8. Between the two workers no document is lost, repeated or reordered: the documents that the PKI
  worker has announced are those the session has taken, then those that wait in \<open>opCh\<close>, then the one
  whose announcement waits for a place; successive ones are of different epochs; and from the second
  document on the session worker paces its traffic by the last one it has taken.  This holds over
  the cached Katzenmint client.
\<close>

theorem documents_in_order:
  assumes "rt_reachable K dis g decrypt cfg (Cache_GetDoc PKIClient_GetDoc) src y" and "cache_inv src"
  shows "\<exists>taken. p_callbacks (t_pki y) = taken @ announced_docs (s_opCh (y_session (t_sys y))) @ pending y \<and>
    distinct_adj (map Epoch (p_callbacks (t_pki y))) \<and> (t_place y = Selecting \<longrightarrow> taken \<noteq> []) \<and>
    (\<forall>w. y_worker (t_sys y) = Some w \<longrightarrow> 1 < length taken \<longrightarrow> wk_doc w = last taken)"
proof -
  obtain taken where "taken_ok y taken" using rt_reachable_taken [OF assms(1)] by blast
  moreover have "distinct_adj (map Epoch (p_callbacks (t_pki y)))"
    using km.cached.rt_reachable_pki [OF assms] by (auto simp: pki_inv_def distinct_adj_Cons)
  ultimately show ?thesis by (intro exI [of _ taken]) (auto simp: taken_ok_def)
qed

theorem documents_in_order_witness:
  "\<exists>(y :: (unit, unit km_env Cache) runtime) taken.
     rt_reachable example_const False (const_rng 7) (\<lambda>ct k. Inr []) example_cfg (Cache_GetDoc PKIClient_GetDoc) NewCacheClient y \<and>
     [empty_doc 5] = taken @ announced_docs (s_opCh (y_session (t_sys y))) @ [empty_doc 5]"
proof -
  let ?y0 = "(rt_init example_const NewCacheClient ())\<lparr>t_pki := example_woken\<rparr> :: (unit, unit km_env Cache) runtime"
  let ?f = "pki_fetch (Cache_GetDoc PKIClient_GetDoc) (6, 0, None) (\<lambda>_. (env5, False)) example_woken"
  have e4: "PKIClient_GetDoc env5 4 = Inl ErrInvalidEpoch"
    by (simp add: PKIClient_GetDoc_def env5_def) (simp add: answer_env_def)
  have f: "snd ?f = Some 5" "OnDocumentFn_arg example_cfg 5 (fst ?f) = Some (empty_doc 5)" "p_callbacks (fst ?f) = []"
    using example_Now [of 5]
    by (simp_all add: pki_fetch_def getDocumentDirect_def Cache_GetDoc_def worker_fetch_def cacheGet_def
        e4 env5_GetDoc ErrInvalidEpoch_def ErrNoDocument_def errGetConsensusCanceled_def Let_def OnDocumentFn_arg_def
        pruneDocuments_def pruneFailures_def example_woken_def newPKI_def NewCacheClient_def example_cfg_def)
  obtain p2 where p2: "?f = (p2, Some 5)" using f(1) by (cases ?f) simp
  let ?y1 = "?y0\<lparr>t_pki := run_OnDocumentFn example_cfg 5 p2, t_callback := Some (empty_doc 5)\<rparr>"
  have "rt_step example_const False (const_rng 7) (\<lambda>ct k. Inr []) example_cfg (Cache_GetDoc PKIClient_GetDoc) ?y0 ?y1"
    by (rule rt_step.announce [OF _ _ _ p2]) (use p2 f(2) in \<open>simp_all add: example_woken_def rt_init_def stop_timer_def\<close>)
  then have r: "rt_reachable example_const False (const_rng 7) (\<lambda>ct k. Inr []) example_cfg (Cache_GetDoc PKIClient_GetDoc)
      NewCacheClient ?y1"
    unfolding example_woken_def by (rule rt_reachable.step [OF first_tick])
  have "p_callbacks (t_pki ?y1) = [empty_doc 5]" "pending ?y1 = [empty_doc 5]"
    using f p2 by (simp_all add: run_OnDocumentFn_callbacks pending_def)
  with documents_in_order [OF r env5_cache_inv] r show ?thesis by metis
qed

text \<open>
  A lookup that has to wait is answered: when the session worker waits for the PKI worker, whose
  timer has not been lost, \<open>opCh\<close> has a free place, and the document of the epoch asked for can be
  fetched, then the workers can take the steps that give the session worker that document.
\<close>

lemma lookup_answered:
  assumes "t_place y = Awaiting k ds now" and "p_worker (t_pki y) = InSelect" and "p_forceUpdateCh (t_pki y)"
    and "p_timer (t_pki y) \<noteq> Idle" and "t_callback y = None" and "length (s_opCh (y_session (t_sys y))) < opChSize"
    and "\<And>src cx ep src'. getDocS src cx ep \<noteq> (src', Inl errGetConsensusCanceled)"
    and "\<And>src cx. \<exists>src' d rw. getDocS src cx now = (src', Inr (d, rw))"
    and "p_failedFetches (t_pki y) now = None"
  shows "\<exists>y' d. (rt_step K dis g decrypt cfg getDocS)\<^sup>*\<^sup>* y y' \<and> t_place y' = Looking k (ds @ [Some d]) \<and>
    p_docs (t_pki y') now = Some d"
proof -
  let ?ei = "(now + 1, 0, None) :: epoch_info" and ?obs = "\<lambda>_. (undefined, False)"
  let ?p = "(t_pki y)\<lparr>p_worker := Woken False, p_forceUpdateCh := False\<rparr>"
  let ?y1 = "y\<lparr>t_pki := ?p\<rparr>" and ?p1 = "?p\<lparr>p_timer := Idle\<rparr>"
  have 1: "rt_step K dis g decrypt cfg getDocS y ?y1"
    by (rule rt_step.pki, rule pki_step.force) (use assms(2,3) in auto)
  have st: "stop_timer False (t_pki ?y1) = Some ?p1"
    using assms(4) by (auto simp: stop_timer_def split: wtimer.splits)
  from round_runs [OF _ _ st, of K dis g decrypt cfg getDocS ?ei ?obs] assms(5,6) obtain y2 where
    y2: "(rt_step K dis g decrypt cfg getDocS)\<^sup>*\<^sup>* ?y1 y2" "t_pki y2 = pki_round cfg getDocS ?ei ?obs ?p1"
      "t_place y2 = Awaiting k ds now"
    using assms(1) by auto
  from round_document [of ?ei now 0 ?obs getDocS ?p1 "t_pki y2" cfg] assms(7-9) y2(2) obtain d where
    d: "p_docs (t_pki y2) now = Some d" "p_doneWorkerCh (t_pki y2)" by auto
  let ?y3 = "y2\<lparr>t_place := Looking k (ds @ [Some d]), t_pki := (t_pki y2)\<lparr>p_doneWorkerCh := False\<rparr>\<rparr>"
  have "rt_step K dis g decrypt cfg getDocS y2 ?y3"
    by (rule rt_step.answer [OF y2(3)]) (simp add: currentDocument_done_def d)
  then have "(rt_step K dis g decrypt cfg getDocS)\<^sup>*\<^sup>* y ?y3"
    using converse_rtranclp_into_rtranclp [of "rt_step K dis g decrypt cfg getDocS", OF 1 y2(1)] by (rule rtranclp.rtrancl_into_rtrancl [rotated])
  with d(1) show ?thesis by (intro exI [of _ ?y3] exI [of _ d]) simp
qed

text \<open>
  C35. A change of the epoch can bring the session down although nothing failed: every round of the PKI
  worker leaves a token in \<open>doneWorkerCh\<close>.  When the document of a new epoch has not been fetched yet
  and a decoy is due, the lookup takes that old token instead of waiting for the update it has forced,
  finds no document, and the session worker reports a fatal error, on which the client shuts down;
  the PKI worker has not moved meanwhile.
\<close>

theorem epoch_change_is_fatal:
  assumes "t_place y = Selecting" and "y_worker (t_sys y) = Some w" and "wk_isConnected w"
    and "ev = LambdaLFired \<or> ev = LambdaDFired"
    and "p_doneWorkerCh (t_pki y)" and "\<not> p_forceUpdateCh (t_pki y)"
    and "currentDocument_load ei (t_pki y) = ForceFor now"
  shows "\<exists>y'. (rt_step K False g decrypt cfg getDocS)\<^sup>*\<^sup>* y y' \<and> t_place y' = Selecting \<and>
    s_fatalErrCh (y_session (t_sys y')) =
      s_fatalErrCh (y_session (t_sys y)) @ [Errorf ''failure to get loop service'' []] \<and>
    p_worker (t_pki y') = p_worker (t_pki y) \<and> p_docs (t_pki y') = p_docs (t_pki y) \<and> p_forceUpdateCh (t_pki y')"
proof -
  let ?R = "rt_step K False g decrypt cfg getDocS"
  let ?env = "example_senv\<lparr>e_currentDoc := None\<rparr>" and ?s = "y_session (t_sys y)"
  have none: "p_docs (t_pki y) now = None"
    using assms(7) by (auto simp: currentDocument_load_def split: prod.splits if_splits option.splits)
  have ask: "worker_asks False ?env ev w ?s" using assms(3,4) by (auto simp: worker_asks_def)
  let ?p1 = "(t_pki y)\<lparr>p_forceUpdateCh := True\<rparr>" and ?p2 = "(t_pki y)\<lparr>p_forceUpdateCh := True, p_doneWorkerCh := False\<rparr>"
  let ?y1 = "y\<lparr>t_place := Looking (Some ev) []\<rparr>" and ?y2 = "y\<lparr>t_place := Forcing (Some ev) [] now\<rparr>"
    and ?y3 = "y\<lparr>t_place := Awaiting (Some ev) [] now, t_pki := ?p1\<rparr>"
    and ?y4 = "y\<lparr>t_place := Looking (Some ev) [None], t_pki := ?p2\<rparr>"
  have 1: "?R y ?y1" using rt_step.asks [OF assms(1,2) ask] .
  have 2: "?R ?y1 ?y2"
    using rt_step.load [of ?y1 "Some ev" "[]" K False g decrypt cfg getDocS ei] assms(7) by (simp add: after_load_def)
  have 3: "?R ?y2 ?y3"
    using rt_step.force [of ?y2 "Some ev" "[]" now ?p1] assms(6) by (simp add: currentDocument_force_def)
  have 4: "?R ?y3 ?y4"
    using rt_step.answer [of ?y3 "Some ev" "[]" now ?p2 None] assms(5) none by (simp add: currentDocument_done_def)
  let ?s' = "fatal (Errorf ''failure to get loop service'' []) ?s"
  have f: "worker_fire K False ?env ev w ?s = Ok ?s'"
    using assms(3,4) by (auto simp: worker_fire_def sendLoopDecoy_def sendDropDecoy_def GetService_def)
  obtain r' w' where r: "reset_timers g (y_rng (t_sys y)) ev w = (r', w')" by fastforce
  have it: "worker_iteration K False g ?env 0 ev (y_rng (t_sys ?y4), y_session (t_sys ?y4), w) = Ok (Some (r', ?s', w'))"
    using f r assms(4) by (auto simp: worker_iteration_def)
  let ?y5 = "?y4\<lparr>t_sys := (t_sys ?y4)\<lparr>y_session := ?s', y_worker := Some w', y_rng := r'\<rparr>, t_place := Selecting\<rparr>"
  have 5: "?R ?y4 ?y5"
    by (rule rt_step.finish [OF _ _ _ _ _ it]) (use assms(2) ask in \<open>simp_all add: example_senv_def\<close>)
  have "?R\<^sup>*\<^sup>* y ?y5"
    by (rule converse_rtranclp_into_rtranclp, rule 1, rule converse_rtranclp_into_rtranclp, rule 2,
        rule converse_rtranclp_into_rtranclp, rule 3, rule converse_rtranclp_into_rtranclp, rule 4,
        rule r_into_rtranclp, rule 5)
  then show ?thesis by (intro exI [of _ ?y5]) (simp add: fatal_def)
qed

theorem epoch_change_is_fatal_witness:
  "\<exists>y y'. example_rt y \<and> example_rt_step\<^sup>*\<^sup>* y y' \<and>
     Errorf ''failure to get loop service'' [] \<in> set (s_fatalErrCh (y_session (t_sys y')))"
proof -
  obtain y w where y: "example_rt y" "t_place y = Selecting" "y_worker (t_sys y) = Some w" "wk_isConnected w"
      "t_pki y = example_pki"
    using example_running by blast
  have p: "p_doneWorkerCh (t_pki y)" "\<not> p_forceUpdateCh (t_pki y)"
      "currentDocument_load (7, 0, None) (t_pki y) = ForceFor 6"
    using example_Now [of 6] y(5) by (simp_all add: example_pki_def newPKI_def currentDocument_load_def)
  from epoch_change_is_fatal [OF y(2-4) disjI1 [OF refl] p, of example_const "const_rng 7" "\<lambda>ct k. Inr []" example_cfg any_doc]
  obtain y' where "example_rt_step\<^sup>*\<^sup>* y y'" "s_fatalErrCh (y_session (t_sys y')) =
      s_fatalErrCh (y_session (t_sys y)) @ [Errorf ''failure to get loop service'' []]" by blast
  with y(1) show ?thesis by (intro exI [of _ y] exI [of _ y']) simp
qed

text \<open>
  C36. The two workers can block each other for ever: let the PKI worker be in a round that will announce
  a document while \<open>opCh\<close> is full, and let the session worker look up that document before it is
  stored, with no token in \<open>doneWorkerCh\<close>.  Then the session worker waits for the end of the round,
  the announcement waits for the session worker to empty \<open>opCh\<close>, and no step of any goroutine, a halt
  included, changes that.
\<close>

theorem announcement_deadlock:
  assumes "t_place y = Selecting" and "y_worker (t_sys y) = Some w" and "worker_asks dis env ev w (y_session (t_sys y))"
    and "length (s_opCh (y_session (t_sys y))) = opChSize" and "t_callback y = None"
    and "p_worker (t_pki y) = Woken b" and "stop_timer b (t_pki y) = Some p1"
    and "\<not> p_doneWorkerCh (t_pki y)" and "\<not> p_doneClosed (t_pki y)" and "\<not> p_forceUpdateCh (t_pki y)"
    and "currentDocument_load ei (t_pki y) = ForceFor now"
    and "pki_fetch getDocS ei obs p1 = (p2, Some now)" and "OnDocumentFn_arg cfg now p2 = Some d"
  shows "\<exists>y1. (rt_step K dis g decrypt cfg getDocS)\<^sup>*\<^sup>* y y1 \<and>
    (\<forall>y'. (rt_step K dis g decrypt cfg getDocS)\<^sup>*\<^sup>* y1 y' \<longrightarrow>
       t_place y' = Awaiting (Some ev) [] now \<and> t_callback y' = Some d \<and>
       s_opCh (y_session (t_sys y')) = s_opCh (y_session (t_sys y)) \<and> p_docs (t_pki y') = p_docs p2)"
proof -
  let ?R = "rt_step K dis g decrypt cfg getDocS" and ?q = "run_OnDocumentFn cfg now p2"
  let ?y1 = "y\<lparr>t_place := Looking (Some ev) []\<rparr>" and ?y2 = "y\<lparr>t_place := Forcing (Some ev) [] now\<rparr>"
    and ?y3 = "y\<lparr>t_place := Forcing (Some ev) [] now, t_pki := ?q, t_callback := Some d\<rparr>"
    and ?y4 = "y\<lparr>t_callback := Some d, t_place := Awaiting (Some ev) [] now, t_pki := ?q\<lparr>p_forceUpdateCh := True\<rparr>\<rparr>"
  have fr: "p_worker ?q = Woken b" "\<not> p_doneWorkerCh ?q" "\<not> p_doneClosed ?q" "\<not> p_forceUpdateCh ?q" "p_docs ?q = p_docs p2"
    using stop_timer_frame [OF assms(7)] pki_fetch_frame [OF assms(12)] assms(6,8-10,13)
    by (auto simp: run_OnDocumentFn_def)
  have 1: "?R y ?y1" using rt_step.asks [OF assms(1-3)] .
  have 2: "?R ?y1 ?y2"
    using rt_step.load [of ?y1 "Some ev" "[]" K dis g decrypt cfg getDocS ei] assms(11) by (simp add: after_load_def)
  have "?R ?y2 (?y2\<lparr>t_pki := ?q, t_callback := Some d\<rparr>)"
    by (rule rt_step.announce [OF _ _ _ assms(12,13)]) (use assms(5-7) in simp_all)
  then have 3: "?R ?y2 ?y3" by simp
  have 4: "?R ?y3 ?y4"
    using rt_step.force [of ?y3 "Some ev" "[]" now "?q\<lparr>p_forceUpdateCh := True\<rparr>"] fr(4)
    by (simp add: currentDocument_force_def)
  have "?R\<^sup>*\<^sup>* y ?y4"
    by (rule converse_rtranclp_into_rtranclp, rule 1, rule converse_rtranclp_into_rtranclp, rule 2,
        rule converse_rtranclp_into_rtranclp, rule 3, rule r_into_rtranclp, rule 4)
  moreover have "deadlocked ?y4 ?y4" using assms(4) fr by (simp add: deadlocked_def)
  then have "deadlocked ?y4 y'" if "?R\<^sup>*\<^sup>* ?y4 y'" for y' using deadlock.along [OF that] by blast
  then have "t_place y' = Awaiting (Some ev) [] now \<and> t_callback y' = Some d \<and>
      s_opCh (y_session (t_sys y')) = s_opCh (y_session (t_sys y)) \<and> p_docs (t_pki y') = p_docs p2"
    if "?R\<^sup>*\<^sup>* ?y4 y'" for y'
    using that fr(5) by (simp add: deadlocked_def)
  ultimately show ?thesis by blast
qed

text \<open>Status changes fill \<open>opCh\<close>.\<close>

lemma connections_fill:
  assumes "rt_reachable K dis g decrypt cfg getDocS src y" and "length (s_opCh (y_session (t_sys y))) + n = opChSize"
  shows "\<exists>y'. rt_reachable K dis g decrypt cfg getDocS src y' \<and> length (s_opCh (y_session (t_sys y'))) = opChSize \<and>
    t_place y' = t_place y \<and> t_pki y' = t_pki y \<and> t_callback y' = t_callback y \<and> y_worker (t_sys y') = y_worker (t_sys y)"
  using assms
proof (induction n arbitrary: y)
  case 0
  then show ?case by (intro exI [of _ y]) simp
next
  case (Suc n)
  let ?y = "y\<lparr>t_sys := (t_sys y)\<lparr>y_session := onConnection None (y_session (t_sys y))\<rparr>\<rparr>"
  have "rt_reachable K dis g decrypt cfg getDocS src ?y"
    by (rule rt_reachable.step [OF Suc.prems(1) rt_step.connection]) (use Suc.prems(2) in simp)
  moreover have "length (s_opCh (y_session (t_sys ?y))) + n = opChSize"
    using Suc.prems(2) by (simp add: onConnection_def event_def Let_def)
  ultimately show ?case using Suc.IH [of ?y] by simp
qed

text \<open>Another goroutine looks up epoch 6 and takes the token; the PKI worker is woken by its request.\<close>

lemma example_round_begun:
  "\<exists>y w. example_rt y \<and> t_place y = Selecting \<and> y_worker (t_sys y) = Some w \<and> wk_isConnected w \<and>
     t_pki y = example_pki\<lparr>p_worker := Woken False, p_doneWorkerCh := False\<rparr> \<and> t_callback y = None \<and>
     s_opCh (y_session (t_sys y)) = []"
proof -
  obtain y w where y: "example_rt y" "t_place y = Selecting" "y_worker (t_sys y) = Some w" "wk_isConnected w"
      "t_pki y = example_pki" "t_callback y = None" "s_opCh (y_session (t_sys y)) = []"
    using example_running by blast
  let ?p1 = "example_pki\<lparr>p_forceUpdateCh := True\<rparr>" and ?p2 = "example_pki\<lparr>p_forceUpdateCh := True, p_doneWorkerCh := False\<rparr>"
  have in_select: "p_worker example_pki = InSelect" by (simp add: example_pki_def newPKI_def)
  have "pki_step example_cfg any_doc (t_pki y) ?p1"
    by (rule pki_step.request) (simp add: currentDocument_force_def y(5) example_pki_def newPKI_def)
  then have 1: "example_rt_step y (y\<lparr>t_pki := ?p1\<rparr>)" by (rule rt_step.pki) (simp add: y(5))
  have "pki_step example_cfg any_doc ?p1 ?p2"
    by (rule pki_step.answer [of _ 6 _ None]) (simp add: currentDocument_done_def example_pki_def newPKI_def)
  then have "example_rt_step (y\<lparr>t_pki := ?p1\<rparr>) (y\<lparr>t_pki := ?p1\<rparr>\<lparr>t_pki := ?p2\<rparr>)"
    by (intro rt_step.pki) simp_all
  then have 2: "example_rt_step (y\<lparr>t_pki := ?p1\<rparr>) (y\<lparr>t_pki := ?p2\<rparr>)" by simp
  have "pki_step example_cfg any_doc ?p2 (?p2\<lparr>p_worker := Woken False, p_forceUpdateCh := False\<rparr>)"
    by (rule pki_step.force) (simp_all add: in_select)
  then have 3: "example_rt_step (y\<lparr>t_pki := ?p2\<rparr>)
      (y\<lparr>t_pki := ?p2\<rparr>\<lparr>t_pki := ?p2\<lparr>p_worker := Woken False, p_forceUpdateCh := False\<rparr>\<rparr>)"
    by (intro rt_step.pki) (simp_all add: in_select)
  from rt_reachable.step [OF rt_reachable.step [OF rt_reachable.step [OF y(1) 1] 2] 3] y show ?thesis
    by (intro exI [of _ "y\<lparr>t_pki := ?p2\<rparr>\<lparr>t_pki := ?p2\<lparr>p_worker := Woken False, p_forceUpdateCh := False\<rparr>\<rparr>"] exI [of _ w])
      (simp add: example_pki_def newPKI_def)
qed

theorem announcement_deadlock_witness:
  "\<exists>y y1 d. example_rt y \<and> example_rt_step\<^sup>*\<^sup>* y y1 \<and> t_place y1 = Awaiting (Some LambdaLFired) [] 6 \<and>
     t_callback y1 = Some d"
proof -
  obtain y0 w where y0: "example_rt y0" "t_place y0 = Selecting" "y_worker (t_sys y0) = Some w" "wk_isConnected w"
      "t_pki y0 = example_pki\<lparr>p_worker := Woken False, p_doneWorkerCh := False\<rparr>" "t_callback y0 = None"
      "s_opCh (y_session (t_sys y0)) = []"
    using example_round_begun by blast
  from connections_fill [OF y0(1), of opChSize] y0 obtain y where y: "example_rt y" "t_place y = Selecting"
      "y_worker (t_sys y) = Some w" "t_pki y = example_pki\<lparr>p_worker := Woken False, p_doneWorkerCh := False\<rparr>"
      "t_callback y = None" "length (s_opCh (y_session (t_sys y))) = opChSize" by auto
  have ask: "worker_asks False example_senv LambdaLFired w (y_session (t_sys y))"
    using y0(4) by (simp add: worker_asks_def)
  let ?p1 = "(t_pki y)\<lparr>p_timer := Idle\<rparr>" and ?obs = "\<lambda>_::u64. ((), False)"
  have p: "p_worker (t_pki y) = Woken False" "stop_timer False (t_pki y) = Some ?p1" "\<not> p_doneWorkerCh (t_pki y)"
      "\<not> p_doneClosed (t_pki y)" "\<not> p_forceUpdateCh (t_pki y)"
      "currentDocument_load (7, 0, None) (t_pki y) = ForceFor 6"
    using y(4) example_Now [of 6]
    by (simp_all add: example_pki_def newPKI_def stop_timer_def currentDocument_load_def)
  have f: "pki_fetch any_doc (7, 0, None) ?obs ?p1 = (fst (pki_fetch any_doc (7, 0, None) ?obs ?p1), Some 6)"
      "OnDocumentFn_arg example_cfg 6 (fst (pki_fetch any_doc (7, 0, None) ?obs ?p1)) = Some (empty_doc 6)"
    using y(4) example_Now [of 6]
    by (simp_all add: pki_fetch_def getDocumentDirect_def any_doc_def Let_def example_pki_def newPKI_def
        pruneDocuments_def pruneFailures_def OnDocumentFn_arg_def example_cfg_def)
  from announcement_deadlock [OF y(2,3) ask y(6,5) p f, of example_const "const_rng 7" "\<lambda>ct k. Inr []"] y(1)
  show ?thesis by blast
qed


end
