(* ===== verification/Meson_Delivery.thy ===== *)
theory Meson_Delivery
  imports Meson_System
begin

text \<open>
  What happens to one user message over a whole run of a session.  It is handed to the minimal client at
  most once, and a reply is only ever delivered for a message that was handed over: the invariant ties
  together the queue, the record of calls and deliveries, the SURB map, the goroutines in \<open>onACK\<close> and
  the events that wait for the sink.  Decoys, whose identifiers are not in \<open>y_used\<close>, are left aside.
  A reply may be delivered twice, though: the lookup and the deletion of a SURB identifier are two
  accesses to the map, and two acknowledgements may both look it up before either deletes it.
\<close>

section \<open>Definitions\<close>

text \<open>The calls of the minimal client for a user message; and that it was handed over, once and successfully.\<close>

definition user_sends :: "bytes \<Rightarrow> session_action list \<Rightarrow> session_action list" where
  "user_sends i acts = filter (\<lambda>a. case a of MinSend m _ \<Rightarrow> m_ID m = i \<and> \<not> m_IsDecoy m | _ \<Rightarrow> False) acts"

definition sent_once :: "Session \<Rightarrow> bytes \<Rightarrow> bool \<Rightarrow> bool" where
  "sent_once s i blocking \<longleftrightarrow> (\<exists>m. user_sends i (s_out s) = [MinSend m None] \<and> m_IsBlocking m = blocking)"

text \<open>The messages whose acknowledgement may still be handled: the SURB map's, and those in the hands of \<open>onACK\<close>.\<close>

definition in_onACK :: "ack_place multiset \<Rightarrow> Message set" where
  "in_onACK A = {m. (\<exists>sid ct. AckLoaded sid ct m \<in># A) \<or> (\<exists>ct. AckDeleted ct m \<in># A)}"

definition acknowledgeable :: "Session \<Rightarrow> ack_place multiset \<Rightarrow> Message set" where
  "acknowledgeable s A = ran (s_surbIDMap s) \<union> in_onACK A"

text \<open>A user message has been replied to or may be: as a blocking message or as one that is not.\<close>

definition reply_due :: "Session \<Rightarrow> ack_place multiset \<Rightarrow> bytes \<Rightarrow> bool \<Rightarrow> bool" where
  "reply_due s A i blocking \<longleftrightarrow>
     (if blocking then \<exists>p. ReplyWait i p \<in> set (s_out s) else \<exists>p e. MessageReplyEvent i p e \<in> set (s_eventCh s)) \<or>
     (\<exists>m \<in> acknowledgeable s A. \<not> m_IsDecoy m \<and> m_ID m = i \<and> m_IsBlocking m = blocking)"

definition tx_ok :: "bytes set \<Rightarrow> Message list \<Rightarrow> Session \<Rightarrow> ack_place multiset \<Rightarrow> bytes \<Rightarrow> bool" where
  "tx_ok used q s A i \<longleftrightarrow>
     length (user_sends i (s_out s)) \<le> 1 \<and>
     (user_sends i (s_out s) \<noteq> [] \<longrightarrow> i \<in> used \<and> (\<forall>m \<in> set q. m_ID m \<noteq> i)) \<and>
     (\<forall>b. reply_due s A i b \<longrightarrow> sent_once s i b)"

definition tx_inv :: "kconst \<Rightarrow> bytes set \<Rightarrow> Session \<Rightarrow> ack_place multiset \<Rightarrow> bool" where
  "tx_inv K used s A \<longleftrightarrow> (\<forall>i. tx_ok used (queued K s) s A i) \<and> (\<forall>m \<in> acknowledgeable s A. m_WithSURB m)"

section \<open>Lemmas\<close>

lemma user_sends_simps [simp]:
  "user_sends i [] = []"
  "user_sends i (as @ bs) = user_sends i as @ user_sends i bs"
  "user_sends i (MinSend m e # as) = (if m_ID m = i \<and> \<not> m_IsDecoy m then MinSend m e # user_sends i as else user_sends i as)"
  "user_sends i (SentWait j m # as) = user_sends i as"
  "user_sends i (SentWaitClosed j # as) = user_sends i as"
  "user_sends i (ReplyWait j p # as) = user_sends i as"
  by (simp_all add: user_sends_def)

text \<open>A step that sends no user message and makes no new reply due keeps the invariant.\<close>

lemma tx_ok_quiet:
  assumes ok: "tx_ok used q s A i" and "used \<subseteq> used'" and q: "\<forall>m \<in> set q'. m \<in> set q \<or> m_ID m \<notin> used"
    and sends: "user_sends i (s_out s') = user_sends i (s_out s)" and due: "\<And>b. reply_due s' A' i b \<Longrightarrow> reply_due s A i b"
  shows "tx_ok used' q' s' A' i"
proof -
  have once: "sent_once s' i b = sent_once s i b" for b using sends by (simp add: sent_once_def)
  have "i \<in> used'" "m_ID m \<noteq> i" if "user_sends i (s_out s) \<noteq> []" "m \<in> set q'" for m
    using ok assms(2) q that by (auto simp: tx_ok_def)
  moreover have "i \<in> used'" if "user_sends i (s_out s) \<noteq> []" using ok assms(2) that by (auto simp: tx_ok_def)
  ultimately show ?thesis using ok due unfolding tx_ok_def once sends by blast
qed

text \<open>What makes replies due: entries, acknowledgements in hand, deliveries.\<close>

lemma reply_due_mono:
  assumes "\<And>p. ReplyWait i p \<in> set (s_out s') \<Longrightarrow> ReplyWait i p \<in> set (s_out s)"
    and "\<And>p e. MessageReplyEvent i p e \<in> set (s_eventCh s') \<Longrightarrow> MessageReplyEvent i p e \<in> set (s_eventCh s)"
    and "\<And>m. m \<in> acknowledgeable s' A' \<Longrightarrow> m \<in> acknowledgeable s A \<or> m_IsDecoy m"
    and "reply_due s' A' i b"
  shows "reply_due s A i b"
  using assms unfolding reply_due_def by (metis (full_types))

lemma tx_inv_quiet:
  assumes inv: "tx_inv K used s A" and u: "used \<subseteq> used'" and q: "\<forall>m \<in> set (queued K s'). m \<in> set (queued K s) \<or> m_ID m \<notin> used"
    and sends: "\<And>i. user_sends i (s_out s') = user_sends i (s_out s)"
    and waits: "\<And>i p. ReplyWait i p \<in> set (s_out s') \<Longrightarrow> ReplyWait i p \<in> set (s_out s)"
    and events: "\<And>i p e. MessageReplyEvent i p e \<in> set (s_eventCh s') \<Longrightarrow> MessageReplyEvent i p e \<in> set (s_eventCh s)"
    and msgs: "\<And>m. m \<in> acknowledgeable s' A' \<Longrightarrow> m \<in> acknowledgeable s A \<or> m_WithSURB m \<and> m_IsDecoy m"
  shows "tx_inv K used' s' A'"
proof -
  have "tx_ok used' (queued K s') s' A' i" for i
  proof (rule tx_ok_quiet [OF _ u q sends])
    show "tx_ok used (queued K s) s A i" using inv by (simp add: tx_inv_def)
    show "reply_due s A i b" if "reply_due s' A' i b" for b
      by (rule reply_due_mono [OF waits events _ that]) (use msgs in blast)+
  qed
  moreover have "m_WithSURB m" if "m \<in> acknowledgeable s' A'" for m using msgs [OF that] inv by (auto simp: tx_inv_def)
  ultimately show ?thesis by (simp add: tx_inv_def)
qed

lemma tx_inv_same:
  assumes "tx_inv K used s A" and "s_egressQueue s' = s_egressQueue s" and "s_out s' = s_out s"
    and "s_surbIDMap s' = s_surbIDMap s"
    and "\<And>i p e. MessageReplyEvent i p e \<in> set (s_eventCh s') \<Longrightarrow> MessageReplyEvent i p e \<in> set (s_eventCh s)"
    and "used \<subseteq> used'"
  shows "tx_inv K used' s' A"
  by (rule tx_inv_quiet [OF assms(1)]) (use assms in \<open>auto simp: queued_def acknowledgeable_def\<close>)

text \<open>
  What \<open>doSend\<close> does: nothing to the records when no SURB identifier could be drawn, else one call of the
  minimal client and, when that succeeded, perhaps an entry.
\<close>

lemma doSend_records:
  "s_out (doSend env m s) = s_out s \<and> s_eventCh (doSend env m s) = s_eventCh s \<and>
     s_surbIDMap (doSend env m s) = s_surbIDMap s \<or>
   (\<exists>err acts evs. s_out (doSend env m s) = s_out s @ MinSend m err # acts \<and> set acts \<subseteq> range (SentWait (m_ID m)) \<union> {SentWaitClosed (m_ID m)} \<and>
     s_eventCh (doSend env m s) = s_eventCh s @ evs \<and> (\<forall>i p e. MessageReplyEvent i p e \<notin> set evs) \<and>
     (s_surbIDMap (doSend env m s) = s_surbIDMap s \<or> err = None \<and> m_WithSURB m \<and>
        (\<exists>sid t eta key. s_surbIDMap (doSend env m s) =
           (s_surbIDMap s)(sid \<mapsto> m\<lparr>m_SentAt := t, m_ReplyETA := eta, m_Key := key\<rparr>))))"
proof (cases "e_surbID env")
  case (Inl e)
  then show ?thesis by (simp add: doSend_def fatal_def)
next
  case (Inr sid)
  obtain k eta err where c: "(if m_WithSURB m then e_SendCiphertext env (m_Recipient m) (m_Provider m) sid (m_Payload m)
      else (Some [], 0, e_SendUnreliable env (m_Recipient m) (m_Provider m) (m_Payload m))) = (k, eta, err)"
    by (metis prod_cases3)
  define m1 where "m1 = (if err = None then m\<lparr>m_SentAt := e_now env\<rparr> else m)"
  define m2 where "m2 = (if m_WithSURB m \<and> err = None
      then m1\<lparr>m_ReplyETA := eta, m_Key := (case k of None \<Rightarrow> [] | Some k \<Rightarrow> k)\<rparr> else m1)"
  define s1 where "s1 = act (MinSend m err) s"
  define s2 where "s2 = (if m_WithSURB m \<and> err = None then s1\<lparr>s_surbIDMap := (s_surbIDMap s1)(sid \<mapsto> m2)\<rparr> else s1)"
  have eq: "doSend env m s = (if m_WithSURB m \<and> m_IsBlocking m then
      (case s_sentWaitChanMap s2 (m_ID m) of
         None \<Rightarrow> fatal (Errorf ''impossible failure, sentWaitChan not found for message ID %x'' [ArgB (m_ID m)]) s2
       | Some _ \<Rightarrow> act (if err = None then SentWait (m_ID m) m2 else SentWaitClosed (m_ID m)) s2)
      else event (MessageSentEvent (m_ID m) (m_SentAt m2) (m_ReplyETA m2) err) s2)"
    unfolding doSend_def Inr sum.case c Let_def prod.case s2_def s1_def m2_def m1_def by simp
  have s2: "s_out s2 = s_out s @ [MinSend m err]" "s_eventCh s2 = s_eventCh s"
    by (simp_all add: s2_def s1_def act_def)
  obtain acts where acts: "s_out (doSend env m s) = s_out s @ MinSend m err # acts"
      "set acts \<subseteq> range (SentWait (m_ID m)) \<union> {SentWaitClosed (m_ID m)}"
    by (rule that [of "drop (Suc (length (s_out s))) (s_out (doSend env m s))"])
      (auto simp: eq s2 session_upd split: option.split)
  obtain evs where evs: "s_eventCh (doSend env m s) = s_eventCh s @ evs" "\<forall>i p e. MessageReplyEvent i p e \<notin> set evs"
    by (rule that [of "drop (length (s_eventCh s)) (s_eventCh (doSend env m s))"])
      (auto simp: eq s2 session_upd split: option.split)
  have map: "s_surbIDMap (doSend env m s) = s_surbIDMap s2" by (simp add: eq session_upd split: option.split)
  have "s_surbIDMap (doSend env m s) = s_surbIDMap s \<or> err = None \<and> m_WithSURB m \<and>
      (\<exists>sid t eta key. s_surbIDMap (doSend env m s) =
         (s_surbIDMap s)(sid \<mapsto> m\<lparr>m_SentAt := t, m_ReplyETA := eta, m_Key := key\<rparr>))"
  proof (cases "m_WithSURB m \<and> err = None")
    case True
    then have "s_surbIDMap (doSend env m s) = (s_surbIDMap s)(sid \<mapsto>
        m\<lparr>m_SentAt := e_now env, m_ReplyETA := eta, m_Key := (case k of None \<Rightarrow> [] | Some k \<Rightarrow> k)\<rparr>)"
      unfolding map by (simp add: s2_def s1_def m2_def m1_def act_def)
    with True show ?thesis by blast
  next
    case False
    then show ?thesis unfolding map by (intro disjI1) (auto simp: s2_def s1_def act_def)
  qed
  with acts evs show ?thesis by blast
qed

lemma tx_inv_decoy:
  assumes inv: "tx_inv K used s A" and m: "m_IsDecoy m"
  shows "tx_inv K used (doSend env m s) A"
  using doSend_records [of env m s]
proof (elim disjE exE conjE)
  assume "s_out (doSend env m s) = s_out s" "s_eventCh (doSend env m s) = s_eventCh s"
    "s_surbIDMap (doSend env m s) = s_surbIDMap s"
  then show ?thesis by (intro tx_inv_same [OF inv]) simp_all
next
  fix err acts evs
  assume r: "s_out (doSend env m s) = s_out s @ MinSend m err # acts"
      "set acts \<subseteq> range (SentWait (m_ID m)) \<union> {SentWaitClosed (m_ID m)}"
      "s_eventCh (doSend env m s) = s_eventCh s @ evs" "\<forall>i p e. MessageReplyEvent i p e \<notin> set evs"
    and map: "s_surbIDMap (doSend env m s) = s_surbIDMap s"
  have "user_sends i acts = []" for i using r(2) by (induction acts) auto
  with r m map show ?thesis by (intro tx_inv_quiet [OF inv]) (auto simp: queued_def acknowledgeable_def)
next
  fix err acts evs sid t eta key
  assume r: "s_out (doSend env m s) = s_out s @ MinSend m err # acts"
      "set acts \<subseteq> range (SentWait (m_ID m)) \<union> {SentWaitClosed (m_ID m)}"
      "s_eventCh (doSend env m s) = s_eventCh s @ evs" "\<forall>i p e. MessageReplyEvent i p e \<notin> set evs"
    and ws: "m_WithSURB m"
    and map: "s_surbIDMap (doSend env m s) = (s_surbIDMap s)(sid \<mapsto> m\<lparr>m_SentAt := t, m_ReplyETA := eta, m_Key := key\<rparr>)"
  have "user_sends i acts = []" for i using r(2) by (induction acts) auto
  with r m ws map show ?thesis
    by (intro tx_inv_quiet [OF inv]) (auto simp: queued_def acknowledgeable_def ran_def split: if_splits)
qed

text \<open>A user message at the head of the queue is handed over for the first time.\<close>

lemma tx_inv_send:
  assumes inv: "tx_inv K used s A" and q: "queued K s = m # ms" and u: "m_ID m \<in> used" "\<not> m_IsDecoy m"
    and d: "\<forall>m' \<in> set ms. m_ID m' \<noteq> m_ID m" and s': "s' = (doSend env m s)\<lparr>s_egressQueue := q'\<rparr>" "queued K s' = ms"
  shows "tx_inv K used s' A"
proof -
  have ok: "tx_ok used (m # ms) s A i" for i using inv q by (simp add: tx_inv_def)
  have unsent: "user_sends (m_ID m) (s_out s) = []" using ok [of "m_ID m"] by (auto simp: tx_ok_def)
  then have undue: "\<not> reply_due s A (m_ID m) b" for b using ok [of "m_ID m"] by (auto simp: tx_ok_def sent_once_def)
  have fr: "s_out s' = s_out (doSend env m s)" "s_eventCh s' = s_eventCh (doSend env m s)"
      "s_surbIDMap s' = s_surbIDMap (doSend env m s)" by (simp_all add: s'(1))
  from doSend_records [of env m s] consider
    (failed) "s_out s' = s_out s" "s_eventCh s' = s_eventCh s" "s_surbIDMap s' = s_surbIDMap s"
  | (called) err acts evs where "s_out s' = s_out s @ MinSend m err # acts"
      "set acts \<subseteq> range (SentWait (m_ID m)) \<union> {SentWaitClosed (m_ID m)}"
      "s_eventCh s' = s_eventCh s @ evs" "\<forall>i p e. MessageReplyEvent i p e \<notin> set evs"
      "s_surbIDMap s' = s_surbIDMap s \<or> err = None \<and> m_WithSURB m \<and>
        (\<exists>sid t eta key. s_surbIDMap s' = (s_surbIDMap s)(sid \<mapsto> m\<lparr>m_SentAt := t, m_ReplyETA := eta, m_Key := key\<rparr>))"
    unfolding fr by blast
  then show ?thesis
  proof cases
    case failed
    then show ?thesis using q s'(2) by (intro tx_inv_quiet [OF inv]) (auto simp: acknowledgeable_def)
  next
    case called
    have acts: "user_sends i acts = []" for i using called(2) by (induction acts) auto
    have new: "m' \<in> acknowledgeable s A \<or> err = None \<and> m_ID m' = m_ID m \<and> m_IsBlocking m' = m_IsBlocking m \<and> m_WithSURB m'"
      if "m' \<in> acknowledgeable s' A" for m'
      using that called(5) by (auto simp: acknowledgeable_def ran_def split: if_splits)
    have due: "reply_due s A i b \<or> err = None \<and> i = m_ID m \<and> b = m_IsBlocking m" if "reply_due s' A i b" for i b
    proof -
      have w: "ReplyWait i p \<in> set (s_out s)" if "ReplyWait i p \<in> set (s_out s')" for p using that called(1,2) by auto
      have e: "MessageReplyEvent i p x \<in> set (s_eventCh s)" if "MessageReplyEvent i p x \<in> set (s_eventCh s')" for p x
        using that called(3,4) by auto
      show ?thesis using that w e new unfolding reply_due_def by (metis (full_types))
    qed
    have "tx_ok used ms s' A i" for i
    proof (cases "i = m_ID m")
      case True
      have sent: "user_sends (m_ID m) (s_out s') = [MinSend m err]" using called(1) unsent acts u(2) by simp
      have "sent_once s' (m_ID m) b" if "reply_due s' A (m_ID m) b" for b
        using due [OF that] undue sent by (auto simp: sent_once_def)
      with sent u(1) d show ?thesis unfolding True by (simp add: tx_ok_def)
    next
      case False
      have "user_sends i (s_out s') = user_sends i (s_out s)" using called(1) acts False by simp
      moreover have "reply_due s A i b" if "reply_due s' A i b" for b using due [OF that] False by blast
      ultimately show ?thesis by (intro tx_ok_quiet [OF ok]) auto
    qed
    moreover have "m_WithSURB m'" if "m' \<in> acknowledgeable s' A" for m' using new [OF that] inv by (auto simp: tx_inv_def)
    ultimately show ?thesis unfolding tx_inv_def s'(2) by blast
  qed
qed

text \<open>The accesses of \<open>onACK\<close>.\<close>

lemma acknowledgeable_simps:
  "acknowledgeable s (add_mset (AckLoaded sid ct m) A) = insert m (acknowledgeable s A)"
  "acknowledgeable s (add_mset (AckDeleted ct m) A) = insert m (acknowledgeable s A)"
  by (auto simp: acknowledgeable_def in_onACK_def)

lemma acknowledgeable_diff: "m \<in> acknowledgeable s (A - B) \<Longrightarrow> m \<in> acknowledgeable s A"
  by (auto simp: acknowledgeable_def in_onACK_def dest: in_diffD)

lemma tx_inv_ack_load:
  assumes "tx_inv K used s A" and "onACK_load sid s = Some msg"
  shows "tx_inv K used s (add_mset (AckLoaded sid ct msg) A)"
proof -
  have "msg \<in> acknowledgeable s A" using assms(2) by (auto simp: onACK_load_def acknowledgeable_def ran_def)
  then show ?thesis by (intro tx_inv_quiet [OF assms(1)]) (auto simp: acknowledgeable_simps)
qed

lemma tx_inv_ack_delete:
  assumes "tx_inv K used s A" and "AckLoaded sid ct msg \<in># A"
  shows "tx_inv K used (onACK_delete sid s) (add_mset (AckDeleted ct msg) (A - {#AckLoaded sid ct msg#}))"
proof -
  have "msg \<in> acknowledgeable s A" using assms(2) by (auto simp: acknowledgeable_def in_onACK_def)
  moreover have "m \<in> acknowledgeable s (A - {#AckLoaded sid ct msg#})"
    if "m \<in> acknowledgeable (onACK_delete sid s) (A - {#AckLoaded sid ct msg#})" for m
    using that by (auto simp: acknowledgeable_def onACK_delete_def ran_def split: if_splits)
  ultimately show ?thesis
    by (intro tx_inv_quiet [OF assms(1)])
      (auto simp: acknowledgeable_simps onACK_delete_def queued_def dest: acknowledgeable_diff)
qed

lemma onACK_deliver_cases:
  assumes "onACK_deliver K decrypt ct msg s = Ok (s', r)"
  shows "s_out s' = s_out s \<and> s_eventCh s' = s_eventCh s \<and> r = None \<or>
    \<not> (m_WithSURB msg \<and> m_IsDecoy msg) \<and> (\<exists>p.
      if m_IsBlocking msg then s_out s' = s_out s @ [ReplyWait (m_ID msg) p] \<and> s_eventCh s' = s_eventCh s \<and> r = Some (m_ID msg, p)
      else s_out s' = s_out s \<and> s_eventCh s' = s_eventCh s @ [MessageReplyEvent (m_ID msg) p None] \<and> r = None)"
  using assms by (auto simp: onACK_deliver_def session_upd go_slice_def split: option.splits sum.splits if_splits)

lemma tx_inv_ack_deliver:
  assumes inv: "tx_inv K used s A" and k: "AckDeleted ct msg \<in># A"
    and d: "onACK_deliver K decrypt ct msg s = Ok (s', r)"
  shows "tx_inv K used s' (A - {#AckDeleted ct msg#})"
proof -
  note fr = onACK_deliver_frame [OF d]
  let ?A = "A - {#AckDeleted ct msg#}"
  have ack: "m \<in> acknowledgeable s A" if "m \<in> acknowledgeable s' ?A" for m
    using that fr acknowledgeable_diff [of m s A] by (simp add: acknowledgeable_def)
  have msg: "msg \<in> acknowledgeable s A" using k by (auto simp: acknowledgeable_def in_onACK_def)
  then have ws: "m_WithSURB msg" using inv by (simp add: tx_inv_def)
  have due: "reply_due s A i b" if "reply_due s' ?A i b" for i b
  proof -
    from that consider p where "b" "ReplyWait i p \<in> set (s_out s')" | p e where "\<not> b" "MessageReplyEvent i p e \<in> set (s_eventCh s')"
      | m where "m \<in> acknowledgeable s' ?A" "\<not> m_IsDecoy m" "m_ID m = i" "m_IsBlocking m = b"
      unfolding reply_due_def by (metis (full_types))
    then show ?thesis
    proof cases
      case 1
      with onACK_deliver_cases [OF d] msg ws show ?thesis by (auto simp: reply_due_def split: if_splits)
    next
      case 2
      with onACK_deliver_cases [OF d] msg ws show ?thesis by (auto simp: reply_due_def split: if_splits)
    next
      case 3
      with ack show ?thesis by (auto simp: reply_due_def)
    qed
  qed
  have sends: "user_sends i (s_out s') = user_sends i (s_out s)" for i
    using onACK_deliver_cases [OF d] by (auto split: if_splits)
  have "tx_ok used (queued K s') s' ?A i" for i
    by (rule tx_ok_quiet [where s = s and A = A and q = "queued K s" and used = used])
      (use inv fr sends due in \<open>auto simp: tx_inv_def queued_def\<close>)
  with inv ack show ?thesis by (auto simp: tx_inv_def)
qed

text \<open>The other operations.\<close>

lemma tx_inv_push:
  assumes inv: "tx_inv K used s A" and fresh: "m_ID m \<notin> used" and qi: "q_inv (MaxEgressQueueSize K) (s_egressQueue s)"
    and push: "Queue_Push (MaxEgressQueueSize K) (s_egressQueue s) m = Ok (q, err)"
    and s': "s_egressQueue s' = q" "s_out s' = s_out s" "s_surbIDMap s' = s_surbIDMap s" "s_eventCh s' = s_eventCh s"
  shows "tx_inv K (insert (m_ID m) used) s' A"
proof -
  from qi have "set (queued K s') \<subseteq> insert m (set (queued K s))"
  proof (cases rule: ring.push_cases [where e = m])
    case (1 q')
    with push s'(1) show ?thesis by (simp add: queued_def)
  next
    case 2
    with push s'(1) show ?thesis by (auto simp: queued_def)
  qed
  then show ?thesis by (intro tx_inv_quiet [OF inv]) (use fresh s' in \<open>auto simp: acknowledgeable_def\<close>)
qed

lemma tx_inv_SendUnreliable:
  assumes inv: "tx_inv K used s A" and e: "e_msgID env = Inr ident" "ident \<notin> used"
    and qi: "q_inv (MaxEgressQueueSize K) (s_egressQueue s)"
    and b: "SendUnreliableMessage K env rcpt prv message s = Ok (s', res)"
  shows "tx_inv K (insert ident used) s' A"
proof (cases "composeMessage K env rcpt prv message False")
  case (Inl err)
  with b have "s' = s" by (simp add: SendUnreliableMessage_def)
  then show ?thesis by (intro tx_inv_same [OF inv]) auto
next
  case (Inr m)
  have ident: "m_ID m = ident" using composeMessage_payload [OF Inr] e by simp
  from b Inr obtain q err where p: "Queue_Push (MaxEgressQueueSize K) (s_egressQueue s) m = Ok (q, err)"
    and s': "s' = s\<lparr>s_egressQueue := q\<rparr>"
    by (auto simp: SendUnreliableMessage_def elim!: obindE split: option.splits)
  show ?thesis using tx_inv_push [OF inv _ qi p, of s'] e ident s' by simp
qed

lemma tx_inv_block:
  assumes inv: "tx_inv K used s A" and e: "e_msgID env = Inr ident" "ident \<notin> used"
    and qi: "q_inv (MaxEgressQueueSize K) (s_egressQueue s)"
    and b: "BlockingSend_begin K env rcpt prv message s = Ok (s', b)"
  shows "tx_inv K (insert ident used) s' A"
proof (cases "composeMessage K env rcpt prv message True")
  case (Inl err)
  with b have "s' = s" by (simp add: BlockingSend_begin_def)
  then show ?thesis by (intro tx_inv_same [OF inv]) auto
next
  case (Inr m)
  have ident: "m_ID m = ident" using composeMessage_payload [OF Inr] e by simp
  from b Inr obtain q err where p: "Queue_Push (MaxEgressQueueSize K) (s_egressQueue s) m = Ok (q, err)"
    and s': "s_egressQueue s' = q" "s_out s' = s_out s" "s_surbIDMap s' = s_surbIDMap s" "s_eventCh s' = s_eventCh s"
    by (auto simp: BlockingSend_begin_def blocking_forget_def Let_def elim!: obindE split: option.splits)
  show ?thesis using tx_inv_push [OF inv _ qi p s'] e ident by simp
qed

lemma tx_inv_collect: "tx_inv K used s A \<Longrightarrow> tx_inv K used (garbageCollect K now keys s) A"
proof (induction keys arbitrary: s)
  case (Cons k keys)
  have "tx_inv K used (event (MessageIDGarbageCollected i) (s\<lparr>s_surbIDMap := (s_surbIDMap s)(k := None)\<rparr>)) A" for i
    by (rule tx_inv_quiet [OF Cons.prems]) (auto simp: event_def queued_def acknowledgeable_def ran_def split: if_splits)
  with Cons show ?case by (auto split: option.splits)
qed simp

lemma eventSinkWorker_drops:
  "eventSinkWorker ws s = (s', out) \<Longrightarrow> set (s_eventCh s') \<subseteq> set (s_eventCh s) \<and> s_egressQueue s' = s_egressQueue s \<and>
     s_out s' = s_out s \<and> s_surbIDMap s' = s_surbIDMap s"
proof (induction ws s arbitrary: s' out rule: eventSinkWorker.induct)
  case (3 ws s)
  then show ?case by (cases "s_eventCh s") auto
next
  case (4 ws s)
  show ?case
  proof (cases "s_eventCh s")
    case Nil
    with 4(2) show ?thesis by auto
  next
    case (Cons e es)
    obtain s1 out1 where r: "eventSinkWorker ws (s\<lparr>s_eventCh := es\<rparr>) = (s1, out1)" by fastforce
    with 4(2) Cons have "s' = s1" by simp
    with 4(1) [OF Cons r] Cons show ?thesis by auto
  qed
qed auto

lemma tx_inv_sink:
  assumes "tx_inv K used s A" and "eventSinkWorker ws s = (s', out)"
  shows "tx_inv K used s' A"
  by (rule tx_inv_same [OF assms(1)]) (use eventSinkWorker_drops [OF assms(2)] in auto)

lemma tx_inv_fatal: "tx_inv K used s A \<Longrightarrow> tx_inv K used (fatal e s) A"
  by (erule tx_inv_same) (simp_all add: fatal_def)

lemma tx_inv_decoys:
  assumes "tx_inv K used s A"
  shows "sendDropDecoy K env s = Ok s' \<Longrightarrow> tx_inv K used s' A" "sendLoopDecoy K env s = Ok s' \<Longrightarrow> tx_inv K used s' A"
proof -
  have d: "tx_inv K used (doSend env (decoy_message K i sd b) s) A" for i sd b
    by (rule tx_inv_decoy [OF assms]) (simp add: decoy_message_def)
  have "tx_inv K used (incrementDecoyLoopTally (doSend env (decoy_message K i sd b) s)) A" for i sd b
    by (rule tx_inv_same [OF d]) (simp_all add: incrementDecoyLoopTally_def)
  with d tx_inv_fatal [OF assms]
  show "sendDropDecoy K env s = Ok s' \<Longrightarrow> tx_inv K used s' A" "sendLoopDecoy K env s = Ok s' \<Longrightarrow> tx_inv K used s' A"
    by (auto simp: sendDropDecoy_def sendLoopDecoy_def elim!: obindE split: sum.splits)
qed

lemma tx_inv_fire:
  assumes inv: "tx_inv K used s A" and si: "session_inv K used callers s" and pushes: "e_pushes env = []"
    and wf: "worker_fire K dis env ev w s = Ok s'"
  shows "tx_inv K used s' A"
proof -
  have qi: "q_inv (MaxEgressQueueSize K) (s_egressQueue s)" using si by (simp add: session_inv_def)
  have "tx_inv K used s1 A" if f: "sendFromQueueOrDecoy K dis env s = Ok s1" for s1
  proof (cases "queued K s")
    case Nil
    then have "Queue_Peek (s_egressQueue s) = Ok (Inl ErrQueueEmpty)"
      using ring.peek_empty [OF qi] by (simp add: queued_def)
    with f inv tx_inv_decoys(1) [OF inv] show ?thesis by (auto simp: sendFromQueueOrDecoy_def split: if_splits)
  next
    case (Cons m ms)
    then have pk: "Queue_Peek (s_egressQueue s) = Ok (Inr (Some m))"
      using ring.peek_item [OF qi] by (simp add: queued_def)
    from sendNext_head [OF qi, of m ms env] Cons pushes f pk obtain q' where
      s1: "s1 = (doSend env m s)\<lparr>s_egressQueue := q'\<rparr>" "queued K s1 = ms"
      by (auto simp: queued_def sendFromQueueOrDecoy_def)
    have "m_ID m \<in> used" "\<not> m_IsDecoy m" "\<forall>m' \<in> set ms. m_ID m' \<noteq> m_ID m"
      using si Cons by (auto simp: session_inv_def queue_ok_def rev_image_eqI)
    from tx_inv_send [OF inv Cons this s1] show ?thesis .
  qed
  with wf inv tx_inv_decoys [OF inv] show ?thesis by (auto simp: worker_fire_def split: if_splits)
qed

lemma tx_user_step:
  assumes "user_step K decrypt y y'" and "sys_inv K y" and "tx_inv K (y_used y) (y_session y) (y_onACK y)"
  shows "tx_inv K (y_used y') (y_session y') (y_onACK y')"
  using assms
proof (induction rule: user_step.induct)
  case (send env ident y rcpt prv message s' res)
  then show ?case using tx_inv_SendUnreliable by (simp add: sys_inv_def session_inv_def)
next
  case (block env ident y rcpt prv message s' b)
  then show ?case using tx_inv_block by (simp add: sys_inv_def session_inv_def)
next
  case (sent y ident m s' b)
  then show ?case by (simp add: BlockingSend_sent_def)
next
  case (not_sent y ident s' b)
  then show ?case by (auto simp: BlockingSend_sent_def blocking_forget_def elim!: tx_inv_same)
next
  case (reply y ident t p s' b)
  then show ?case by (auto simp: BlockingSend_reply_def blocking_forget_def elim!: tx_inv_same)
next
  case (timeout y ident t s' b)
  then show ?case by (auto simp: BlockingSend_reply_def blocking_forget_def elim!: tx_inv_same)
next
  case (ack_load sid y msg ciphertext)
  then show ?case by (simp add: tx_inv_ack_load)
next
  case (ack_delete sid ciphertext msg y)
  then show ?case by (simp add: tx_inv_ack_delete)
next
  case (ack_deliver ciphertext msg y s' reply)
  then show ?case using tx_inv_ack_deliver by simp
next
  case (collect y now keys)
  then show ?case by (simp add: tx_inv_collect)
next
  case (sink ws y s' out)
  then show ?case using tx_inv_sink by simp
qed

lemma tx_sys_step:
  assumes "sys_step K dis g decrypt y y'" and "sys_inv K y" and "tx_inv K (y_used y) (y_session y) (y_onACK y)"
  shows "tx_inv K (y_used y') (y_session y') (y_onACK y')"
  using assms
proof (induction rule: sys_step.induct)
  case (user y y')
  then show ?case by (rule tx_user_step)
next
  case (operation y w op ops env skew r' s' w')
  from worker_iteration_step [OF operation(3)] have "s_egressQueue s' = s_egressQueue (y_session y) \<and>
      s_out s' = s_out (y_session y) \<and> s_surbIDMap s' = s_surbIDMap (y_session y) \<and> s_eventCh s' = s_eventCh (y_session y)"
    by (auto simp: worker_op_def connStatusChange_def fatal_def Let_def split: workerOp.splits option.splits if_splits)
  with operation(5) show ?case by (auto elim!: tx_inv_same)
next
  case (fire y w ev env skew r' s' w')
  from worker_iteration_step [OF fire(4)] fire(2) have "worker_fire K dis env ev w (y_session y) = Ok s'" by auto
  with fire tx_inv_fire show ?case by (auto simp: sys_inv_def)
qed (auto simp: onConnection_def onDocument_def event_def Let_def elim!: tx_inv_same)

lemma sys_init_tx:
  assumes "\<forall>e \<in> set evs. early_event e" and "0 < MaxEgressQueueSize K"
  shows "tx_inv K {} (y_session (sys_init K g r doc ops evs h)) {#}"
proof -
  have q: "queued K (y_session (sys_init K g r doc ops evs h)) = []"
    using new_Queue_inv [OF assms(2), where 'a = Message and 'b = Message]
    by (cases doc) (simp_all add: sys_init_def worker_begin_def Let_def split_beta queued_def new_Session_def fatal_def)
  have e: "MessageReplyEvent i p e \<notin> set evs" for i p e using assms(1) by (auto simp: early_event_def)
  show ?thesis
    unfolding tx_inv_def tx_ok_def q using e
    by (cases doc) (simp_all add: sys_init_def worker_begin_def Let_def split_beta new_Session_def fatal_def
        reply_due_def acknowledgeable_def in_onACK_def)
qed

lemma sys_reachable_tx:
  assumes "sys_reachable K dis g decrypt y" and "0 < MaxEgressQueueSize K"
  shows "tx_inv K (y_used y) (y_session y) (y_onACK y)"
  using assms
proof (induction rule: sys_reachable.induct)
  case (init evs r doc ops hasDoc)
  have "y_used (sys_init K g r doc ops evs hasDoc) = {}" "y_onACK (sys_init K g r doc ops evs hasDoc) = {#}"
    by (simp_all add: sys_init_def split: prod.split)
  with sys_init_tx [OF init, of g r doc ops hasDoc] show ?case by simp
next
  case (step y y')
  then show ?case using tx_sys_step sys_reachable_inv by blast
qed

text \<open>The record of actions only grows, so what a goroutine is sending has been recorded.\<close>

lemma doSend_out: "a \<in> set (s_out s) \<Longrightarrow> a \<in> set (s_out (doSend env m s))"
  using doSend_records [of env m s] by auto

lemma decoy_out:
  "sendDropDecoy K env s = Ok s' \<Longrightarrow> set (s_out s) \<subseteq> set (s_out s')"
  "sendLoopDecoy K env s = Ok s' \<Longrightarrow> set (s_out s) \<subseteq> set (s_out s')"
  by (auto simp: sendDropDecoy_def sendLoopDecoy_def fatal_def incrementDecoyLoopTally_def doSend_out elim!: obindE
      split: sum.splits)

lemma sendNext_out: "sendNext K env s = Ok s' \<Longrightarrow> set (s_out s) \<subseteq> set (s_out s')"
  by (auto simp: sendNext_def fatal_def Let_def doSend_out elim!: obindE split: sum.splits option.splits)

lemma worker_fire_out: "worker_fire K dis env ev w s = Ok s' \<Longrightarrow> set (s_out s) \<subseteq> set (s_out s')"
  using decoy_out [of K env s s'] sendNext_out [of K env s s']
  by (auto simp: worker_fire_def sendFromQueueOrDecoy_def elim!: obindE split: if_splits sum.splits)

definition acks_ok :: "'r system \<Rightarrow> bool" where
  "acks_ok y \<longleftrightarrow> (\<forall>i p. (i, p) \<in># y_acks y \<longrightarrow> ReplyWait i p \<in> set (s_out (y_session y)))"

lemma acks_user_step:
  assumes "user_step K decrypt y y'" and "acks_ok y"
  shows "acks_ok y'"
  using assms
proof (induction rule: user_step.induct)
  case (ack_deliver ciphertext msg y s' reply)
  then show ?case using onACK_deliver_cases [OF ack_deliver(2)] by (cases reply) (auto simp: acks_ok_def split: if_splits)
next
  case (sink ws y s' out)
  then show ?case by (simp add: acks_ok_def answered_sink)
next
  case (sent y ident m s' b)
  then show ?case by (auto simp: acks_ok_def BlockingSend_sent_def)
next
  case (not_sent y ident s' b)
  then show ?case by (auto simp: acks_ok_def BlockingSend_sent_def blocking_forget_def)
qed (auto simp: acks_ok_def BlockingSend_reply_def blocking_forget_def onACK_delete_def dest: in_diffD)

lemma acks_sys_step:
  assumes "sys_step K dis g decrypt y y'" and "acks_ok y"
  shows "acks_ok y'"
  using assms
proof (induction rule: sys_step.induct)
  case (user y y')
  then show ?case by (rule acks_user_step)
next
  case (operation y w op ops env skew r' s' w')
  from worker_iteration_step [OF operation(3)] have "s_out s' = s_out (y_session y)"
    by (auto simp: worker_op_def connStatusChange_def fatal_def Let_def split: workerOp.splits option.splits if_splits)
  with operation(4) show ?case by (simp add: acks_ok_def)
next
  case (fire y w ev env skew r' s' w')
  from worker_iteration_step [OF fire(4)] fire(2) have "worker_fire K dis env ev w (y_session y) = Ok s'" by auto
  from worker_fire_out [OF this] fire(5) show ?case by (auto simp: acks_ok_def)
qed (auto simp: acks_ok_def onConnection_def onDocument_def event_def Let_def)

lemma sys_reachable_acks: "sys_reachable K dis g decrypt y \<Longrightarrow> acks_ok y"
proof (induction rule: sys_reachable.induct)
  case (init evs r doc ops hasDoc)
  then show ?case by (simp add: acks_ok_def sys_init_def split: prod.split)
next
  case (step y y')
  then show ?case using acks_sys_step by blast
qed

section \<open>Properties\<close>

text \<open>
  C6. Over a whole run of a session, whatever its goroutines do, a user message is handed to the minimal
  client at most once and is no longer queued then, and only a message that was handed over
  successfully is ever replied to: what is sent to a waiting caller is for a blocking message, what is
  reported as an event for one that is not, and decoys have no replies.
\<close>

theorem replies_only_to_sent:
  assumes "sys_reachable K dis g decrypt y" and "0 < MaxEgressQueueSize K" and "s = y_session y"
  shows "length (user_sends i (s_out s)) \<le> 1 \<and> (user_sends i (s_out s) \<noteq> [] \<longrightarrow> (\<forall>m \<in> set (queued K s). m_ID m \<noteq> i)) \<and>
    ((i, p) \<in># y_acks y \<longrightarrow> sent_once s i True) \<and>
    (MessageReplyEvent i p e \<in> set (s_eventCh s) \<longrightarrow> sent_once s i False)"
proof -
  have ok: "tx_ok (y_used y) (queued K s) s (y_onACK y) i"
    using sys_reachable_tx [OF assms(1,2)] assms(3) by (simp add: tx_inv_def)
  have "reply_due s (y_onACK y) i True" if "(i, p) \<in># y_acks y"
    using sys_reachable_acks [OF assms(1)] that assms(3) by (auto simp: acks_ok_def reply_due_def)
  moreover have "reply_due s (y_onACK y) i False" if "MessageReplyEvent i p e \<in> set (s_eventCh s)"
    using that by (auto simp: reply_due_def)
  ultimately show ?thesis using ok by (auto simp: tx_ok_def)
qed

theorem replies_only_to_sent_witness:
  "\<exists>y p. example_reach y \<and> ([9, 9], p) \<in># y_acks y \<and> sent_once (y_session y) [9, 9] True"
proof -
  obtain y t p where y: "example_reach y" "([9, 9], p) \<in># y_acks y" using example_replied by blast
  have "0 < MaxEgressQueueSize example_const" by (simp add: example_N)
  from replies_only_to_sent [OF y(1) this refl, of "[9, 9]" p] y show ?thesis by blast
qed

text \<open>
  C34. A repeated acknowledgement is ignored when its callback runs after the first one, but two callbacks
  that overlap both deliver: while a SURB identifier of a user message is outstanding, two
  acknowledgements of it that are handled one after the other give one reply event, and two that both
  look the identifier up before it is deleted give two.
\<close>

theorem overlapping_acks_deliver_twice:
  assumes "s_surbIDMap (y_session y) sid = Some msg" and "\<not> m_IsDecoy msg" and "\<not> m_IsBlocking msg"
    and "decrypt ct (m_Key msg) = Inr plaintext" and "length plaintext = ForwardPayloadLength K"
    and "2 \<le> ForwardPayloadLength K" and "reply = MessageReplyEvent (m_ID msg) (drop 2 plaintext) None"
  shows "(\<exists>s'. onACKs K decrypt [(sid, ct), (sid, ct)] (y_session y) = Ok s' \<and>
      s_eventCh s' = s_eventCh (y_session y) @ [reply]) \<and>
    (\<exists>y'. (sys_step K dis g decrypt)\<^sup>*\<^sup>* y y' \<and> s_eventCh (y_session y') = s_eventCh (y_session y) @ [reply, reply])"
proof
  let ?R = "sys_step K dis g decrypt"
  have dl: "onACK_deliver K decrypt ct msg s = Ok (event reply s, None)" for s
    using assms by (simp add: onACK_deliver_def go_slice_def)
  show "\<exists>s'. onACKs K decrypt [(sid, ct), (sid, ct)] (y_session y) = Ok s' \<and>
      s_eventCh s' = s_eventCh (y_session y) @ [reply]"
    using assms(1) by (simp add: onACK_def onACK_load_def onACK_delete_def dl event_def)
  let ?l = "AckLoaded sid ct msg" and ?d = "AckDeleted ct msg"
  let ?y1 = "y\<lparr>y_onACK := add_mset ?l (y_onACK y)\<rparr>" and ?y2 = "y\<lparr>y_onACK := add_mset ?l (add_mset ?l (y_onACK y))\<rparr>"
  let ?s = "onACK_delete sid (y_session y)"
  let ?y3 = "y\<lparr>y_session := ?s, y_onACK := add_mset ?d (add_mset ?l (y_onACK y))\<rparr>"
    and ?y4 = "y\<lparr>y_session := ?s, y_onACK := add_mset ?d (add_mset ?d (y_onACK y))\<rparr>"
    and ?y5 = "y\<lparr>y_session := event reply ?s, y_onACK := add_mset ?d (y_onACK y)\<rparr>"
    and ?y6 = "y\<lparr>y_session := event reply (event reply ?s), y_onACK := y_onACK y\<rparr>"
  have 1: "?R y ?y1" using sys_step.user [OF user_step.ack_load [of sid y msg]] assms(1) by (simp add: onACK_load_def)
  have 2: "?R ?y1 ?y2" using sys_step.user [OF user_step.ack_load [of sid ?y1 msg]] assms(1) by (simp add: onACK_load_def)
  have 3: "?R ?y2 ?y3" using sys_step.user [OF user_step.ack_delete [of sid ct msg ?y2]] by simp
  have "onACK_delete sid (onACK_delete sid (y_session y)) = onACK_delete sid (y_session y)" by (simp add: onACK_delete_def)
  then have 4: "?R ?y3 ?y4"
    using sys_step.user [OF user_step.ack_delete [of sid ct msg ?y3]] by (simp add: add_mset_commute)
  have 5: "?R ?y4 ?y5" using sys_step.user [OF user_step.ack_deliver [of ct msg ?y4, OF _ dl]] by simp
  have 6: "?R ?y5 ?y6" using sys_step.user [OF user_step.ack_deliver [of ct msg ?y5, OF _ dl]] by simp
  have "?R\<^sup>*\<^sup>* y ?y6"
    by (rule converse_rtranclp_into_rtranclp, rule 1, rule converse_rtranclp_into_rtranclp, rule 2,
        rule converse_rtranclp_into_rtranclp, rule 3, rule converse_rtranclp_into_rtranclp, rule 4,
        rule converse_rtranclp_into_rtranclp, rule 5, rule r_into_rtranclp, rule 6)
  then show "\<exists>y'. ?R\<^sup>*\<^sup>* y y' \<and> s_eventCh (y_session y') = s_eventCh (y_session y) @ [reply, reply]"
    by (intro exI [of _ ?y6]) (simp add: event_def onACK_delete_def)
qed

text \<open>A run for the witness: the session connects, and a message is sent that nobody waits for.\<close>

lemma example_outstanding:
  "\<exists>y msg. example_reach y \<and> s_surbIDMap (y_session y) [5, 5] = Some msg \<and> \<not> m_IsDecoy msg \<and> \<not> m_IsBlocking msg"
proof -
  obtain y w where y: "example_reach y" "y_worker y = Some w" "wk_isConnected w" "y_used y = {}"
      "s_egressQueue (y_session y) = new_Queue 3"
    using example_connected by blast
  obtain m where m: "composeMessage example_const example_senv ''x'' ''b'' [1] False = Inr m" "m_WithSURB m"
      "\<not> m_IsBlocking m" "\<not> m_IsDecoy m"
    by (simp add: composeMessage_def example_const_def example_senv_def blank_Message_def)
  obtain q where q: "Queue_Push 3 (new_Queue 3) m = Ok (q, None)" "q_inv 3 q" "q_list 3 q = [m]"
    using example_push [of m] by (elim exE conjE) (rule that)
  let ?s = "(y_session y)\<lparr>s_egressQueue := q\<rparr>"
  have b: "SendUnreliableMessage example_const example_senv ''x'' ''b'' [1] (y_session y) = Ok (?s, Inr (m_ID m))"
    using m q y(5) by (simp add: SendUnreliableMessage_def example_N)
  let ?y1 = "y\<lparr>y_session := ?s, y_used := insert [9, 9] (y_used y)\<rparr>"
  have "e_msgID example_senv = Inr [9, 9]" "[9, 9] \<notin> y_used y" using y(4) by (simp_all add: example_senv_def)
  from sys_reachable.step [OF y(1) sys_step.user [OF user_step.send [OF this b]]] have y1: "example_reach ?y1" .
  note qh = sendNext_head [where K = example_const and s = ?s and m = m and ms = "[]" and env = example_senv]
  obtain q' where q': "sendNext example_const example_senv ?s = Ok ((doSend example_senv m ?s)\<lparr>s_egressQueue := q'\<rparr>)"
    using qh q(2,3) by (auto simp: example_N)
  let ?s2 = "(doSend example_senv m ?s)\<lparr>s_egressQueue := q'\<rparr>"
  let ?m = "m\<lparr>m_SentAt := 100, m_ReplyETA := Second, m_Key := [1]\<rparr>"
  have e: "s_surbIDMap ?s2 [5, 5] = Some ?m" using m by (simp add: doSend_def example_senv_def Let_def session_upd)
  obtain r2 w2 where r: "reset_timers (const_rng 7) (y_rng y) LambdaPFired w = (r2, w2)" by (rule prod.exhaust)
  have "Queue_Peek (s_egressQueue ?s) = Ok (Inr (Some m))" using ring.peek_item [OF q(2,3)] by simp
  with y(3) q' r have it: "worker_iteration example_const True (const_rng 7) example_senv 0 LambdaPFired
      (y_rng ?y1, y_session ?y1, w) = Ok (Some (r2, ?s2, w2))"
    by (simp add: worker_iteration_def worker_fire_def sendFromQueueOrDecoy_def)
  let ?y2 = "?y1\<lparr>y_session := ?s2, y_worker := Some w2, y_rng := r2\<rparr>"
  have "example_reach ?y2"
    by (rule sys_reachable.step [OF y1 sys_step.fire [OF _ _ _ it]]) (use y(2) in \<open>simp_all add: example_senv_def\<close>)
  with e m show ?thesis by (intro exI [of _ ?y2] exI [of _ ?m]) simp
qed

theorem overlapping_acks_deliver_twice_witness:
  "\<exists>y y' e. example_reach y \<and> (sys_step example_const True (const_rng 7) (\<lambda>ct k. Inr (replicate 10 7)))\<^sup>*\<^sup>* y y' \<and>
     s_eventCh (y_session y') = s_eventCh (y_session y) @ [e, e]"
proof -
  obtain y msg where y: "example_reach y" "s_surbIDMap (y_session y) [5, 5] = Some msg" "\<not> m_IsDecoy msg" "\<not> m_IsBlocking msg"
    using example_outstanding by blast
  let ?dec = "\<lambda>(ct :: bytes) (k :: bytes). Inr (replicate 10 7) :: bytes result"
  have k: "length (replicate 10 (7 :: u8)) = ForwardPayloadLength example_const" "2 \<le> ForwardPayloadLength example_const"
    by (simp_all add: example_const_def)
  from overlapping_acks_deliver_twice [where decrypt = ?dec and ct = "[]" and dis = True and g = "const_rng 7",
      OF y(2-4) refl k refl] y(1)
  show ?thesis by blast
qed

end
