(* ===== verification/Meson_Frames.thy ===== *)
theory Meson_Frames
  imports Meson_Delivery
begin

text \<open>
  The shape of messages.  Go's types give a message a slice of any length; the code relies on more:
  every payload has the fixed size that the minimal client insists on, a user message is framed by
  its length, a decoy is all zeros and nobody waits for it.  This is shown as a type is: the
  constructors give well-shaped messages, and every step of a session keeps all messages, queued,
  sent or waiting for a reply, well-shaped.
\<close>

section \<open>Definitions\<close>

definition framed :: "kconst \<Rightarrow> bytes \<Rightarrow> bytes \<Rightarrow> bool" where
  "framed K message payload \<longleftrightarrow> length message + 4 \<le> UserForwardPayloadLength K \<and>
     payload = PutUint32 (word_of_nat (length message)) @ message @
       replicate (UserForwardPayloadLength K - 4 - length message) 0"

definition user_shaped :: "kconst \<Rightarrow> Message \<Rightarrow> bool" where
  "user_shaped K m \<longleftrightarrow> \<not> m_IsDecoy m \<and> m_WithSURB m \<and> (\<exists>message. framed K message (m_Payload m))"

definition decoy_shaped :: "kconst \<Rightarrow> Message \<Rightarrow> bool" where
  "decoy_shaped K m \<longleftrightarrow> m_IsDecoy m \<and> \<not> m_IsBlocking m \<and> m_Payload m = replicate (UserForwardPayloadLength K) 0"

definition shaped :: "kconst \<Rightarrow> Message \<Rightarrow> bool" where
  "shaped K m \<longleftrightarrow> user_shaped K m \<or> decoy_shaped K m"

definition shape_inv :: "kconst \<Rightarrow> Session \<Rightarrow> bool" where
  "shape_inv K s \<longleftrightarrow> (\<forall>m \<in> set (queued K s). user_shaped K m) \<and>
     (\<forall>m err. MinSend m err \<in> set (s_out s) \<longrightarrow> shaped K m) \<and>
     (\<forall>sid m. s_surbIDMap s sid = Some m \<longrightarrow> shaped K m \<and> m_WithSURB m)"

section \<open>Lemmas\<close>

text \<open>The constructors give well-shaped messages.\<close>

lemma composeMessage_shaped: "composeMessage K env rcpt prv message b = Inr m \<Longrightarrow> user_shaped K m"
  using composeMessage_payload [of K env rcpt prv message b m] by (auto simp: user_shaped_def framed_def)

lemma decoy_message_shaped: "decoy_shaped K (decoy_message K ident sd b)"
  by (simp add: decoy_shaped_def decoy_message_def blank_Message_def)

lemma shaped_length: "shaped K m \<Longrightarrow> length (m_Payload m) = UserForwardPayloadLength K"
  by (auto simp: shaped_def user_shaped_def decoy_shaped_def framed_def)

lemma shape_inv_step:
  assumes "shape_inv K s" and "\<forall>m \<in> set (queued K s'). m \<in> set (queued K s) \<or> user_shaped K m"
    and "\<And>m err. MinSend m err \<in> set (s_out s') \<Longrightarrow> MinSend m err \<in> set (s_out s) \<or> shaped K m"
    and "\<And>sid m. s_surbIDMap s' sid = Some m \<Longrightarrow> s_surbIDMap s sid = Some m \<or> shaped K m \<and> m_WithSURB m"
  shows "shape_inv K s'"
  using assms(1,2) assms(3,4) unfolding shape_inv_def by blast

lemma shape_inv_same:
  "shape_inv K s \<Longrightarrow> s_egressQueue s' = s_egressQueue s \<Longrightarrow> s_out s' = s_out s \<Longrightarrow> s_surbIDMap s' = s_surbIDMap s \<Longrightarrow>
   shape_inv K s'"
  by (simp add: shape_inv_def queued_def)

lemma shaped_stamped [simp]: "shaped K (m\<lparr>m_SentAt := t, m_ReplyETA := eta, m_Key := key\<rparr>) = shaped K m"
  by (simp add: shaped_def user_shaped_def decoy_shaped_def)

lemma shape_inv_doSend:
  assumes "shape_inv K s" and "shaped K m" and "\<forall>m' \<in> set (queued K s'). m' \<in> set (queued K s)"
    and "s_out s' = s_out (doSend env m s)" and "s_surbIDMap s' = s_surbIDMap (doSend env m s)"
  shows "shape_inv K s'"
proof (rule shape_inv_step [OF assms(1)])
  show "\<forall>m \<in> set (queued K s'). m \<in> set (queued K s) \<or> user_shaped K m" using assms(3) by blast
  show "MinSend m' err \<in> set (s_out s) \<or> shaped K m'" if "MinSend m' err \<in> set (s_out s')" for m' err
    using doSend_records [of env m s]
  proof (elim disjE exE conjE)
    fix err' acts
    assume "s_out (doSend env m s) = s_out s @ MinSend m err' # acts"
      "set acts \<subseteq> range (SentWait (m_ID m)) \<union> {SentWaitClosed (m_ID m)}"
    then show ?thesis using that assms(2,4) by auto
  qed (use that assms(2,4) in auto)
  show "s_surbIDMap s sid = Some m' \<or> shaped K m' \<and> m_WithSURB m'" if "s_surbIDMap s' sid = Some m'" for sid m'
    using doSend_records [of env m s]
  proof (elim disjE exE conjE)
    fix sid' t eta key
    assume "m_WithSURB m" and
      "s_surbIDMap (doSend env m s) = (s_surbIDMap s)(sid' \<mapsto> m\<lparr>m_SentAt := t, m_ReplyETA := eta, m_Key := key\<rparr>)"
    then show ?thesis using that assms(2,5) by (auto split: if_splits)
  qed (use that assms(5) in auto)
qed

lemma shape_inv_decoys:
  assumes "shape_inv K s"
  shows "sendDropDecoy K env s = Ok s' \<Longrightarrow> shape_inv K s'" "sendLoopDecoy K env s = Ok s' \<Longrightarrow> shape_inv K s'"
proof -
  have "shaped K (decoy_message K i sd b)" for i sd b using decoy_message_shaped by (simp add: shaped_def)
  note d = shape_inv_doSend [OF assms this]
  show "sendDropDecoy K env s = Ok s' \<Longrightarrow> shape_inv K s'" "sendLoopDecoy K env s = Ok s' \<Longrightarrow> shape_inv K s'"
    using d [where s' = s' and env = env] shape_inv_same [OF assms, of s']
    by (auto simp: sendDropDecoy_def sendLoopDecoy_def fatal_def incrementDecoyLoopTally_def queued_def elim!: obindE
        split: sum.splits)
qed

lemma shape_inv_fire:
  assumes inv: "shape_inv K s" and qi: "q_inv (MaxEgressQueueSize K) (s_egressQueue s)" and pushes: "e_pushes env = []"
    and wf: "worker_fire K dis env ev w s = Ok s'"
  shows "shape_inv K s'"
proof -
  have "shape_inv K s1" if f: "sendFromQueueOrDecoy K dis env s = Ok s1" for s1
  proof (cases "queued K s")
    case Nil
    then have "Queue_Peek (s_egressQueue s) = Ok (Inl ErrQueueEmpty)"
      using ring.peek_empty [OF qi] by (simp add: queued_def)
    with f inv shape_inv_decoys(1) [OF inv] show ?thesis by (auto simp: sendFromQueueOrDecoy_def split: if_splits)
  next
    case (Cons m ms)
    then have pk: "Queue_Peek (s_egressQueue s) = Ok (Inr (Some m))"
      using ring.peek_item [OF qi] by (simp add: queued_def)
    from sendNext_head [OF qi, of m ms env] Cons pushes f pk obtain q' where
      s1: "s1 = (doSend env m s)\<lparr>s_egressQueue := q'\<rparr>" "queued K s1 = ms"
      by (auto simp: queued_def sendFromQueueOrDecoy_def)
    have "shaped K m" using inv Cons by (simp add: shape_inv_def shaped_def)
    from shape_inv_doSend [OF inv this, of s1 env] s1 Cons show ?thesis by simp
  qed
  with wf inv shape_inv_decoys [OF inv] show ?thesis by (auto simp: worker_fire_def split: if_splits)
qed

lemma shape_inv_push:
  assumes inv: "shape_inv K s" and m: "user_shaped K m" and qi: "q_inv (MaxEgressQueueSize K) (s_egressQueue s)"
    and push: "Queue_Push (MaxEgressQueueSize K) (s_egressQueue s) m = Ok (q, err)"
    and s': "s_egressQueue s' = q" "s_out s' = s_out s" "s_surbIDMap s' = s_surbIDMap s"
  shows "shape_inv K s'"
proof -
  from qi have "set (queued K s') \<subseteq> insert m (set (queued K s))"
  proof (cases rule: ring.push_cases [where e = m])
    case (1 q')
    with push s'(1) show ?thesis by (simp add: queued_def)
  next
    case 2
    with push s'(1) show ?thesis by (auto simp: queued_def)
  qed
  then show ?thesis using m s' by (intro shape_inv_step [OF inv]) auto
qed

lemma shape_inv_delete: "shape_inv K s \<Longrightarrow> shape_inv K (onACK_delete sid s)"
  by (auto simp: shape_inv_def queued_def onACK_delete_def)

lemma shape_inv_deliver:
  assumes "shape_inv K s" and d: "onACK_deliver K decrypt ct msg s = Ok (s', r)"
  shows "shape_inv K s'"
  using onACK_deliver_frame [OF d] onACK_deliver_cases [OF d]
  by (intro shape_inv_step [OF assms(1)]) (auto simp: queued_def split: if_splits)

lemma shape_inv_collect: "shape_inv K s \<Longrightarrow> shape_inv K (garbageCollect K now keys s)"
proof (induction keys arbitrary: s)
  case (Cons k keys)
  have "shape_inv K (event ev (s\<lparr>s_surbIDMap := (s_surbIDMap s)(k := None)\<rparr>))" for ev
    using Cons.prems by (auto simp: shape_inv_def queued_def event_def)
  with Cons show ?case by (auto split: option.splits)
qed simp

lemma shape_user_step:
  assumes "user_step K decrypt y y'" and "sys_inv K y" and "shape_inv K (y_session y)"
  shows "shape_inv K (y_session y')"
  using assms
proof (induction rule: user_step.induct)
  case (send env ident y rcpt prv message s' res)
  have qi: "q_inv (MaxEgressQueueSize K) (s_egressQueue (y_session y))" using send(4) by (simp add: sys_inv_def session_inv_def)
  show ?case
  proof (cases "composeMessage K env rcpt prv message False")
    case (Inl err)
    with send show ?thesis by (simp add: SendUnreliableMessage_def)
  next
    case (Inr m)
    with send(3) obtain q err where p: "Queue_Push (MaxEgressQueueSize K) (s_egressQueue (y_session y)) m = Ok (q, err)"
      and s': "s' = (y_session y)\<lparr>s_egressQueue := q\<rparr>"
      by (auto simp: SendUnreliableMessage_def elim!: obindE split: option.splits)
    from shape_inv_push [OF send(5) composeMessage_shaped [OF Inr] qi p, of s'] s' show ?thesis by simp
  qed
next
  case (block env ident y rcpt prv message s' b)
  have qi: "q_inv (MaxEgressQueueSize K) (s_egressQueue (y_session y))" using block(4) by (simp add: sys_inv_def session_inv_def)
  show ?case
  proof (cases "composeMessage K env rcpt prv message True")
    case (Inl err)
    with block show ?thesis by (simp add: BlockingSend_begin_def)
  next
    case (Inr m)
    with block(3) obtain q err where p: "Queue_Push (MaxEgressQueueSize K) (s_egressQueue (y_session y)) m = Ok (q, err)"
      and s': "s_egressQueue s' = q" "s_out s' = s_out (y_session y)" "s_surbIDMap s' = s_surbIDMap (y_session y)"
      by (auto simp: BlockingSend_begin_def blocking_forget_def Let_def elim!: obindE split: option.splits)
    from shape_inv_push [OF block(5) composeMessage_shaped [OF Inr] qi p s'] show ?thesis by simp
  qed
next
  case (sent y ident m s' b)
  then show ?case by (simp add: BlockingSend_sent_def)
next
  case (not_sent y ident s' b)
  then show ?case by (auto simp: BlockingSend_sent_def blocking_forget_def elim!: shape_inv_same)
next
  case (reply y ident t p s' b)
  then show ?case by (auto simp: BlockingSend_reply_def blocking_forget_def elim!: shape_inv_same)
next
  case (timeout y ident t s' b)
  then show ?case by (auto simp: BlockingSend_reply_def blocking_forget_def elim!: shape_inv_same)
next
  case (ack_deliver ciphertext msg y s' reply)
  then show ?case using shape_inv_deliver by simp
next
  case (sink ws y s' out)
  then show ?case using eventSinkWorker_drops [OF sink(1)] by (auto elim!: shape_inv_same)
qed (simp_all add: shape_inv_delete shape_inv_collect)

lemma shape_sys_step:
  assumes "sys_step K dis g decrypt y y'" and "sys_inv K y" and "shape_inv K (y_session y)"
  shows "shape_inv K (y_session y')"
  using assms
proof (induction rule: sys_step.induct)
  case (user y y')
  then show ?case by (rule shape_user_step)
next
  case (operation y w op ops env skew r' s' w')
  from worker_iteration_step [OF operation(3)] have "s_egressQueue s' = s_egressQueue (y_session y) \<and>
      s_out s' = s_out (y_session y) \<and> s_surbIDMap s' = s_surbIDMap (y_session y)"
    by (auto simp: worker_op_def connStatusChange_def fatal_def Let_def split: workerOp.splits option.splits if_splits)
  with operation(5) show ?case by (auto elim!: shape_inv_same)
next
  case (fire y w ev env skew r' s' w')
  have qi: "q_inv (MaxEgressQueueSize K) (s_egressQueue (y_session y))" using fire(5) by (simp add: sys_inv_def session_inv_def)
  from worker_iteration_step [OF fire(4)] fire(2) have "worker_fire K dis env ev w (y_session y) = Ok s'" by auto
  from shape_inv_fire [OF fire(6) qi fire(3) this] show ?case by simp
qed (auto simp: onConnection_def onDocument_def event_def Let_def elim!: shape_inv_same)

lemma sys_init_shape:
  assumes "0 < MaxEgressQueueSize K"
  shows "shape_inv K (y_session (sys_init K g r doc ops evs h))"
  using new_Queue_inv [OF assms, where 'a = Message and 'b = Message]
  by (cases doc) (simp_all add: sys_init_def worker_begin_def Let_def split_beta queued_def new_Session_def fatal_def shape_inv_def)

lemma sys_reachable_shape:
  assumes "sys_reachable K dis g decrypt y" and "0 < MaxEgressQueueSize K"
  shows "shape_inv K (y_session y)"
  using assms
proof (induction rule: sys_reachable.induct)
  case (init evs r doc ops hasDoc)
  then show ?case by (simp add: sys_init_shape)
next
  case (step y y')
  then show ?case using shape_sys_step sys_reachable_inv by blast
qed

section \<open>Properties\<close>

text \<open>
  C10. Well-shaped messages stay well-shaped, and are all that the minimal client is given: in every
  reachable state of a session every message it has handed over is a decoy of zeros or a user message
  framed by its length, of exactly the size the minimal client asks for.  So composing its packet is
  never refused for its size, with a SURB or without: only the length of the recipient's name is left
  to check.
\<close>

theorem sent_messages_shaped:
  assumes "sys_reachable K dis g decrypt y" and "0 < MaxEgressQueueSize K"
    and "MinSend m err \<in> set (s_out (y_session y))"
  shows "shaped K m \<and> length (m_Payload m) = UserForwardPayloadLength K \<and> (m_IsBlocking m \<longrightarrow> m_WithSURB m \<and> \<not> m_IsDecoy m) \<and>
    ComposeSphinxPacket K g' ops cfg recipient provider surbID (m_Payload m) r tns =
      (if length recipient > RecipientIDLength K
       then Ok (Some (r, Inl (Errorf (''minclient: invalid recipient: '' @ quoted_v) [ArgS recipient])))
       else compose_loop K g' ops cfg recipient provider surbID (m_Payload m) r tns)"
proof -
  have "shaped K m" using sys_reachable_shape [OF assms(1,2)] assms(3) by (auto simp: shape_inv_def)
  with shaped_length [OF this] show ?thesis
    by (auto simp: ComposeSphinxPacket_def shaped_def user_shaped_def decoy_shaped_def)
qed

theorem sent_messages_shaped_witness:
  "\<exists>y m. example_reach y \<and> MinSend m None \<in> set (s_out (y_session y)) \<and> length (m_Payload m) = 8"
proof -
  have N: "0 < MaxEgressQueueSize example_const" by (simp add: example_N)
  obtain y msg where y: "example_reach y" "s_surbIDMap (y_session y) [5, 5] = Some msg" "\<not> m_IsDecoy msg"
    using example_outstanding by blast
  have "reply_due (y_session y) (y_onACK y) (m_ID msg) (m_IsBlocking msg)"
    using y(2,3) by (auto simp: reply_due_def acknowledgeable_def ran_def)
  then have "sent_once (y_session y) (m_ID msg) (m_IsBlocking msg)"
    using sys_reachable_tx [OF y(1) N] by (auto simp: tx_inv_def tx_ok_def)
  then obtain m where "user_sends (m_ID msg) (s_out (y_session y)) = [MinSend m None]" by (auto simp: sent_once_def)
  then have "MinSend m None \<in> set (user_sends (m_ID msg) (s_out (y_session y)))" by simp
  then have m: "MinSend m None \<in> set (s_out (y_session y))" by (simp add: user_sends_def)
  have "UserForwardPayloadLength example_const = 8" by (simp add: example_const_def)
  with sent_messages_shaped [OF y(1) N m, of "const_rng 7"] have "length (m_Payload m) = 8" by simp
  with y(1) m show ?thesis by blast
qed

end
