(* ===== verification/Meson_TimerQueue.thy ===== *)
theory Meson_TimerQueue
  imports Meson_Session "HOL-Library.Multiset"
begin

text \<open>
  \<^verbatim>\<open>src/timer_queue.go\<close>: a queue that keeps items until their time has come and then forwards them
  to another queue.  The priority queue of \<^verbatim>\<open>katzenpost/core/queue\<close> is third-party code: the record
  \<open>pq_ops\<close> of its operations, with the documented behaviour in \<open>pq_ok\<close> (\<open>ent\<close> is the multiset of its
  entries).  The items are messages and the next queue is the egress queue.

  The worker, the goroutine of \<open>wakeupCh\<close> that waits on the condition variable, and their callers
  run together in the step relation \<open>tq_step\<close>: a signal that comes while nobody waits is lost.
\<close>

section \<open>Definitions\<close>

record 'p pq_ops =
  Enqueue :: "u64 \<Rightarrow> Message \<Rightarrow> 'p \<Rightarrow> 'p"
  PeekEntry :: "'p \<Rightarrow> (u64 \<times> Message) option"
  PopEntry :: "'p \<Rightarrow> 'p \<times> (u64 \<times> Message) option"
  RemovePriority :: "u64 \<Rightarrow> 'p \<Rightarrow> 'p \<times> Message option"
  EntryCount :: "'p \<Rightarrow> nat"

record 'p TimerQueue =
  tq_priq :: 'p
  tq_nextQ :: "Message queue"
  tq_signals :: nat

text \<open>\<open>NewTimerQueue\<close>; the empty priority queue is an argument.\<close>

definition NewTimerQueue :: "'p \<Rightarrow> Message queue \<Rightarrow> 'p TimerQueue" where
  "NewTimerQueue emptyQ nextQueue = \<lparr>tq_priq = emptyQ, tq_nextQ = nextQueue, tq_signals = 0\<rparr>"

definition Signal :: "'p TimerQueue \<Rightarrow> 'p TimerQueue" where
  "Signal a = a\<lparr>tq_signals := Suc (tq_signals a)\<rparr>"

definition TimerQueue_Push :: "'p pq_ops \<Rightarrow> 'p TimerQueue \<Rightarrow> Message \<Rightarrow> 'p TimerQueue" where
  "TimerQueue_Push pq a i = Signal (a\<lparr>tq_priq := Enqueue pq (Priority i) i (tq_priq a)\<rparr>)"

definition TimerQueue_Remove ::
  "'p pq_ops \<Rightarrow> 'p TimerQueue \<Rightarrow> Message \<Rightarrow> 'p TimerQueue \<times> go_error option" where
  "TimerQueue_Remove pq a i =
    (case PeekEntry pq (tq_priq a) of
       None \<Rightarrow> (a, None)
     | Some mo \<Rightarrow>
         (if Priority (snd mo) = Priority i then
            let a1 = a\<lparr>tq_priq := fst (PopEntry pq (tq_priq a))\<rparr> in
            (if EntryCount pq (tq_priq a1) > 0 then Signal a1 else a1, None)
          else
            let priority = Priority (snd mo) in
            case RemovePriority pq priority (tq_priq a) of
              (q, None) \<Rightarrow>
                (a\<lparr>tq_priq := q\<rparr>,
                 Some (Errorf ''failed to remove item with priority %d'' [ArgI (uint priority)]))
            | (q, Some _) \<Rightarrow> (a\<lparr>tq_priq := q\<rparr>, None)))"

text \<open>\<open>forward\<close> panics with the error of the next queue.\<close>

definition TimerQueue_forward :: "nat \<Rightarrow> 'p pq_ops \<Rightarrow> 'p TimerQueue \<Rightarrow> 'p TimerQueue outcome" where
  "TimerQueue_forward N pq a =
    (case PopEntry pq (tq_priq a) of
       (q, None) \<Rightarrow> Ok (a\<lparr>tq_priq := q\<rparr>)
     | (q, Some m) \<Rightarrow>
         obind (Queue_Push N (tq_nextQ a) (snd m)) (\<lambda>(nq, err).
           case err of
             None \<Rightarrow> Ok (a\<lparr>tq_priq := q, tq_nextQ := nq\<rparr>)
           | Some e \<Rightarrow> Panic ''nextQ.Push''))"

text \<open>
  An iteration of the worker up to its \<open>select\<close>, under the lock and at the time \<open>now\<close> (nanoseconds): the
  head is due and is to be forwarded, or \<open>c\<close> is set to fire after a duration, or \<open>c\<close> stays nil.
\<close>

datatype tq_next = Due | WaitFor int | WaitSignal

definition tq_due :: "int \<Rightarrow> u64 \<Rightarrow> bool" where
  "tq_due now p \<longleftrightarrow> to_i64 (i64_of_u64 p - now) < 0 \<or> p < u64_of_i64 now"

definition TimerQueue_look :: "'p pq_ops \<Rightarrow> int \<Rightarrow> 'p TimerQueue \<Rightarrow> tq_next" where
  "TimerQueue_look pq now a =
    (case PeekEntry pq (tq_priq a) of
       None \<Rightarrow> WaitSignal
     | Some m \<Rightarrow> if tq_due now (fst m) then Due else WaitFor (to_i64 (i64_of_u64 (fst m) - now)))"

text \<open>
  The worker is at the top of its loop, or has released the lock and is about to call \<open>forward\<close>, or is
  in its \<open>select\<close>, with the time at which \<open>c\<close> fires unless \<open>c\<close> is nil.  Where the \<open>select\<close> goes on: halt,
  the expiry of the wait, which forwards whatever is at the head by then, or a wake-up.
\<close>

datatype tq_worker = AtLook | AtForward | AtSelect "int option" | TqReturned

datatype tq_wake = TqHalt | TqExpired | TqWoken

fun TimerQueue_select :: "tq_wake \<Rightarrow> tq_worker" where
  "TimerQueue_select TqHalt = TqReturned"
| "TimerQueue_select TqExpired = AtForward"
| "TimerQueue_select TqWoken = AtLook"

text \<open>
  The goroutine that \<open>wakeupCh\<close> starts at its first call is about to wait on the condition
  variable, waits, or offers a wake-up on the channel.  The field \<open>tq_signals\<close> counts the calls of
  \<open>Signal\<close> that are still to come: \<open>Push\<close> signals after it has released the lock.
\<close>

datatype tq_waiter = NoWaiter | BeforeWait | InWait | Offering | WaiterReturned

record 'p tq_system =
  ts_queue :: "'p TimerQueue"
  ts_worker :: tq_worker
  ts_waiter :: tq_waiter
  ts_now :: int

definition wakeupCh :: "tq_waiter \<Rightarrow> tq_waiter" where
  "wakeupCh v = (if v = NoWaiter then BeforeWait else v)"

text \<open>
  What the goroutines of the queue itself do, and time.  Other goroutines may call \<open>Push\<close> and
  \<open>Remove\<close> between any two steps, so also between the look at the head and \<open>forward\<close>.  The channel of a
  goroutine that has returned is closed, so that receiving from it always succeeds.
\<close>

inductive tq_step :: "nat \<Rightarrow> 'p pq_ops \<Rightarrow> 'p tq_system \<Rightarrow> 'p tq_system \<Rightarrow> bool" for N pq where
  time: "ts_now y \<le> now \<Longrightarrow> tq_step N pq y (y\<lparr>ts_now := now\<rparr>)"
| look_due: "ts_worker y = AtLook \<Longrightarrow> TimerQueue_look pq (ts_now y) (ts_queue y) = Due \<Longrightarrow>
    tq_step N pq y (y\<lparr>ts_worker := AtForward\<rparr>)"
| look_timer: "ts_worker y = AtLook \<Longrightarrow> TimerQueue_look pq (ts_now y) (ts_queue y) = WaitFor d \<Longrightarrow>
    tq_step N pq y (y\<lparr>ts_worker := AtSelect (Some (ts_now y + d)), ts_waiter := wakeupCh (ts_waiter y)\<rparr>)"
| look_empty: "ts_worker y = AtLook \<Longrightarrow> TimerQueue_look pq (ts_now y) (ts_queue y) = WaitSignal \<Longrightarrow>
    tq_step N pq y (y\<lparr>ts_worker := AtSelect None, ts_waiter := wakeupCh (ts_waiter y)\<rparr>)"
| forward: "ts_worker y = AtForward \<Longrightarrow> TimerQueue_forward N pq (ts_queue y) = Ok a \<Longrightarrow>
    tq_step N pq y (y\<lparr>ts_queue := a, ts_worker := AtLook\<rparr>)"
| wait: "ts_waiter y = BeforeWait \<Longrightarrow> tq_step N pq y (y\<lparr>ts_waiter := InWait\<rparr>)"
| signal: "tq_signals (ts_queue y) = Suc k \<Longrightarrow>
    tq_step N pq y (y\<lparr>ts_queue := (ts_queue y)\<lparr>tq_signals := k\<rparr>,
      ts_waiter := (if ts_waiter y = InWait then Offering else ts_waiter y)\<rparr>)"
| woken: "ts_worker y = AtSelect c \<Longrightarrow> ts_waiter y = Offering \<Longrightarrow>
    tq_step N pq y (y\<lparr>ts_worker := TimerQueue_select TqWoken, ts_waiter := BeforeWait\<rparr>)"
| woken_closed: "ts_worker y = AtSelect c \<Longrightarrow> ts_waiter y = WaiterReturned \<Longrightarrow>
    tq_step N pq y (y\<lparr>ts_worker := TimerQueue_select TqWoken\<rparr>)"
| expired: "ts_worker y = AtSelect (Some t) \<Longrightarrow> t \<le> ts_now y \<Longrightarrow>
    tq_step N pq y (y\<lparr>ts_worker := TimerQueue_select TqExpired\<rparr>)"
| tq_halt: "ts_worker y = AtSelect c \<Longrightarrow> tq_step N pq y (y\<lparr>ts_worker := TimerQueue_select TqHalt\<rparr>)"
| waiter_halt: "ts_waiter y = Offering \<Longrightarrow> tq_step N pq y (y\<lparr>ts_waiter := WaiterReturned\<rparr>)"

text \<open>A new queue and its worker.\<close>

definition tq_start :: "'p \<Rightarrow> Message queue \<Rightarrow> int \<Rightarrow> 'p tq_system" where
  "tq_start emptyQ nextQueue now = \<lparr>ts_queue = NewTimerQueue emptyQ nextQueue, ts_worker = AtLook,
     ts_waiter = NoWaiter, ts_now = now\<rparr>"

text \<open>
  A queue in use: its own goroutines, callers of \<open>Push\<close> whose items have times before the year 2262,
  and the users of the next queue, who may take from it and add to it.  Nobody calls \<open>Remove\<close>.
\<close>

inductive tq_reach :: "nat \<Rightarrow> 'p pq_ops \<Rightarrow> 'p tq_system \<Rightarrow> 'p tq_system \<Rightarrow> bool" for N pq y0 where
  start: "tq_reach N pq y0 y0"
| inner: "tq_reach N pq y0 y \<Longrightarrow> tq_step N pq y y' \<Longrightarrow> ts_now y' < 2 ^ 63 \<Longrightarrow> tq_reach N pq y0 y'"
| push: "tq_reach N pq y0 y \<Longrightarrow> uint (Priority m) < 2 ^ 63 \<Longrightarrow>
    tq_reach N pq y0 (y\<lparr>ts_queue := TimerQueue_Push pq (ts_queue y) m\<rparr>)"
| next_used: "tq_reach N pq y0 y \<Longrightarrow> q_inv N nq \<Longrightarrow>
    tq_reach N pq y0 (y\<lparr>ts_queue := (ts_queue y)\<lparr>tq_nextQ := nq\<rparr>\<rparr>)"

text \<open>
  The documented behaviour of the priority queue, where \<open>ent\<close> gives the entries: which of several
  entries with the least priority it returns, or removes for a given priority, is its own affair.
\<close>

definition least_entry :: "(u64 \<times> Message) multiset \<Rightarrow> u64 \<times> Message \<Rightarrow> bool" where
  "least_entry es e \<longleftrightarrow> e \<in># es \<and> (\<forall>e' \<in># es. fst e \<le> fst e')"

definition pq_ok :: "'p pq_ops \<Rightarrow> ('p \<Rightarrow> (u64 \<times> Message) multiset) \<Rightarrow> bool" where
  "pq_ok pq ent \<longleftrightarrow>
     (\<forall>q p m. ent (Enqueue pq p m q) = add_mset (p, m) (ent q)) \<and>
     (\<forall>q. case PeekEntry pq q of None \<Rightarrow> ent q = {#} | Some e \<Rightarrow> least_entry (ent q) e) \<and>
     (\<forall>q. case PopEntry pq q of
            (q', None) \<Rightarrow> ent q = {#} \<and> ent q' = {#}
          | (q', Some e) \<Rightarrow> least_entry (ent q) e \<and> ent q' = ent q - {#e#}) \<and>
     (\<forall>q p. case RemovePriority pq p q of
            (q', None) \<Rightarrow> p \<notin># image_mset fst (ent q) \<and> ent q' = ent q
          | (q', Some m) \<Rightarrow> (p, m) \<in># ent q \<and> ent q' = ent q - {#(p, m)#}) \<and>
     (\<forall>q. EntryCount pq q = size (ent q))"

text \<open>An implementation, for evaluation: a list, sorted when it is read.\<close>

definition list_pq :: "(u64 \<times> Message) list pq_ops" where
  "list_pq = \<lparr>Enqueue = (\<lambda>p m q. (p, m) # q),
     PeekEntry = (\<lambda>q. case sort_key fst q of [] \<Rightarrow> None | e # _ \<Rightarrow> Some e),
     PopEntry = (\<lambda>q. (tl (sort_key fst q), case sort_key fst q of [] \<Rightarrow> None | e # _ \<Rightarrow> Some e)),
     RemovePriority = (\<lambda>p q. case filter (\<lambda>e. fst e = p) (sort_key fst q) of
        [] \<Rightarrow> (q, None) | e # _ \<Rightarrow> (remove1 e (sort_key fst q), Some (snd e))),
     EntryCount = length\<rparr>"

section \<open>Lemmas\<close>

text \<open>Every entry is filed under its item's priority; \<open>Push\<close> makes it so.\<close>

definition tq_inv :: "nat \<Rightarrow> ('p \<Rightarrow> (u64 \<times> Message) multiset) \<Rightarrow> 'p TimerQueue \<Rightarrow> bool" where
  "tq_inv N ent a \<longleftrightarrow> q_inv N (tq_nextQ a) \<and> (\<forall>(p, m) \<in># ent (tq_priq a). p = Priority m)"

lemma pq_Enqueue: "pq_ok pq ent \<Longrightarrow> ent (Enqueue pq p m q) = add_mset (p, m) (ent q)"
  by (simp add: pq_ok_def)

lemma pq_Peek:
  assumes "pq_ok pq ent"
  shows "case PeekEntry pq q of None \<Rightarrow> ent q = {#} | Some e \<Rightarrow> least_entry (ent q) e"
  using assms by (simp add: pq_ok_def)

lemma pq_Peek_empty: "pq_ok pq ent \<Longrightarrow> ent q = {#} \<Longrightarrow> PeekEntry pq q = None"
  using pq_Peek [of pq ent q] by (auto simp: least_entry_def split: option.splits)

lemma pq_Peek_some:
  assumes "pq_ok pq ent" and "ent q \<noteq> {#}"
  obtains e where "PeekEntry pq q = Some e" and "least_entry (ent q) e"
  using pq_Peek [OF assms(1), of q] assms(2) that by (auto split: option.splits)

lemma pq_Pop:
  assumes "pq_ok pq ent"
  shows "case PopEntry pq q of
            (q', None) \<Rightarrow> ent q = {#} \<and> ent q' = {#}
          | (q', Some e) \<Rightarrow> least_entry (ent q) e \<and> ent q' = ent q - {#e#}"
  using assms by (simp add: pq_ok_def)

lemma pq_RemovePriority:
  assumes "pq_ok pq ent"
  shows "case RemovePriority pq p q of
            (q', None) \<Rightarrow> p \<notin># image_mset fst (ent q) \<and> ent q' = ent q
          | (q', Some m) \<Rightarrow> (p, m) \<in># ent q \<and> ent q' = ent q - {#(p, m)#}"
  using assms by (simp add: pq_ok_def)

text \<open>Where one entry is before all the others, it is the one that is returned.\<close>

lemma least_entry_first:
  "least_entry (add_mset e es) e' \<Longrightarrow> \<forall>x \<in># es. fst e < fst x \<Longrightarrow> e' = e"
  by (auto simp: least_entry_def)

lemma tq_inv_Push: "pq_ok pq ent \<Longrightarrow> tq_inv N ent a \<Longrightarrow> tq_inv N ent (TimerQueue_Push pq a m)"
  by (simp add: tq_inv_def TimerQueue_Push_def Signal_def pq_Enqueue)

text \<open>Priorities that are times before the year 2262, at a time after 1970.\<close>

lemma tq_due_iff:
  assumes "0 \<le> now" and "now < 2 ^ 63" and "uint p < 2 ^ 63"
  shows "tq_due now p \<longleftrightarrow> uint p < now"
proof -
  have "is_i64 (uint p - now)" using assms uint_ge_0 [of p] unfolding is_i64_def by linarith
  then have "to_i64 (i64_of_u64 p - now) = uint p - now"
    using assms by (simp add: i64_of_u64_small to_i64_id)
  moreover have "p < u64_of_i64 now \<longleftrightarrow> uint p < now"
    using assms by (simp add: word_less_def uint_u64_of_i64)
  ultimately show ?thesis by (auto simp: tq_due_def)
qed

text \<open>What \<open>forward\<close> does: with an empty queue nothing, otherwise it moves an earliest entry.\<close>

lemma forward_effect:
  assumes "pq_ok pq ent" and "tq_inv N ent a" and "TimerQueue_forward N pq a = Ok a'"
  shows "tq_inv N ent a' \<and>
    (ent (tq_priq a) = {#} \<and> ent (tq_priq a') = {#} \<and> tq_nextQ a' = tq_nextQ a \<or>
     (\<exists>m. least_entry (ent (tq_priq a)) (Priority m, m) \<and>
        ent (tq_priq a') = ent (tq_priq a) - {#(Priority m, m)#} \<and>
        q_list N (tq_nextQ a') = q_list N (tq_nextQ a) @ [m]))"
proof (cases "snd (PopEntry pq (tq_priq a))")
  case None
  then obtain q where q: "PopEntry pq (tq_priq a) = (q, None)" by (cases "PopEntry pq (tq_priq a)") simp
  with pq_Pop [OF assms(1), of "tq_priq a"] have "ent (tq_priq a) = {#}" "ent q = {#}" by simp_all
  with q assms(2,3) show ?thesis by (auto simp: TimerQueue_forward_def tq_inv_def)
next
  case (Some e)
  then obtain q where q: "PopEntry pq (tq_priq a) = (q, Some e)" by (cases "PopEntry pq (tq_priq a)") simp
  with pq_Pop [OF assms(1), of "tq_priq a"] have e: "least_entry (ent (tq_priq a)) e" "ent q = ent (tq_priq a) - {#e#}"
    by simp_all
  then have p: "e = (Priority (snd e), snd e)" using assms(2) by (force simp: least_entry_def tq_inv_def)
  have qi: "q_inv N (tq_nextQ a)" using assms(2) by (simp add: tq_inv_def)
  from assms(3) q obtain nq where nq: "Queue_Push N (tq_nextQ a) (snd e) = Ok (nq, None)"
      "a' = a\<lparr>tq_priq := q, tq_nextQ := nq\<rparr>"
    by (auto simp: TimerQueue_forward_def elim!: obindE split: option.splits)
  have "q_inv N nq" "q_list N nq = q_list N (tq_nextQ a) @ [snd e]"
    using ring.push_room [OF qi, of "snd e"] ring.push_full [OF qi, of "snd e"] nq(1)
    by (cases "length (q_list N (tq_nextQ a)) < N"; force)+
  with nq(2) e p assms(2) show ?thesis
    by (auto simp: tq_inv_def dest: in_diffD)
qed

lemma forward_total:
  assumes "tq_inv N ent a" and "length (q_list N (tq_nextQ a)) < N"
  shows "\<exists>a'. TimerQueue_forward N pq a = Ok a'"
proof -
  have "q_inv N (tq_nextQ a)" using assms(1) by (simp add: tq_inv_def)
  from ring.push_room [OF this assms(2)] have push: "\<exists>nq. Queue_Push N (tq_nextQ a) m = Ok (nq, None)" for m by blast
  obtain q e where "PopEntry pq (tq_priq a) = (q, e)" by fastforce
  with push [of "snd (the e)"] show ?thesis by (cases e) (auto simp: TimerQueue_forward_def)
qed

lemma sort_key_sorted: "sorted (map f xs) \<Longrightarrow> sort_key f xs = xs"
  by (induction xs) (simp_all add: insort_is_Cons)

lemma least_sort_key: "sort_key fst q = e # es \<Longrightarrow> least_entry (mset q) e \<and> mset es = mset q - {#e#}"
  for q :: "(u64 \<times> Message) list"
proof -
  assume q: "sort_key fst q = e # es"
  have "sorted (map fst (e # es))" using sorted_sort_key [of fst q] q by simp
  moreover have m: "mset q = mset (e # es)" using q mset_sort [of fst q] by simp
  ultimately show ?thesis by (auto simp: least_entry_def)
qed

lemma list_pq_ok: "pq_ok list_pq mset"
  unfolding pq_ok_def
proof (intro conjI allI)
  fix q :: "(u64 \<times> Message) list" and p
  show "case PeekEntry list_pq q of None \<Rightarrow> mset q = {#} | Some e \<Rightarrow> least_entry (mset q) e"
    using least_sort_key [of q] mset_sort [of fst q] by (auto simp: list_pq_def split: list.split simp del: mset_sort)
  show "case PopEntry list_pq q of (q', None) \<Rightarrow> mset q = {#} \<and> mset q' = {#}
      | (q', Some e) \<Rightarrow> least_entry (mset q) e \<and> mset q' = mset q - {#e#}"
    using least_sort_key [of q] mset_sort [of fst q] by (auto simp: list_pq_def split: list.split simp del: mset_sort)
  show "case RemovePriority list_pq p q of (q', None) \<Rightarrow> p \<notin># image_mset fst (mset q) \<and> mset q' = mset q
      | (q', Some m) \<Rightarrow> (p, m) \<in># mset q \<and> mset q' = mset q - {#(p, m)#}"
    using set_sort [of fst q] by (auto simp: list_pq_def filter_empty_conv dest!: filter_eq_ConsD split: list.split simp del: set_sort)
qed (simp_all add: list_pq_def)

text \<open>The worker waits for a signal only, and none is under way.\<close>

definition tq_asleep :: "'p \<Rightarrow> 'p tq_system \<Rightarrow> bool" where
  "tq_asleep q y \<longleftrightarrow> tq_priq (ts_queue y) = q \<and> tq_signals (ts_queue y) = 0 \<and>
     (ts_worker y = AtSelect None \<or> ts_worker y = TqReturned) \<and> ts_waiter y \<in> {BeforeWait, InWait}"

lemma tq_asleep_step: "tq_step N pq y y' \<Longrightarrow> tq_asleep q y \<Longrightarrow> tq_asleep q y'"
  by (induction rule: tq_step.induct) (auto simp: tq_asleep_def)

interpretation asleep: preserved "tq_step N pq" "tq_asleep q" for N pq q
  by unfold_locales (rule tq_asleep_step)

text \<open>
  Where nobody calls \<open>Remove\<close>, the head is never later than the worker believes: a \<open>Push\<close> can only
  put an earlier one before it, and nobody but the worker takes one away.
\<close>

definition tq_timed :: "nat \<Rightarrow> ('p \<Rightarrow> (u64 \<times> Message) multiset) \<Rightarrow> 'p tq_system \<Rightarrow> bool" where
  "tq_timed N ent y \<longleftrightarrow> tq_inv N ent (ts_queue y) \<and> 0 \<le> ts_now y \<and> ts_now y < 2 ^ 63 \<and>
     (\<forall>e \<in># ent (tq_priq (ts_queue y)). uint (fst e) < 2 ^ 63) \<and>
     (case ts_worker y of
        AtForward \<Rightarrow> \<exists>e \<in># ent (tq_priq (ts_queue y)). uint (fst e) \<le> ts_now y
      | AtSelect (Some t) \<Rightarrow> \<exists>e \<in># ent (tq_priq (ts_queue y)). uint (fst e) \<le> t
      | _ \<Rightarrow> True)"

lemma look_head:
  assumes "pq_ok pq ent" and "tq_timed N ent y"
  shows "case TimerQueue_look pq (ts_now y) (ts_queue y) of
      Due \<Rightarrow> \<exists>e \<in># ent (tq_priq (ts_queue y)). uint (fst e) < ts_now y
    | WaitFor d \<Rightarrow> \<exists>e. least_entry (ent (tq_priq (ts_queue y))) e \<and> ts_now y \<le> uint (fst e) \<and> ts_now y + d = uint (fst e)
    | WaitSignal \<Rightarrow> ent (tq_priq (ts_queue y)) = {#}"
proof (cases "PeekEntry pq (tq_priq (ts_queue y))")
  case None
  with pq_Peek [OF assms(1), of "tq_priq (ts_queue y)"] show ?thesis by (simp add: TimerQueue_look_def)
next
  case (Some e)
  with pq_Peek [OF assms(1), of "tq_priq (ts_queue y)"] have e: "least_entry (ent (tq_priq (ts_queue y))) e" by simp
  then have p: "e \<in># ent (tq_priq (ts_queue y))" "uint (fst e) < 2 ^ 63"
    using assms(2) by (auto simp: least_entry_def tq_timed_def)
  have now: "0 \<le> ts_now y" "ts_now y < 2 ^ 63" using assms(2) by (simp_all add: tq_timed_def)
  show ?thesis
  proof (cases "uint (fst e) < ts_now y")
    case True
    with Some p(1) tq_due_iff [OF now p(2)] show ?thesis by (auto simp: TimerQueue_look_def)
  next
    case False
    have "is_i64 (uint (fst e) - ts_now y)" using p(2) now False unfolding is_i64_def by linarith
    then have "to_i64 (i64_of_u64 (fst e) - ts_now y) = uint (fst e) - ts_now y"
      using p(2) by (simp add: i64_of_u64_small to_i64_id)
    then have "TimerQueue_look pq (ts_now y) (ts_queue y) = WaitFor (uint (fst e) - ts_now y)"
      using Some False tq_due_iff [OF now p(2)] by (simp add: TimerQueue_look_def)
    moreover have "\<exists>e'. least_entry (ent (tq_priq (ts_queue y))) e' \<and> ts_now y \<le> uint (fst e') \<and> uint (fst e) = uint (fst e')"
      using e False by (intro exI [of _ e]) simp
    ultimately show ?thesis by simp
  qed
qed

lemma tq_timed_step:
  assumes "pq_ok pq ent" and "tq_step N pq y y'" and "tq_timed N ent y" and "ts_now y' < 2 ^ 63"
  shows "tq_timed N ent y'"
  using assms(2)
proof cases
  case (time now)
  then show ?thesis using assms(3,4) by (auto simp: tq_timed_def intro: order_trans split: tq_worker.splits option.splits)
next
  case look_due
  with look_head [OF assms(1,3)] assms(3) show ?thesis by (force simp: tq_timed_def)
next
  case (look_timer d)
  with look_head [OF assms(1,3)] assms(3) show ?thesis by (force simp: tq_timed_def least_entry_def)
next
  case (forward a)
  with forward_effect [OF assms(1) _ forward(3)] assms(3) show ?thesis by (fastforce simp: tq_timed_def dest: in_diffD)
next
  case (expired t)
  then show ?thesis using assms(3) by (force simp: tq_timed_def)
qed (use assms(3) in \<open>auto simp: tq_timed_def tq_inv_def split: tq_worker.splits option.splits\<close>)

lemma tq_timed_Push:
  assumes "pq_ok pq ent" and "tq_timed N ent y" and "uint (Priority m) < 2 ^ 63"
  shows "tq_timed N ent (y\<lparr>ts_queue := TimerQueue_Push pq (ts_queue y) m\<rparr>)"
  using assms(2,3) tq_inv_Push [OF assms(1), of N "ts_queue y" m]
  by (auto simp: tq_timed_def TimerQueue_Push_def Signal_def pq_Enqueue [OF assms(1)] split: tq_worker.splits option.splits)

lemma tq_reach_timed:
  assumes "pq_ok pq ent" and "tq_reach N pq y0 y" and "tq_timed N ent y0"
  shows "tq_timed N ent y"
  using assms(2)
proof induction
  case (inner y y')
  then show ?case using tq_timed_step [OF assms(1)] by blast
next
  case (push y m)
  then show ?case using tq_timed_Push [OF assms(1)] by blast
next
  case (next_used y nq)
  then show ?case by (simp add: tq_timed_def tq_inv_def split: tq_worker.splits option.splits)
qed (rule assms(3))

lemma tq_timed_start:
  "ent emptyQ = {#} \<Longrightarrow> q_inv N nextQ \<Longrightarrow> 0 \<le> now \<Longrightarrow> now < 2 ^ 63 \<Longrightarrow> tq_timed N ent (tq_start emptyQ nextQ now)"
  by (simp add: tq_timed_def tq_inv_def tq_start_def NewTimerQueue_def)

text \<open>Every step of the queue itself leaves both queues as they are, or forwards an item in time.\<close>

lemma tq_step_in_time:
  assumes "pq_ok pq ent" and "tq_timed N ent y" and "tq_step N pq y y'"
  shows "ent (tq_priq (ts_queue y')) = ent (tq_priq (ts_queue y)) \<and> tq_nextQ (ts_queue y') = tq_nextQ (ts_queue y) \<or>
    (\<exists>m. least_entry (ent (tq_priq (ts_queue y))) (Priority m, m) \<and> uint (Priority m) \<le> ts_now y \<and>
       ent (tq_priq (ts_queue y')) = ent (tq_priq (ts_queue y)) - {#(Priority m, m)#} \<and>
       q_list N (tq_nextQ (ts_queue y')) = q_list N (tq_nextQ (ts_queue y)) @ [m])"
  using assms(3)
proof cases
  case (forward a)
  have inv: "tq_inv N ent (ts_queue y)" using assms(2) by (simp add: tq_timed_def)
  obtain e where e: "e \<in># ent (tq_priq (ts_queue y))" "uint (fst e) \<le> ts_now y"
    using assms(2) forward(2) by (auto simp: tq_timed_def)
  with forward_effect [OF assms(1) inv forward(3)] obtain m where
      m: "least_entry (ent (tq_priq (ts_queue y))) (Priority m, m)"
        "ent (tq_priq a) = ent (tq_priq (ts_queue y)) - {#(Priority m, m)#}"
        "q_list N (tq_nextQ a) = q_list N (tq_nextQ (ts_queue y)) @ [m]" by auto
  have "uint (Priority m) \<le> uint (fst e)" using m(1) e(1) by (auto simp: least_entry_def word_le_def)
  with e(2) m forward(1) show ?thesis by auto
qed simp_all

text \<open>The worker alone catches up: it forwards the due items in the order of their times.\<close>

lemma catches_up:
  assumes "pq_ok pq ent" and "tq_timed N ent y" and "ts_worker y = AtLook"
    and "length (q_list N (tq_nextQ (ts_queue y))) + size {#e \<in># ent (tq_priq (ts_queue y)). uint (fst e) < ts_now y#} \<le> N"
  shows "\<exists>y' out. (tq_step N pq)\<^sup>*\<^sup>* y y' \<and> ts_now y' = ts_now y \<and> (\<exists>c. ts_worker y' = AtSelect c) \<and>
    q_list N (tq_nextQ (ts_queue y')) = q_list N (tq_nextQ (ts_queue y)) @ out \<and> sorted (map Priority out) \<and>
    mset (map (\<lambda>m. (Priority m, m)) out) = {#e \<in># ent (tq_priq (ts_queue y)). uint (fst e) < ts_now y#} \<and>
    ent (tq_priq (ts_queue y')) = {#e \<in># ent (tq_priq (ts_queue y)). \<not> uint (fst e) < ts_now y#}"
  using assms(2-)
proof (induction "size (ent (tq_priq (ts_queue y)))" arbitrary: y rule: less_induct)
  case less
  let ?es = "ent (tq_priq (ts_queue y))" and ?due = "\<lambda>e. uint (fst e) < ts_now y"
  note lk = look_head [OF assms(1) less.prems(1)]
  show ?case
  proof (cases "TimerQueue_look pq (ts_now y) (ts_queue y)")
    case Due
    let ?y1 = "y\<lparr>ts_worker := AtForward\<rparr>"
    from lk Due obtain e where e: "e \<in># ?es" "?due e" by auto
    have "size {#e \<in># ?es. ?due e#} \<noteq> 0" using e by (auto simp: filter_mset_eq_conv)
    then have room: "length (q_list N (tq_nextQ (ts_queue y))) < N" using less.prems(3) by linarith
    have inv: "tq_inv N ent (ts_queue y)" using less.prems(1) by (simp add: tq_timed_def)
    obtain a where a: "TimerQueue_forward N pq (ts_queue y) = Ok a" using forward_total [OF inv room] by blast
    from forward_effect [OF assms(1) inv a] e(1) obtain m where
      m: "least_entry ?es (Priority m, m)" "ent (tq_priq a) = ?es - {#(Priority m, m)#}"
        "q_list N (tq_nextQ a) = q_list N (tq_nextQ (ts_queue y)) @ [m]" by auto
    have md: "?due (Priority m, m)" "(Priority m, m) \<in># ?es"
      using m(1) e by (auto simp: least_entry_def word_le_def)
    let ?y2 = "y\<lparr>ts_queue := a, ts_worker := AtLook\<rparr>"
    have s1: "tq_step N pq y ?y1" using tq_step.look_due [OF less.prems(2) Due] .
    have s2: "tq_step N pq ?y1 ?y2" using tq_step.forward [of ?y1 N pq a] a less.prems(2) by simp
    have steps: "(tq_step N pq)\<^sup>*\<^sup>* y ?y2" using s1 s2 by simp
    have t2: "tq_timed N ent ?y2"
      using tq_timed_step [OF assms(1) s2 tq_timed_step [OF assms(1) s1 less.prems(1)]] less.prems(1)
      by (simp add: tq_timed_def)
    obtain es where es: "?es = add_mset (Priority m, m) es" using md(2) by (meson multi_member_split)
    have sz: "size (ent (tq_priq (ts_queue ?y2))) < size ?es" using m(2) es by simp
    have "length (q_list N (tq_nextQ a)) + size {#e \<in># ent (tq_priq a). ?due e#} \<le> N"
      using less.prems(3) m(2,3) es md(1) by simp
    with less.hyps [OF sz t2] less.prems(2) obtain y' out where
      y': "(tq_step N pq)\<^sup>*\<^sup>* ?y2 y'" "ts_now y' = ts_now y" "\<exists>c. ts_worker y' = AtSelect c"
        "q_list N (tq_nextQ (ts_queue y')) = q_list N (tq_nextQ a) @ out" "sorted (map Priority out)"
        "mset (map (\<lambda>m. (Priority m, m)) out) = {#e \<in># ent (tq_priq a). ?due e#}"
        "ent (tq_priq (ts_queue y')) = {#e \<in># ent (tq_priq a). \<not> ?due e#}" by auto
    have "\<forall>x \<in># mset (map (\<lambda>m. (Priority m, m)) out). Priority m \<le> fst x"
      unfolding y'(6) using m(1,2) by (auto simp: least_entry_def dest!: in_diffD)
    then have "sorted (map Priority (m # out))" using y'(5) by auto
    with steps y' m(2,3) es md(1) show ?thesis
      by (intro exI [of _ y'] exI [of _ "m # out"]) (simp add: rtranclp_trans [OF steps y'(1)])
  next
    case (WaitFor d)
    with lk obtain e where e: "least_entry ?es e" "ts_now y \<le> uint (fst e)" by auto
    then have "\<not> ?due x" if "x \<in># ?es" for x using that by (auto simp: least_entry_def word_le_def)
    then have f: "{#e \<in># ?es. ?due e#} = {#}" "{#e \<in># ?es. \<not> ?due e#} = ?es"
      by (auto simp: filter_mset_eq_conv intro: filter_mset_cong [where g = "\<lambda>_. True", simplified])
    show ?thesis using tq_step.look_timer [OF less.prems(2) WaitFor, of N] f
      by (intro exI [of _ "y\<lparr>ts_worker := AtSelect (Some (ts_now y + d)), ts_waiter := wakeupCh (ts_waiter y)\<rparr>"]
          exI [of _ "[]"]) auto
  next
    case WaitSignal
    with lk have "?es = {#}" by simp
    with tq_step.look_empty [OF less.prems(2) WaitSignal, of N] show ?thesis
      by (intro exI [of _ "y\<lparr>ts_worker := AtSelect None, ts_waiter := wakeupCh (ts_waiter y)\<rparr>"] exI [of _ "[]"]) auto
  qed
qed

lemma ent_Push:
  "pq_ok pq ent \<Longrightarrow> ent (tq_priq a) = {#} \<Longrightarrow> ent (tq_priq (TimerQueue_Push pq a m)) = {#(Priority m, m)#}"
  by (simp add: TimerQueue_Push_def Signal_def pq_Enqueue)

lemma Remove_head_instead:
  assumes "pq_ok pq ent" and "ent (tq_priq a) = add_mset (Priority h, h) es"
    and "\<forall>e \<in># es. Priority h < fst e" and "Priority i \<noteq> Priority h"
  shows "\<exists>a'. TimerQueue_Remove pq a i = (a', None) \<and> ent (tq_priq a') = es \<and> tq_nextQ a' = tq_nextQ a"
proof -
  obtain e where e: "PeekEntry pq (tq_priq a) = Some e" "least_entry (ent (tq_priq a)) e"
    using pq_Peek_some [OF assms(1), of "tq_priq a"] assms(2) by auto
  have pk: "e = (Priority h, h)" using least_entry_first [of "(Priority h, h)" es e] e(2) assms(2,3) by simp
  obtain q r where r: "RemovePriority pq (Priority h) (tq_priq a) = (q, r)" by fastforce
  then have "r = Some h \<and> ent q = es"
    using pq_RemovePriority [OF assms(1), of "Priority h" "tq_priq a"] assms(2,3) by (auto split: option.splits)
  with e(1) pk r assms(4) show ?thesis by (simp add: TimerQueue_Remove_def)
qed

text \<open>A signal that finds the goroutine waiting makes the worker look again.\<close>

lemma tq_signal_wakes:
  assumes "ts_worker y = AtSelect c" and "ts_waiter y = InWait" and "tq_signals (ts_queue y) = Suc k"
  shows "(tq_step N pq)\<^sup>*\<^sup>* y (y\<lparr>ts_queue := (ts_queue y)\<lparr>tq_signals := k\<rparr>, ts_worker := AtLook, ts_waiter := BeforeWait\<rparr>)"
proof -
  let ?y = "y\<lparr>ts_queue := (ts_queue y)\<lparr>tq_signals := k\<rparr>, ts_waiter := Offering\<rparr>"
  have "tq_step N pq y ?y" using tq_step.signal [OF assms(3), of N pq] assms(2) by simp
  moreover have "tq_step N pq ?y (?y\<lparr>ts_worker := AtLook, ts_waiter := BeforeWait\<rparr>)"
    using tq_step.woken [of ?y c N pq] assms(1) by simp
  ultimately show ?thesis by simp
qed

section \<open>Properties\<close>

text \<open>
  C25. No item leaves the timer queue before its time, and the items leave in the order of their times:
  in every state that a new queue can reach with its worker, any callers of \<open>Push\<close> and any users of the
  next queue, as long as nobody calls \<open>Remove\<close>, every step of the queue's own goroutines (the look at
  the head, the \<open>select\<close> with its expiry, \<open>forward\<close>) either leaves both queues unchanged or moves
  exactly one item to the end of the next queue, whose time has come and is not later than that of
  any other item.
\<close>

theorem timer_queue_in_time:
  assumes "pq_ok pq ent" and "ent emptyQ = {#}" and "q_inv N nextQ" and "0 \<le> now" and "now < 2 ^ 63"
    and "tq_reach N pq (tq_start emptyQ nextQ now) y" and "tq_step N pq y y'"
  shows "ent (tq_priq (ts_queue y')) = ent (tq_priq (ts_queue y)) \<and> tq_nextQ (ts_queue y') = tq_nextQ (ts_queue y) \<or>
    (\<exists>m. (Priority m, m) \<in># ent (tq_priq (ts_queue y)) \<and> uint (Priority m) \<le> ts_now y \<and>
       (\<forall>e \<in># ent (tq_priq (ts_queue y)). Priority m \<le> fst e) \<and>
       ent (tq_priq (ts_queue y')) = ent (tq_priq (ts_queue y)) - {#(Priority m, m)#} \<and>
       q_list N (tq_nextQ (ts_queue y')) = q_list N (tq_nextQ (ts_queue y)) @ [m])"
  using tq_step_in_time [OF assms(1) tq_reach_timed [OF assms(1,6) tq_timed_start [of ent, OF assms(2-5)]] assms(7)]
  by (auto simp: least_entry_def)

text \<open>
  C39. \<open>Remove\<close> of an item whose time differs from that of the head removes the head instead, and
  reports success.  If the item comes next, and the worker waits for the time of the lost head, then
  at that time it forwards the very item that was to be removed, though its own time is later.
\<close>

theorem Remove_takes_head:
  assumes "pq_ok pq ent" and "tq_inv N ent (ts_queue y)"
    and "ent (tq_priq (ts_queue y)) = add_mset (p, h) (add_mset (p', i) es)" and "p < p'" and "\<forall>e \<in># es. p' < fst e"
    and "ts_worker y = AtSelect (Some t)" and "t \<le> ts_now y" and "length (q_list N (tq_nextQ (ts_queue y))) < N"
  shows "\<exists>a y'. TimerQueue_Remove pq (ts_queue y) i = (a, None) \<and> ent (tq_priq a) = add_mset (p', i) es \<and>
    (tq_step N pq)\<^sup>*\<^sup>* (y\<lparr>ts_queue := a\<rparr>) y' \<and> ts_now y' = ts_now y \<and> ent (tq_priq (ts_queue y')) = es \<and>
    q_list N (tq_nextQ (ts_queue y')) = q_list N (tq_nextQ (ts_queue y)) @ [i]"
proof -
  have p: "p = Priority h" "p' = Priority i" using assms(2,3) by (auto simp: tq_inv_def)
  have "\<forall>e \<in># add_mset (p', i) es. p < fst e" using assms(4,5) by auto
  moreover have "Priority i \<noteq> Priority h" using assms(4) p by auto
  ultimately obtain a where a: "TimerQueue_Remove pq (ts_queue y) i = (a, None)" "ent (tq_priq a) = add_mset (p', i) es"
      "tq_nextQ a = tq_nextQ (ts_queue y)"
    using Remove_head_instead [OF assms(1) assms(3) [unfolded p(1)], of i] p(1) by auto
  have inv: "tq_inv N ent a" using assms(2,3) a(2,3) by (auto simp: tq_inv_def)
  obtain a' where a': "TimerQueue_forward N pq a = Ok a'" using forward_total [OF inv] a(3) assms(8) by auto
  from forward_effect [OF assms(1) inv a'] a(2) obtain m where m: "least_entry (add_mset (p', i) es) (Priority m, m)"
      "ent (tq_priq a') = add_mset (p', i) es - {#(Priority m, m)#}" "q_list N (tq_nextQ a') = q_list N (tq_nextQ a) @ [m]"
    by auto
  have mi: "m = i" using least_entry_first [OF m(1)] assms(5) by simp
  let ?y = "y\<lparr>ts_queue := a\<rparr>" and ?y' = "y\<lparr>ts_queue := a', ts_worker := AtLook\<rparr>"
  have "tq_step N pq ?y (?y\<lparr>ts_worker := AtForward\<rparr>)"
    using tq_step.expired [of ?y t N pq] assms(6,7) by simp
  moreover have "tq_step N pq (?y\<lparr>ts_worker := AtForward\<rparr>) ?y'"
    using tq_step.forward [of "?y\<lparr>ts_worker := AtForward\<rparr>" N pq a'] a' by simp
  ultimately have "(tq_step N pq)\<^sup>*\<^sup>* ?y ?y'" by simp
  with a m(2,3) mi p(2) show ?thesis by (intro exI [of _ a] exI [of _ ?y']) simp
qed

text \<open>
  An item pushed on an idle timer queue is forwarded when its time has come, provided the
  goroutine behind \<open>wakeupCh\<close> already waits on the condition variable: the signal makes the worker
  look again, and it hands the item to the next queue.
\<close>

lemma push_noticed:
  assumes "pq_ok pq ent" and "tq_timed N ent y" and "ent (tq_priq (ts_queue y)) = {#}"
    and "length (q_list N (tq_nextQ (ts_queue y))) < N" and "tq_signals (ts_queue y) = 0"
    and "ts_worker y = AtSelect None" and "ts_waiter y = InWait" and "uint (Priority m) < ts_now y"
  shows "\<exists>y'. (tq_step N pq)\<^sup>*\<^sup>* (y\<lparr>ts_queue := TimerQueue_Push pq (ts_queue y) m\<rparr>) y' \<and>
    q_list N (tq_nextQ (ts_queue y')) = q_list N (tq_nextQ (ts_queue y)) @ [m] \<and> ent (tq_priq (ts_queue y')) = {#}"
proof -
  let ?a = "TimerQueue_Push pq (ts_queue y) m"
  let ?y = "y\<lparr>ts_queue := ?a\<lparr>tq_signals := 0\<rparr>, ts_worker := AtLook, ts_waiter := BeforeWait\<rparr>"
  have ent: "ent (tq_priq ?a) = {#(Priority m, m)#}" using ent_Push [OF assms(1,3)] .
  have nq: "tq_nextQ ?a = tq_nextQ (ts_queue y)" by (simp add: TimerQueue_Push_def Signal_def)
  have "tq_signals ?a = Suc 0" using assms(5) by (simp add: TimerQueue_Push_def Signal_def)
  with tq_signal_wakes [of "y\<lparr>ts_queue := ?a\<rparr>" None 0 N pq] assms(6,7)
  have woken: "(tq_step N pq)\<^sup>*\<^sup>* (y\<lparr>ts_queue := ?a\<rparr>) ?y" by simp
  have "tq_timed N ent (y\<lparr>ts_queue := ?a\<rparr>)"
    using tq_timed_Push [OF assms(1,2), of m] assms(2,8) by (simp add: tq_timed_def)
  then have t: "tq_timed N ent ?y" by (simp add: tq_timed_def tq_inv_def)
  from catches_up [OF assms(1) t] ent nq assms(4,8) obtain y' out where
    y': "(tq_step N pq)\<^sup>*\<^sup>* ?y y'" "q_list N (tq_nextQ (ts_queue y')) = q_list N (tq_nextQ (ts_queue y)) @ out"
      "mset (map (\<lambda>m. (Priority m, m)) out) = {#(Priority m, m)#}" "ent (tq_priq (ts_queue y')) = {#}" by auto
  have "map (\<lambda>m. (Priority m, m)) out = [(Priority m, m)]" using y'(3) by (cases out) auto
  then have "out = [m]" by auto
  with y' rtranclp_trans [OF woken y'(1)] show ?thesis by auto
qed

text \<open>
  C40. But before that goroutine has come to its \<open>Wait\<close> the signal is lost: on a fresh queue there is a
  run after which the pushed item stays where it is for ever, however much time passes, unless
  somebody calls \<open>Push\<close> or \<open>Remove\<close> again.
\<close>

theorem lost_wakeup:
  assumes "pq_ok pq ent" and "ent emptyQ = {#}"
  shows "\<exists>y1 y2. (tq_step N pq)\<^sup>*\<^sup>* (tq_start emptyQ nextQ now) y1 \<and>
    (tq_step N pq)\<^sup>*\<^sup>* (y1\<lparr>ts_queue := TimerQueue_Push pq (ts_queue y1) m\<rparr>) y2 \<and>
    ent (tq_priq (ts_queue y2)) = {#(Priority m, m)#} \<and>
    (\<forall>y'. (tq_step N pq)\<^sup>*\<^sup>* y2 y' \<longrightarrow> tq_priq (ts_queue y') = tq_priq (ts_queue y2))"
proof -
  let ?y0 = "tq_start emptyQ nextQ now" and ?q = "Enqueue pq (Priority m) m emptyQ"
  let ?y1 = "?y0\<lparr>ts_worker := AtSelect None, ts_waiter := BeforeWait\<rparr>"
  let ?p = "?y1\<lparr>ts_queue := TimerQueue_Push pq (ts_queue ?y1) m\<rparr>"
  let ?y2 = "?p\<lparr>ts_queue := (ts_queue ?p)\<lparr>tq_signals := 0\<rparr>\<rparr>"
  have q1: "tq_priq (ts_queue ?y1) = emptyQ" by (simp add: tq_start_def NewTimerQueue_def)
  have "TimerQueue_look pq now (ts_queue ?y0) = WaitSignal"
    using pq_Peek_empty [OF assms] by (simp add: tq_start_def NewTimerQueue_def TimerQueue_look_def)
  then have s1: "tq_step N pq ?y0 ?y1"
    using tq_step.look_empty [of ?y0 pq N] by (simp add: tq_start_def wakeupCh_def)
  have s2: "tq_step N pq ?p ?y2"
    using tq_step.signal [of ?p 0 N pq] by (simp add: tq_start_def TimerQueue_Push_def Signal_def NewTimerQueue_def)
  have asleep: "tq_asleep (tq_priq (ts_queue ?y2)) ?y2" by (simp add: tq_asleep_def)
  have "ent (tq_priq (ts_queue ?y2)) = {#(Priority m, m)#}"
    using ent_Push [OF assms(1), of "ts_queue ?y1" m] q1 assms(2) by simp
  moreover have "tq_priq (ts_queue y') = tq_priq (ts_queue ?y2)" if "(tq_step N pq)\<^sup>*\<^sup>* ?y2 y'" for y'
    using asleep.along [OF that asleep] by (simp add: tq_asleep_def)
  ultimately show ?thesis using r_into_rtranclp [of "tq_step N pq", OF s1] r_into_rtranclp [of "tq_step N pq", OF s2]
    by (intro exI [of _ ?y1] exI [of _ ?y2] conjI allI impI) assumption+
qed

definition item :: "u64 \<Rightarrow> Message" where
  "item p = blank_Message\<lparr>m_QueuePriority := p\<rparr>"

definition example_tq :: "(u64 \<times> Message) list TimerQueue" where
  "example_tq = \<lparr>tq_priq = [(7, item 7), (5, item 5)], tq_nextQ = new_Queue 3, tq_signals = 0\<rparr>"

lemma example_tq_inv: "tq_inv 3 mset example_tq"
  using new_Queue_inv [of 3, where 'a = Message and 'b = Message] by (simp add: tq_inv_def example_tq_def item_def Priority_def)

lemma example_tq_next: "q_list 3 (tq_nextQ example_tq) = []"
  by (simp add: example_tq_def q_list_def new_Queue_def)

text \<open>A new queue at time 0, in which two items were pushed and the worker came to \<open>forward\<close> at time 6.\<close>

definition example_ts :: "(u64 \<times> Message) list tq_system" where
  "example_ts = \<lparr>ts_queue = \<lparr>tq_priq = [(5, item 5), (7, item 7)], tq_nextQ = new_Queue 3, tq_signals = Suc (Suc 0)\<rparr>,
     ts_worker = AtLook, ts_waiter = NoWaiter, ts_now = 6\<rparr>"

lemma example_ts_reach: "tq_reach 3 list_pq (tq_start [] (new_Queue 3) 0) example_ts"
proof -
  let ?y0 = "tq_start [] (new_Queue 3) 0" and ?push = "\<lambda>y m. y\<lparr>ts_queue := TimerQueue_Push list_pq (ts_queue y) m\<rparr>"
  have "tq_reach 3 list_pq ?y0 (?push (?push ?y0 (item 7)) (item 5))"
    by (intro tq_reach.push tq_reach.start) (simp_all add: item_def Priority_def)
  from tq_reach.inner [OF this tq_step.time [where now = 6]] show ?thesis
    by (simp add: example_ts_def tq_start_def NewTimerQueue_def TimerQueue_Push_def Signal_def list_pq_def item_def Priority_def)
qed

lemma example_ts_look: "tq_step 3 list_pq example_ts (example_ts\<lparr>ts_worker := AtForward\<rparr>)"
  by (rule tq_step.look_due) (simp_all add: example_ts_def TimerQueue_look_def list_pq_def tq_due_def u64_of_i64_def)

theorem timer_queue_in_time_witness:
  "\<exists>y y'. tq_reach 3 list_pq (tq_start [] (new_Queue 3) 0) y \<and> tq_step 3 list_pq y y' \<and>
     tq_nextQ (ts_queue y') \<noteq> tq_nextQ (ts_queue y) \<and>
     (\<exists>m. uint (Priority m) \<le> 6 \<and> q_list 3 (tq_nextQ (ts_queue y')) = [m])"
proof -
  let ?y = "example_ts\<lparr>ts_worker := AtForward\<rparr>"
  have q: "q_inv 3 (new_Queue 3 :: Message queue)" using new_Queue_inv [of 3, where 'a = Message and 'b = Message] by simp
  have r: "tq_reach 3 list_pq (tq_start [] (new_Queue 3) 0) ?y"
    using tq_reach.inner [OF example_ts_reach example_ts_look] by (simp add: example_ts_def)
  have "tq_inv 3 mset (ts_queue ?y)" "q_list 3 (tq_nextQ (ts_queue ?y)) = []"
    using q by (simp_all add: tq_inv_def example_ts_def item_def Priority_def q_list_def new_Queue_def)
  then obtain a where a: "TimerQueue_forward 3 list_pq (ts_queue ?y) = Ok a" using forward_total [of 3 mset "ts_queue ?y"] by auto
  then have s: "tq_step 3 list_pq ?y (?y\<lparr>ts_queue := a, ts_worker := AtLook\<rparr>)" by (intro tq_step.forward) simp_all
  have n: "tq_nextQ a \<noteq> tq_nextQ (ts_queue ?y)"
    using a by (auto simp: example_ts_def TimerQueue_forward_def list_pq_def Queue_Push_def new_Queue_def go_simps Let_def split: if_splits option.splits)
  from timer_queue_in_time [OF list_pq_ok _ q _ _ r s] n \<open>q_list 3 (tq_nextQ (ts_queue ?y)) = []\<close>
  obtain m where "uint (Priority m) \<le> 6" "q_list 3 (tq_nextQ a) = [m]" by (auto simp: example_ts_def)
  with r s n show ?thesis by (intro exI [of _ ?y] exI [of _ "?y\<lparr>ts_queue := a, ts_worker := AtLook\<rparr>"]) auto
qed

theorem Remove_takes_head_witness:
  "\<exists>a y'. TimerQueue_Remove list_pq example_tq (item 7) = (a, None) \<and>
     (tq_step 3 list_pq)\<^sup>*\<^sup>* \<lparr>ts_queue = a, ts_worker = AtSelect (Some 5), ts_waiter = InWait, ts_now = 5\<rparr> y' \<and>
     ts_now y' = 5 \<and> q_list 3 (tq_nextQ (ts_queue y')) = [item 7]"
proof -
  let ?y = "\<lparr>ts_queue = example_tq, ts_worker = AtSelect (Some 5), ts_waiter = InWait, ts_now = 5\<rparr>"
  have h: "tq_inv 3 mset (ts_queue ?y)"
      "mset (tq_priq (ts_queue ?y)) = add_mset (5, item 5) (add_mset (7, item 7) {#})"
      "ts_worker ?y = AtSelect (Some 5)" "5 \<le> ts_now ?y" "length (q_list 3 (tq_nextQ (ts_queue ?y))) < 3"
    using example_tq_inv example_tq_next by (simp_all add: example_tq_def)
  have "(5 :: u64) < 7" by simp
  from Remove_takes_head [OF list_pq_ok h(1,2) this _ h(3-5)] show ?thesis using example_tq_next by auto
qed

theorem lost_wakeup_witness:
  "\<exists>y1 y2. (tq_step 3 list_pq)\<^sup>*\<^sup>* (tq_start [] (new_Queue 3) 6) y1 \<and>
     (tq_step 3 list_pq)\<^sup>*\<^sup>* (y1\<lparr>ts_queue := TimerQueue_Push list_pq (ts_queue y1) (item 5)\<rparr>) y2 \<and>
     mset (tq_priq (ts_queue y2)) = {#(5, item 5)#}"
  using lost_wakeup [OF list_pq_ok, of "[]" 3 "new_Queue 3" 6 "item 5"]
  by (auto simp: item_def Priority_def)

end
