(* ===== verification/Meson_Config.thy ===== *)
theory Meson_Config
  imports Meson_Types
begin

text \<open>
  \<^verbatim>\<open>src/internal/proxy/proxy.go\<close>, \<^verbatim>\<open>src/config/config.go\<close> and \<^verbatim>\<open>src/config/update.go\<close>: the configuration
  of the client, its defaults and its validation.  Sections that may be missing are options, and
  using a missing one dereferences a nil pointer.  A method that changes its receiver returns the
  changed record beside the error, since the changes made before an error stay.  Third-party
  checks (addresses, trust options, user names, mail addresses, the blockchain's RPC) are
  arguments; so is what \<^verbatim>\<open>strings.ToLower\<close> and \<open>ToUpper\<close> do to text that is not ASCII.
\<close>

section \<open>Text\<close>

definition is_ascii :: "string \<Rightarrow> bool" where
  "is_ascii s \<longleftrightarrow> (\<forall>c \<in> set s. (of_char c :: nat) < 128)"

definition ascii_lower :: "char \<Rightarrow> char" where
  "ascii_lower c = (if 65 \<le> (of_char c :: nat) \<and> (of_char c :: nat) \<le> 90
                    then char_of ((of_char c :: nat) + 32) else c)"

definition ascii_upper :: "char \<Rightarrow> char" where
  "ascii_upper c = (if 97 \<le> (of_char c :: nat) \<and> (of_char c :: nat) \<le> 122
                    then char_of ((of_char c :: nat) - 32) else c)"

record unicode_ops =
  unicode_lower :: "string \<Rightarrow> string"
  unicode_upper :: "string \<Rightarrow> string"

definition ToLower :: "unicode_ops \<Rightarrow> string \<Rightarrow> string" where
  "ToLower uni s = (if is_ascii s then map ascii_lower s else unicode_lower uni s)"

definition ToUpper :: "unicode_ops \<Rightarrow> string \<Rightarrow> string" where
  "ToUpper uni s = (if is_ascii s then map ascii_upper s else unicode_upper uni s)"

section \<open>The upstream proxy\<close>

definition typeNone :: string where "typeNone = ''none''"
definition typeTorSocks5 :: string where "typeTorSocks5 = ''tor+socks5''"
definition typeSocks5 :: string where "typeSocks5 = ''socks5''"
definition netUnix :: string where "netUnix = ''unix''"
definition netTCP :: string where "netTCP = ''tcp''"
definition maxSocks5AuthLen :: nat where "maxSocks5AuthLen = 255"

record proxy_config =
  px_Type :: string
  px_Network :: string
  px_Address :: string
  px_User :: string
  px_Password :: string
  px_auth :: "(string \<times> string) option"

text \<open>\<open>utils.EnsureAddrIPPort\<close>, \<open>os.Lstat\<close> (whether the file is a socket) and \<open>sha512.Sum512_256\<close>.\<close>

record proxy_env =
  EnsureAddrIPPort :: "string \<Rightarrow> go_error option"
  Lstat :: "string \<Rightarrow> bool result"
  Sum512_256 :: "bytes \<Rightarrow> bytes"
  torSocks5ProcessIsolation :: string

definition proxy_auth :: "proxy_config \<Rightarrow> proxy_config result" where
  "proxy_auth cfg =
    (let uLen = length (px_User cfg); pLen = length (px_Password cfg) in
     if uLen > maxSocks5AuthLen then Inl (Errorf ''proxy/config: User too long'' [])
     else if pLen > maxSocks5AuthLen then Inl (Errorf ''proxy/config: Password too long'' [])
     else if uLen \<noteq> 0 \<and> pLen = 0 \<or> uLen = 0 \<and> pLen \<noteq> 0 then
       Inl (Errorf ''proxy/config: Both User and Password must be specified'' [])
     else if uLen \<noteq> 0 \<and> pLen \<noteq> 0 then
       (if px_Type cfg = typeTorSocks5 then
          Inl (Errorf ''proxy:config: Tor SOCKS5 conflicts with setting User/Password'' [])
        else Inr (cfg\<lparr>px_auth := Some (px_User cfg, px_Password cfg)\<rparr>))
     else Inr cfg)"

definition proxy_network :: "unicode_ops \<Rightarrow> proxy_env \<Rightarrow> proxy_config \<Rightarrow> proxy_config \<times> go_error option" where
  "proxy_network uni env cfg0 =
    (let cfg = cfg0\<lparr>px_Network := ToLower uni (px_Network cfg0)\<rparr> in
     (cfg,
      if px_Network cfg = netTCP then
        (case EnsureAddrIPPort env (px_Address cfg) of
           Some err \<Rightarrow>
             Some (Errorf (''proxy/config: Address '' @ quoted_v @ '' is invalid: %v'') [ArgS (px_Address cfg), ArgE err])
         | None \<Rightarrow> None)
      else if px_Network cfg = netUnix then
        (case Lstat env (px_Address cfg) of
           Inl err \<Rightarrow>
             Some (Errorf (''proxy/config: Address '' @ quoted_v @ '' failed to stat(): %v'')
                     [ArgS (px_Address cfg), ArgE err])
         | Inr isSocket \<Rightarrow>
             (if \<not> isSocket then
                Some (Errorf (''proxy/config: Address '' @ quoted_v @ '' does not appear to be a socket'')
                        [ArgS (px_Address cfg)])
              else None))
      else Some (Errorf (''proxy/config: Network '' @ quoted_v @ '' is invalid'') [ArgS (px_Network cfg)])))"

definition proxy_FixupAndValidate ::
  "unicode_ops \<Rightarrow> proxy_env \<Rightarrow> proxy_config \<Rightarrow> proxy_config \<times> go_error option" where
  "proxy_FixupAndValidate uni env cfg0 =
    (let cfg = cfg0\<lparr>px_Type := ToLower uni (px_Type cfg0)\<rparr> in
     if px_Type cfg = '''' then (cfg\<lparr>px_Type := typeNone\<rparr>, None)
     else if px_Type cfg = typeNone then (cfg, None)
     else if px_Type cfg = typeSocks5 \<or> px_Type cfg = typeTorSocks5 then
       (case proxy_auth cfg of
          Inl err \<Rightarrow> (cfg, Some err)
        | Inr cfg1 \<Rightarrow> proxy_network uni env cfg1)
     else (cfg, Some (Errorf (''proxy/config: Type '' @ quoted_v @ '' is invalid'') [ArgS (px_Type cfg)])))"

text \<open>\<open>init\<close>: the isolation tag of the process, from its number and the time of its start.\<close>

definition torSocks5_init :: "(bytes \<Rightarrow> bytes) \<Rightarrow> u64 \<Rightarrow> u64 \<Rightarrow> string" where
  "torSocks5_init sum512 pid unix =
    (let buf = PutUint64 pid @ PutUint64 unix in
     ''hashcloak/Meson-client:'' @ EncodeToString (take 8 (sum512 buf)) @ '':'')"

record contextSOCKS5 =
  proxyNet :: string
  proxyAddr :: string
  proxyAuth :: "(string \<times> string) option"

definition newContextSOCKS5 :: "proxy_env \<Rightarrow> proxy_config \<Rightarrow> string \<Rightarrow> contextSOCKS5" where
  "newContextSOCKS5 env cfg tag =
    (let auth = (if px_Type cfg = typeTorSocks5 then
                   let sum = Sum512_256 env (bytes_of_string tag);
                       isolationTag = torSocks5ProcessIsolation env @ EncodeToString (take 16 sum)
                   in Some (isolationTag, [CHR 0x00])
                 else px_auth cfg)
     in \<lparr>proxyNet = px_Network cfg, proxyAddr = px_Address cfg, proxyAuth = auth\<rparr>)"

text \<open>\<open>ToDialContext\<close>: no dial function, one that goes through the proxy, or a panic.\<close>

definition ToDialContext :: "proxy_env \<Rightarrow> proxy_config \<Rightarrow> string \<Rightarrow> contextSOCKS5 option outcome" where
  "ToDialContext env cfg tag =
    (if px_Type cfg = typeNone then Ok None
     else if px_Type cfg = typeSocks5 \<or> px_Type cfg = typeTorSocks5 then Ok (Some (newContextSOCKS5 env cfg tag))
     else Panic (''proxy: ToDialContext(): invalid type: '' @ px_Type cfg))"

section \<open>The configuration file\<close>

definition defaultLogLevel :: string where "defaultLogLevel = ''NOTICE''"
definition defaultPollingInterval :: int where "defaultPollingInterval = 10"
definition defaultInitialMaxPKIRetrievalDelay :: int where "defaultInitialMaxPKIRetrievalDelay = 30"
definition defaultSessionDialTimeout :: int where "defaultSessionDialTimeout = 30"

record Logging =
  log_Disable :: bool
  log_File :: string
  log_Level :: string

definition defaultLogging :: Logging where
  "defaultLogging = \<lparr>log_Disable = False, log_File = '''', log_Level = defaultLogLevel\<rparr>"

definition Logging_validate :: "unicode_ops \<Rightarrow> Logging \<Rightarrow> Logging \<times> go_error option" where
  "Logging_validate uni lCfg =
    (let lvl = ToUpper uni (log_Level lCfg) in
     if lvl \<in> {''ERROR'', ''WARNING'', ''NOTICE'', ''INFO'', ''DEBUG''} then
       (lCfg\<lparr>log_Level := lvl\<rparr>, None)
     else if lvl = '''' then
       (let lCfg1 = lCfg\<lparr>log_Level := defaultLogLevel\<rparr> in (lCfg1\<lparr>log_Level := lvl\<rparr>, None))
     else (lCfg, Some (Errorf (''config: Logging: Level '' @ quoted_v @ '' is invalid'') [ArgS (log_Level lCfg)])))"

record Debug =
  DisableDecoyTraffic :: bool
  SessionDialTimeout :: int
  InitialMaxPKIRetrievalDelay :: int
  CaseSensitiveUserIdentifiers :: bool
  PollingInterval :: int
  PreferedTransports :: "string list option"

definition Debug_fixup :: "Debug \<Rightarrow> Debug" where
  "Debug_fixup d =
    (let d1 = (if PollingInterval d = 0 then d\<lparr>PollingInterval := defaultPollingInterval\<rparr> else d);
         d2 = (if InitialMaxPKIRetrievalDelay d1 = 0
               then d1\<lparr>InitialMaxPKIRetrievalDelay := defaultInitialMaxPKIRetrievalDelay\<rparr> else d1)
     in if SessionDialTimeout d2 = 0 then d2\<lparr>SessionDialTimeout := defaultSessionDialTimeout\<rparr> else d2)"

record TrustOptions =
  Period :: int
  TrustHeight :: int
  TrustHash :: bytes

record Katzenmint =
  ChainID :: string
  km_TrustOptions :: TrustOptions
  PrimaryAddress :: string
  WitnessesAddresses :: "string list"
  DatabaseName :: string
  DatabaseDir :: string
  RPCAddress :: string

text \<open>The checks of third-party packages that the validation calls.\<close>

record config_env =
  ValidateBasic :: "TrustOptions \<Rightarrow> go_error option"
  UsernameCaseMapped :: "string \<Rightarrow> string \<times> go_error option"
  UsernameCasePreserved :: "string \<Rightarrow> string \<times> go_error option"
  idnaToASCII :: "string \<Rightarrow> string \<times> go_error option"
  ParseAddress :: "string \<Rightarrow> go_error option"

definition Katzenmint_validate :: "config_env \<Rightarrow> Katzenmint \<Rightarrow> go_error option" where
  "Katzenmint_validate cenv t =
    (if ValidateBasic cenv (km_TrustOptions t) \<noteq> None then ValidateBasic cenv (km_TrustOptions t)
     else if PrimaryAddress t = '''' then Some (Errorf ''Primary address is missing'' [])
     else if DatabaseName t = '''' \<or> DatabaseDir t = '''' then
       Some (Errorf ''Database name or directory is missing'' [])
     else if RPCAddress t = '''' then Some (Errorf ''RPC address is missing'' [])
     else None)"

text \<open>What \<open>Config.NewPKIClient\<close> hands to the constructor of the Katzenmint client; the proxy is not used.\<close>

record PKIClientConfig =
  pk_ChainID :: string
  pk_TrustOptions :: TrustOptions
  pk_PrimaryAddress :: string
  pk_WitnessesAddresses :: "string list"
  pk_DatabaseName :: string
  pk_DatabaseDir :: string
  pk_RPCAddress :: string

definition Config_NewPKIClient :: "Katzenmint option \<Rightarrow> PKIClientConfig outcome" where
  "Config_NewPKIClient k =
    (case k of
       None \<Rightarrow> Panic ''nil pointer dereference''
     | Some t \<Rightarrow> Ok \<lparr>pk_ChainID = ChainID t, pk_TrustOptions = km_TrustOptions t,
         pk_PrimaryAddress = PrimaryAddress t, pk_WitnessesAddresses = WitnessesAddresses t,
         pk_DatabaseName = DatabaseName t, pk_DatabaseDir = DatabaseDir t, pk_RPCAddress = RPCAddress t\<rparr>)"

record Panda =
  Receiver :: string
  panda_Provider :: string
  BlobSize :: int

definition Panda_validate :: "Panda \<Rightarrow> go_error option" where
  "Panda_validate p =
    (if Receiver p = '''' then Some (Errorf ''receiver is missing'' [])
     else if panda_Provider p = '''' then Some (Errorf ''provider is missing'' [])
     else None)"

record Account =
  acc_User :: string
  acc_Provider :: string
  acc_ProviderKeyPin :: "bytes option"

record Registration =
  reg_Address :: string
  reg_Options :: "(string \<times> bool \<times> string \<times> string) option"

record UpstreamProxy =
  up_Type :: string
  up_Network :: string
  up_Address :: string
  up_User :: string
  up_Password :: string

record Config =
  cf_Logging :: "Logging option"
  cf_UpstreamProxy :: "UpstreamProxy option"
  cf_Debug :: "Debug option"
  cf_Katzenmint :: "Katzenmint option"
  cf_Account :: "Account option"
  cf_Registration :: "Registration option"
  cf_Panda :: "Panda option"
  cf_Reunion :: "bool option"
  cf_upstreamProxy :: "proxy_config option"

definition Account_fixup :: "config_env \<Rightarrow> Debug \<Rightarrow> Account \<Rightarrow> Account \<times> go_error option" where
  "Account_fixup cenv dbg acc =
    (case (if \<not> CaseSensitiveUserIdentifiers dbg then UsernameCaseMapped cenv (acc_User acc)
           else UsernameCasePreserved cenv (acc_User acc)) of (user, err) \<Rightarrow>
       let acc1 = acc\<lparr>acc_User := user\<rparr> in
       if err \<noteq> None then (acc1, err)
       else (case idnaToASCII cenv (acc_Provider acc1) of (prv, err) \<Rightarrow>
               (acc1\<lparr>acc_Provider := prv\<rparr>, err)))"

definition toEmailAddr :: "config_env \<Rightarrow> Account \<Rightarrow> string result" where
  "toEmailAddr cenv acc =
    (let addr = acc_User acc @ ''@'' @ acc_Provider acc in
     case ParseAddress cenv addr of
       Some err \<Rightarrow> Inl (Errorf ''error User/Provider does not form a valid e-mail address: %v'' [ArgE err])
     | None \<Rightarrow> Inr addr)"

definition Account_validate :: "Account \<Rightarrow> go_error option" where
  "Account_validate acc =
    (if acc_User acc = '''' then Some (Errorf ''user is missing'' [])
     else if acc_Provider acc = '''' then Some (Errorf ''provider is missing'' [])
     else None)"

definition Registration_validate :: "Registration \<Rightarrow> go_error option" where
  "Registration_validate r =
    (if reg_Address r = '''' then Some (Errorf ''registration Address cannot be empty'' []) else None)"

definition toProxyConfig :: "unicode_ops \<Rightarrow> proxy_env \<Rightarrow> UpstreamProxy option \<Rightarrow> proxy_config result outcome" where
  "toProxyConfig uni env u =
    (case u of
       None \<Rightarrow> Panic ''nil pointer dereference''
     | Some uCfg \<Rightarrow>
         (case proxy_FixupAndValidate uni env \<lparr>px_Type = up_Type uCfg, px_Network = up_Network uCfg,
                 px_Address = up_Address uCfg, px_User = up_User uCfg, px_Password = up_Password uCfg,
                 px_auth = None\<rparr> of
            (cfg, Some err) \<Rightarrow> Ok (Inl err)
          | (cfg, None) \<Rightarrow> Ok (Inr cfg)))"

text \<open>The first part of \<open>FixupAndMinimallyValidate\<close>: missing sections.\<close>

definition default_sections :: "Config \<Rightarrow> Config" where
  "default_sections c =
    (let c1 = (if cf_Logging c = None then c\<lparr>cf_Logging := Some defaultLogging\<rparr> else c) in
     case cf_Debug c1 of
       None \<Rightarrow> c1\<lparr>cf_Debug := Some \<lparr>DisableDecoyTraffic = False, SessionDialTimeout = 0,
                 InitialMaxPKIRetrievalDelay = defaultInitialMaxPKIRetrievalDelay,
                 CaseSensitiveUserIdentifiers = False, PollingInterval = defaultPollingInterval,
                 PreferedTransports = None\<rparr>\<rparr>
     | Some d \<Rightarrow> c1\<lparr>cf_Debug := Some (Debug_fixup d)\<rparr>)"

definition FixupAndMinimallyValidate ::
  "unicode_ops \<Rightarrow> proxy_env \<Rightarrow> config_env \<Rightarrow> Config \<Rightarrow> (Config \<times> go_error option) outcome" where
  "FixupAndMinimallyValidate uni env cenv c0 =
    (let c = default_sections c0 in
     case Logging_validate uni (the (cf_Logging c)) of (lg, lerr) \<Rightarrow>
       let c1 = c\<lparr>cf_Logging := Some lg\<rparr> in
       if lerr \<noteq> None then Ok (c1, lerr)
       else
         obind (toProxyConfig uni env (cf_UpstreamProxy c1)) (\<lambda>pr.
           case pr of
             Inl err \<Rightarrow> Ok (c1, Some err)
           | Inr uCfg \<Rightarrow>
               (let c2 = c1\<lparr>cf_upstreamProxy := Some uCfg\<rparr> in
                case cf_Katzenmint c2 of
                  None \<Rightarrow> Panic ''nil pointer dereference''
                | Some k \<Rightarrow>
                    (case Katzenmint_validate cenv k of
                       Some err \<Rightarrow> Ok (c2, Some (Errorf ''config: Katzenmint is invalid: %v'' [ArgE err]))
                     | None \<Rightarrow>
                         (case cf_Panda c2 of
                            Some p \<Rightarrow>
                              (case Panda_validate p of
                                 Some err \<Rightarrow> Ok (c2, Some (Errorf ''config: Panda config is invalid: %v'' [ArgE err]))
                               | None \<Rightarrow> Ok (c2, None))
                          | None \<Rightarrow> Ok (c2, None))))))"

definition Config_FixupAndValidate ::
  "unicode_ops \<Rightarrow> proxy_env \<Rightarrow> config_env \<Rightarrow> Config \<Rightarrow> (Config \<times> go_error option) outcome" where
  "Config_FixupAndValidate uni env cenv c0 =
    obind (FixupAndMinimallyValidate uni env cenv c0) (\<lambda>(c, err).
      if err \<noteq> None then Ok (c, err)
      else (case cf_Account c of
              None \<Rightarrow> Panic ''nil pointer dereference''
            | Some acc \<Rightarrow>
                (case Account_fixup cenv (the (cf_Debug c)) acc of
                   (acc1, Some e) \<Rightarrow>
                     Ok (c\<lparr>cf_Account := Some acc1\<rparr>, Some (Errorf ''config: Account is invalid (User): %v'' [ArgE e]))
                 | (acc1, None) \<Rightarrow>
                     (let c1 = c\<lparr>cf_Account := Some acc1\<rparr> in
                      case toEmailAddr cenv acc1 of
                        Inl e \<Rightarrow> Ok (c1, Some (Errorf ''config: Account is invalid (Identifier): %v'' [ArgE e]))
                      | Inr addr \<Rightarrow>
                          (case Account_validate acc1 of
                             Some e \<Rightarrow>
                               Ok (c1, Some (Errorf (''config: Account '' @ quoted_v @ '' is invalid: %v'') [ArgS addr, ArgE e]))
                           | None \<Rightarrow>
                               (case cf_Registration c1 of
                                  None \<Rightarrow>
                                    Ok (c1, Some (Errorf ''config: error, Registration config section is non-optional'' []))
                                | Some reg \<Rightarrow> Ok (c1, Registration_validate reg)))))))"

text \<open>\<open>Load\<close>: the decoder is third-party code and yields the configuration and the undecoded keys.\<close>

definition Load ::
  "unicode_ops \<Rightarrow> proxy_env \<Rightarrow> config_env \<Rightarrow> (bytes \<Rightarrow> (Config \<times> string list) result) \<Rightarrow> bytes \<Rightarrow> Config result outcome" where
  "Load uni env cenv decode b =
    (case decode b of
       Inl err \<Rightarrow> Ok (Inl err)
     | Inr (cfg, undecoded) \<Rightarrow>
         (if length undecoded \<noteq> 0 then
            Ok (Inl (Errorf ''config: Undecoded keys in config file: %v'' (map ArgS undecoded)))
          else
            obind (FixupAndMinimallyValidate uni env cenv cfg) (\<lambda>(cfg', err).
              case err of Some e \<Rightarrow> Ok (Inl e) | None \<Rightarrow> Ok (Inr cfg'))))"

definition LoadFile ::
  "unicode_ops \<Rightarrow> proxy_env \<Rightarrow> config_env \<Rightarrow> (bytes \<Rightarrow> (Config \<times> string list) result) \<Rightarrow>
   (string \<Rightarrow> bytes result) \<Rightarrow> string \<Rightarrow> Config result outcome" where
  "LoadFile uni env cenv decode readFile f =
    (case readFile f of Inl err \<Rightarrow> Ok (Inl err) | Inr b \<Rightarrow> Load uni env cenv decode b)"

text \<open>
  \<open>SaveConfig\<close> on the files of the system: the error of creating the file, and what the encoder, which
  is third-party code, writes before it ends, with its error.
\<close>

type_synonym files = "string \<Rightarrow> bytes option"

definition SaveConfig ::
  "(string \<Rightarrow> go_error option) \<Rightarrow> (Config \<Rightarrow> bytes \<times> go_error option) \<Rightarrow> Config \<Rightarrow> string \<Rightarrow> files \<Rightarrow>
   files \<times> go_error option" where
  "SaveConfig create encode c fileName fs =
    (case create fileName of
       Some err \<Rightarrow> (fs, Some err)
     | None \<Rightarrow> (case encode c of (b, err) \<Rightarrow> (fs(fileName \<mapsto> b), err)))"

definition ReadFile :: "files \<Rightarrow> string \<Rightarrow> bytes result" where
  "ReadFile fs f = (case fs f of None \<Rightarrow> Inl (ExtError ''no such file'') | Some b \<Rightarrow> Inr b)"

text \<open>
  \<open>UpdateTrust\<close>: the answers of the RPC client, in the order it is asked; the block may be nil.
\<close>

record trust_env =
  rpc_New :: "go_error option"
  rpc_LastBlockHeight :: "int result"
  rpc_GenesisChainID :: "string result"
  rpc_BlockHash :: "int \<Rightarrow> bytes option result"

definition UpdateTrust :: "trust_env \<Rightarrow> Config \<Rightarrow> (Config \<times> go_error option) outcome" where
  "UpdateTrust tenv c =
    (case cf_Katzenmint c of
       None \<Rightarrow> Panic ''nil pointer dereference''
     | Some k \<Rightarrow>
         (if rpc_New tenv \<noteq> None then Ok (c, rpc_New tenv)
          else (case rpc_LastBlockHeight tenv of
                  Inl err \<Rightarrow> Ok (c, Some err)
                | Inr blockHeight \<Rightarrow>
                    (case rpc_GenesisChainID tenv of
                       Inl err \<Rightarrow> Ok (c, Some err)
                     | Inr chain \<Rightarrow>
                         (case rpc_BlockHash tenv blockHeight of
                            Inl err \<Rightarrow> Ok (c, Some err)
                          | Inr None \<Rightarrow> Ok (c, Some (Errorf (''couldn'' @ [CHR 0x27] @ ''t find block: %d'') [ArgI blockHeight]))
                          | Inr (Some h) \<Rightarrow>
                              (if chain \<noteq> ChainID k then Ok (c, Some (Errorf ''wrong chain ID'' []))
                               else Ok (c\<lparr>cf_Katzenmint := Some (k\<lparr>km_TrustOptions :=
                                      \<lparr>Period = 600 * Second, TrustHeight = blockHeight, TrustHash = h\<rparr>\<rparr>)\<rparr>, None)))))))"

section \<open>Lemmas\<close>

lemma types_distinct [simp]:
  "typeSocks5 \<noteq> typeNone" "typeTorSocks5 \<noteq> typeNone" "typeTorSocks5 \<noteq> typeSocks5"
  "typeNone \<noteq> typeSocks5" "typeNone \<noteq> typeTorSocks5" "typeSocks5 \<noteq> typeTorSocks5"
  by (simp_all add: typeNone_def typeSocks5_def typeTorSocks5_def)

lemma proxy_FixupAndValidate_ok:
  assumes "proxy_FixupAndValidate uni env cfg0 = (cfg, None)"
  shows "px_User cfg = px_User cfg0 \<and> px_Password cfg = px_Password cfg0 \<and> px_Address cfg = px_Address cfg0 \<and>
    (px_Type cfg = typeNone \<or>
     (px_Type cfg \<in> {typeSocks5, typeTorSocks5} \<and> px_Network cfg \<in> {netTCP, netUnix} \<and>
      length (px_User cfg0) \<le> maxSocks5AuthLen \<and> length (px_Password cfg0) \<le> maxSocks5AuthLen \<and>
      (px_User cfg0 = '''' \<longleftrightarrow> px_Password cfg0 = '''') \<and>
      px_auth cfg = (if px_User cfg0 = '''' then px_auth cfg0 else Some (px_User cfg0, px_Password cfg0)) \<and>
      (px_Type cfg = typeTorSocks5 \<longrightarrow> px_User cfg0 = '''')))"
  using assms
  by (auto simp: proxy_FixupAndValidate_def proxy_auth_def proxy_network_def Let_def
      split: if_splits sum.splits option.splits)

lemma Logging_validate_ok:
  "Logging_validate uni lg = (lg', None) \<Longrightarrow>
   log_Level lg' \<in> {''ERROR'', ''WARNING'', ''NOTICE'', ''INFO'', ''DEBUG'', ''''}"
  by (auto simp: Logging_validate_def Let_def split: if_splits)

lemma default_sections_Debug:
  "\<exists>d. cf_Debug (default_sections c) = Some d \<and> PollingInterval d \<noteq> 0 \<and> InitialMaxPKIRetrievalDelay d \<noteq> 0 \<and>
     (SessionDialTimeout d \<noteq> 0 \<longleftrightarrow> cf_Debug c \<noteq> None)"
  by (cases "cf_Debug c") (auto simp: default_sections_def Debug_fixup_def Let_def defaultPollingInterval_def
      defaultInitialMaxPKIRetrievalDelay_def defaultSessionDialTimeout_def)

lemma minimal_ok:
  assumes "FixupAndMinimallyValidate uni env cenv c0 = Ok (c, None)"
  shows "cf_Debug c = cf_Debug (default_sections c0) \<and>
    (\<exists>lg u pc k. cf_Logging c = Some lg \<and> Logging_validate uni (the (cf_Logging (default_sections c0))) = (lg, None) \<and>
      cf_UpstreamProxy c0 = Some u \<and> cf_upstreamProxy c = Some pc \<and>
      proxy_FixupAndValidate uni env \<lparr>px_Type = up_Type u, px_Network = up_Network u,
         px_Address = up_Address u, px_User = up_User u, px_Password = up_Password u, px_auth = None\<rparr> = (pc, None) \<and>
      cf_Katzenmint c = Some k \<and> Katzenmint_validate cenv k = None \<and> cf_UpstreamProxy c = Some u \<and>
      (\<forall>p. cf_Panda c = Some p \<longrightarrow> Panda_validate p = None))"
proof -
  let ?c = "default_sections c0"
  obtain lg lerr where lg: "Logging_validate uni (the (cf_Logging ?c)) = (lg, lerr)" by fastforce
  have up: "cf_UpstreamProxy ?c = cf_UpstreamProxy c0"
    by (auto simp: default_sections_def Let_def split: option.splits)
  have le: "lerr = None" using assms lg by (auto simp: FixupAndMinimallyValidate_def Let_def split: if_splits)
  obtain u where u: "cf_UpstreamProxy c0 = Some u"
    using assms lg up le by (cases "cf_UpstreamProxy c0") (auto simp: FixupAndMinimallyValidate_def toProxyConfig_def)
  obtain pc perr where pc: "proxy_FixupAndValidate uni env \<lparr>px_Type = up_Type u, px_Network = up_Network u,
         px_Address = up_Address u, px_User = up_User u, px_Password = up_Password u, px_auth = None\<rparr> = (pc, perr)"
    by fastforce
  have pe: "perr = None"
    using assms lg up le u pc by (cases perr) (auto simp: FixupAndMinimallyValidate_def toProxyConfig_def)
  show ?thesis
    using assms lg up le u pc pe
    by (auto simp: FixupAndMinimallyValidate_def toProxyConfig_def Let_def split: option.splits)
qed

lemma Logging_validate_again:
  assumes "Logging_validate uni lg0 = (lg, None)"
  shows "Logging_validate uni lg = (lg, None)"
proof -
  have "ToUpper uni (log_Level lg) = log_Level lg"
    using Logging_validate_ok [OF assms] by (auto simp: ToUpper_def is_ascii_def ascii_upper_def of_char_def)
  with Logging_validate_ok [OF assms] show ?thesis by (auto simp: Logging_validate_def Let_def)
qed

text \<open>Validating what has been validated, without the field that is not saved.\<close>

lemma minimal_again:
  assumes "cf_Logging c = Some lg" and "Logging_validate uni lg = (lg, None)" and "cf_Debug c = Some d"
    and "cf_UpstreamProxy c = Some u" and "cf_upstreamProxy c = Some pc"
    and "proxy_FixupAndValidate uni env \<lparr>px_Type = up_Type u, px_Network = up_Network u,
         px_Address = up_Address u, px_User = up_User u, px_Password = up_Password u, px_auth = None\<rparr> = (pc, None)"
    and "cf_Katzenmint c = Some k" and "Katzenmint_validate cenv k = None"
    and "\<forall>p. cf_Panda c = Some p \<longrightarrow> Panda_validate p = None"
  shows "FixupAndMinimallyValidate uni env cenv (c\<lparr>cf_upstreamProxy := None\<rparr>) =
    Ok (c\<lparr>cf_Debug := Some (Debug_fixup d)\<rparr>, None)"
proof -
  have c: "c\<lparr>cf_Debug := Some (Debug_fixup d), cf_Logging := Some lg, cf_upstreamProxy := Some pc\<rparr> =
      c\<lparr>cf_Debug := Some (Debug_fixup d)\<rparr>" using assms(1,5) by simp
  show ?thesis
    using assms c by (auto simp: FixupAndMinimallyValidate_def default_sections_def toProxyConfig_def Let_def
        split: option.splits)
qed

lemma UpdateTrust_result:
  assumes "UpdateTrust tenv c0 = Ok (c, err)" and "cf_Katzenmint c0 = Some k"
  shows "\<exists>to. c = c0\<lparr>cf_Katzenmint := Some (k\<lparr>km_TrustOptions := to\<rparr>)\<rparr>"
proof -
  have id: "c0 = c0\<lparr>cf_Katzenmint := Some (k\<lparr>km_TrustOptions := km_TrustOptions k\<rparr>)\<rparr>" using assms(2) by simp
  have "c = c0 \<or> (\<exists>to. c = c0\<lparr>cf_Katzenmint := Some (k\<lparr>km_TrustOptions := to\<rparr>)\<rparr>)"
    using assms by (auto simp: UpdateTrust_def split: if_splits sum.splits option.splits)
  with id show ?thesis by metis
qed

section \<open>Properties\<close>

text \<open>
  A proxy configuration that passes validation can be used: \<open>ToDialContext\<close> does not panic; without a
  proxy it yields no dial function; otherwise one for a TCP or Unix address, which for plain
  SOCKS5 authenticates exactly when user and password were given (each at most 255 bytes), and for
  Tor uses the isolation tag of process and caller and never a configured user.  What is sent as
  user and password fits the 255 bytes of the SOCKS5 authentication also for Tor, the digest
  having 32 bytes.
\<close>

lemma proxy_validated_dials:
  assumes "proxy_FixupAndValidate uni env cfg0 = (cfg, None)" and "px_auth cfg0 = None"
    and "\<forall>b. length (Sum512_256 env b) = 32"
    and "torSocks5ProcessIsolation env = torSocks5_init (Sum512_256 env) pid unix"
  shows "(px_Type cfg = typeNone \<and> ToDialContext env cfg tag = Ok None) \<or>
    (\<exists>s. ToDialContext env cfg tag = Ok (Some s) \<and> proxyNet s \<in> {netTCP, netUnix} \<and>
      proxyAddr s = px_Address cfg0 \<and> length (px_User cfg0) \<le> 255 \<and> length (px_Password cfg0) \<le> 255 \<and>
      (if px_Type cfg = typeTorSocks5
       then px_User cfg0 = '''' \<and> (\<exists>user. proxyAuth s = Some (user, [CHR 0x00]) \<and> length user = 72 \<and>
              user = torSocks5ProcessIsolation env @ EncodeToString (take 16 (Sum512_256 env (bytes_of_string tag))))
       else proxyAuth s = (if px_User cfg0 = '''' then None else Some (px_User cfg0, px_Password cfg0))) \<and>
      (\<forall>user pw. proxyAuth s = Some (user, pw) \<longrightarrow> length user \<le> maxSocks5AuthLen \<and> length pw \<le> maxSocks5AuthLen))"
proof -
  let ?user = "torSocks5ProcessIsolation env @ EncodeToString (take 16 (Sum512_256 env (bytes_of_string tag)))"
  have "length ?user = 72" using assms(3,4) by (simp add: torSocks5_init_def Let_def)
  with proxy_FixupAndValidate_ok [OF assms(1)] assms(2) show ?thesis
    by (auto simp: ToDialContext_def newContextSOCKS5_def Let_def maxSocks5AuthLen_def)
qed

definition example_uni :: unicode_ops where
  "example_uni = \<lparr>unicode_lower = (\<lambda>s. s), unicode_upper = (\<lambda>s. s)\<rparr>"

definition example_penv :: proxy_env where
  "example_penv = \<lparr>EnsureAddrIPPort = (\<lambda>_. None), Lstat = (\<lambda>_. Inr True), Sum512_256 = (\<lambda>_. replicate 32 1),
     torSocks5ProcessIsolation = torSocks5_init (\<lambda>_. replicate 32 1) 7 8\<rparr>"

text \<open>
  C26. A configuration that \<open>Load\<close> accepts names a valid proxy and a valid Katzenmint section and has
  polling and PKI delays set.  Two defaults are missed: the session dial timeout is set exactly
  when the file has a \<open>Debug\<close> section, and is zero otherwise; and an empty log level stays empty.
\<close>

theorem Load_ready:
  assumes "Load uni env cenv decode b = Ok (Inr c)"
  shows "\<exists>c0 lg d u pc k. decode b = Inr (c0, []) \<and> cf_Logging c = Some lg \<and>
    log_Level lg \<in> {''ERROR'', ''WARNING'', ''NOTICE'', ''INFO'', ''DEBUG'', ''''} \<and>
    cf_Debug c = Some d \<and> PollingInterval d \<noteq> 0 \<and> InitialMaxPKIRetrievalDelay d \<noteq> 0 \<and>
    (SessionDialTimeout d \<noteq> 0 \<longleftrightarrow> cf_Debug c0 \<noteq> None) \<and>
    cf_UpstreamProxy c0 = Some u \<and> cf_upstreamProxy c = Some pc \<and> (\<forall>tag. no_panic (ToDialContext env pc tag)) \<and>
    cf_Katzenmint c = Some k \<and> Katzenmint_validate cenv k = None \<and>
    (\<forall>l0. cf_Logging c0 = Some l0 \<and> log_Level l0 = '''' \<longrightarrow> log_Level lg = '''')"
proof -
  obtain c0 where d: "decode b = Inr (c0, [])" and
      f: "FixupAndMinimallyValidate uni env cenv c0 = Ok (c, None)"
    using assms
    by (auto simp: Load_def go_simps split: sum.splits prod.splits if_splits option.splits)
  obtain lg u pc k where m: "cf_Debug c = cf_Debug (default_sections c0)" "cf_Logging c = Some lg"
      "Logging_validate uni (the (cf_Logging (default_sections c0))) = (lg, None)"
      "cf_UpstreamProxy c0 = Some u" "cf_upstreamProxy c = Some pc"
      "proxy_FixupAndValidate uni env \<lparr>px_Type = up_Type u, px_Network = up_Network u,
         px_Address = up_Address u, px_User = up_User u, px_Password = up_Password u, px_auth = None\<rparr> = (pc, None)"
      "cf_Katzenmint c = Some k" "Katzenmint_validate cenv k = None"
    using minimal_ok [OF f] by blast
  obtain dbg where g: "cf_Debug c = Some dbg" "PollingInterval dbg \<noteq> 0" "InitialMaxPKIRetrievalDelay dbg \<noteq> 0"
      "SessionDialTimeout dbg \<noteq> 0 \<longleftrightarrow> cf_Debug c0 \<noteq> None"
    using default_sections_Debug [of c0] m(1) by auto
  have dial: "no_panic (ToDialContext env pc tag)" for tag
    using proxy_FixupAndValidate_ok [OF m(6)] by (auto simp: ToDialContext_def)
  have lvl: "log_Level lg = ''''" if "cf_Logging c0 = Some l0" "log_Level l0 = ''''" for l0
  proof -
    have "cf_Logging (default_sections c0) = Some l0"
      using that(1) by (auto simp: default_sections_def Let_def split: option.splits)
    with m(3) that(2) show ?thesis
      by (auto simp: Logging_validate_def Let_def ToUpper_def is_ascii_def split: if_splits)
  qed
  from d m g dial lvl Logging_validate_ok [OF m(3)] show ?thesis by metis
qed

text \<open>
  C27. Saving a configuration and loading it again gives it back, where the encoding of the third-party
  package is faithful to the fields it covers: what \<open>Load\<close> accepted, \<open>UpdateTrust\<close> brought up to date
  and \<open>SaveConfig\<close> wrote is accepted again and is the same configuration, except that the dial
  timeout which a file without a \<open>Debug\<close> section did not get is now set.
\<close>

theorem SaveConfig_reloads:
  assumes "Load uni env cenv decode b = Ok (Inr c0)" and "UpdateTrust tenv c0 = Ok (c, terr)"
    and "\<forall>k. cf_Katzenmint c = Some k \<longrightarrow> ValidateBasic cenv (km_TrustOptions k) = None"
    and "create f = None" and "encode c = (b', None)" and "decode b' = Inr (c\<lparr>cf_upstreamProxy := None\<rparr>, [])"
  shows "\<exists>fs' c'. SaveConfig create encode c f fs = (fs', None) \<and>
    LoadFile uni env cenv decode (ReadFile fs') f = Ok (Inr c') \<and>
    c' = c\<lparr>cf_Debug := map_option Debug_fixup (cf_Debug c)\<rparr> \<and>
    (\<forall>c1. decode b = Inr (c1, []) \<and> cf_Debug c1 \<noteq> None \<longrightarrow> c' = c)"
proof -
  obtain c1 where d: "decode b = Inr (c1, [])" and
      f: "FixupAndMinimallyValidate uni env cenv c1 = Ok (c0, None)"
    using assms(1)
    by (auto simp: Load_def go_simps split: sum.splits prod.splits if_splits option.splits)
  obtain lg u pc k where m: "cf_Debug c0 = cf_Debug (default_sections c1)" "cf_Logging c0 = Some lg"
      "Logging_validate uni (the (cf_Logging (default_sections c1))) = (lg, None)"
      "cf_upstreamProxy c0 = Some pc"
      "proxy_FixupAndValidate uni env \<lparr>px_Type = up_Type u, px_Network = up_Network u,
         px_Address = up_Address u, px_User = up_User u, px_Password = up_Password u, px_auth = None\<rparr> = (pc, None)"
      "cf_Katzenmint c0 = Some k" "Katzenmint_validate cenv k = None" "cf_UpstreamProxy c0 = Some u"
      "\<forall>p. cf_Panda c0 = Some p \<longrightarrow> Panda_validate p = None"
    using minimal_ok [OF f] by blast
  obtain dbg where g: "cf_Debug c0 = Some dbg" "PollingInterval dbg \<noteq> 0" "InitialMaxPKIRetrievalDelay dbg \<noteq> 0"
      "SessionDialTimeout dbg \<noteq> 0 \<longleftrightarrow> cf_Debug c1 \<noteq> None"
    using default_sections_Debug [of c1] m(1) by auto
  obtain to where c: "c = c0\<lparr>cf_Katzenmint := Some (k\<lparr>km_TrustOptions := to\<rparr>)\<rparr>"
    using UpdateTrust_result [OF assms(2) m(6)] by blast
  have kv: "Katzenmint_validate cenv (k\<lparr>km_TrustOptions := to\<rparr>) = None"
    using m(7) assms(3) c by (auto simp: Katzenmint_validate_def split: if_splits)
  have "FixupAndMinimallyValidate uni env cenv (c\<lparr>cf_upstreamProxy := None\<rparr>) =
      Ok (c\<lparr>cf_Debug := Some (Debug_fixup dbg)\<rparr>, None)"
    by (rule minimal_again [where lg = lg and u = u and pc = pc and k = "k\<lparr>km_TrustOptions := to\<rparr>"])
      (use m g c kv Logging_validate_again [OF m(3)] in simp_all)
  then have l: "Load uni env cenv decode b' = Ok (Inr (c\<lparr>cf_Debug := Some (Debug_fixup dbg)\<rparr>))"
    using assms(6) by (simp add: Load_def)
  have "c\<lparr>cf_Debug := Some (Debug_fixup dbg)\<rparr> = c" if "cf_Debug c1 \<noteq> None"
    using g that c by (simp add: Debug_fixup_def)
  with l d g(1) c assms(4,5) show ?thesis
    by (auto simp: SaveConfig_def LoadFile_def ReadFile_def)
qed

definition example_file :: Config where
  "example_file = \<lparr>cf_Logging = Some \<lparr>log_Disable = False, log_File = '''', log_Level = ''''\<rparr>,
     cf_UpstreamProxy = Some \<lparr>up_Type = ''none'', up_Network = '''', up_Address = '''', up_User = '''', up_Password = ''''\<rparr>,
     cf_Debug = None, cf_Katzenmint = Some \<lparr>ChainID = ''c'',
       km_TrustOptions = \<lparr>Period = 1, TrustHeight = 1, TrustHash = []\<rparr>, PrimaryAddress = ''p'',
       WitnessesAddresses = [], DatabaseName = ''n'', DatabaseDir = ''d'', RPCAddress = ''r''\<rparr>,
     cf_Account = None, cf_Registration = None, cf_Panda = None, cf_Reunion = None, cf_upstreamProxy = None\<rparr>"

definition example_cenv :: config_env where
  "example_cenv = \<lparr>ValidateBasic = (\<lambda>_. None), UsernameCaseMapped = (\<lambda>s. (s, None)),
     UsernameCasePreserved = (\<lambda>s. (s, None)), idnaToASCII = (\<lambda>s. (s, None)), ParseAddress = (\<lambda>_. None)\<rparr>"

lemma example_load:
  "\<exists>c. Load example_uni example_penv example_cenv (\<lambda>_. Inr (example_file, [])) [] = Ok (Inr c) \<and>
     (\<exists>d. cf_Debug c = Some d \<and> SessionDialTimeout d = 0) \<and> cf_Katzenmint c = cf_Katzenmint example_file \<and>
     cf_Logging c = cf_Logging example_file \<and> cf_UpstreamProxy c = cf_UpstreamProxy example_file \<and>
     (\<exists>px. cf_upstreamProxy c = Some px \<and> px_Type px = typeNone)"
  by (simp add: Load_def FixupAndMinimallyValidate_def default_sections_def example_file_def Logging_validate_def
      ToUpper_def is_ascii_def toProxyConfig_def proxy_FixupAndValidate_def ToLower_def ascii_lower_def
      Katzenmint_validate_def example_cenv_def typeNone_def of_char_def Let_def)

theorem Load_ready_witness:
  "\<exists>c d lg. Load example_uni example_penv example_cenv (\<lambda>_. Inr (example_file, [])) [] = Ok (Inr c) \<and>
     cf_Debug c = Some d \<and> SessionDialTimeout d = 0 \<and> cf_Logging c = Some lg \<and> log_Level lg = ''''"
proof -
  obtain c where c: "Load example_uni example_penv example_cenv (\<lambda>_. Inr (example_file, [])) [] = Ok (Inr c)"
    using example_load by blast
  from Load_ready [OF c] c show ?thesis by (auto simp: example_file_def)
qed

theorem SaveConfig_reloads_witness:
  "\<exists>c c' fs' d. Load example_uni example_penv example_cenv (\<lambda>_. Inr (example_file, [])) [] = Ok (Inr c) \<and>
     SaveConfig (\<lambda>_. None) (\<lambda>_. ([1], None)) c ''client.toml'' (\<lambda>_. None) = (fs', None) \<and>
     LoadFile example_uni example_penv example_cenv
       (\<lambda>b. if b = [] then Inr (example_file, []) else Inr (c\<lparr>cf_upstreamProxy := None\<rparr>, []))
       (ReadFile fs') ''client.toml'' = Ok (Inr c') \<and>
     cf_Debug c' = Some d \<and> SessionDialTimeout d = 30"
proof -
  obtain c where l: "Load example_uni example_penv example_cenv (\<lambda>_. Inr (example_file, [])) [] = Ok (Inr c)"
      "\<exists>d. cf_Debug c = Some d \<and> SessionDialTimeout d = 0" "cf_Katzenmint c = cf_Katzenmint example_file"
    using example_load by blast
  let ?dec = "\<lambda>b. if b = [] then Inr (example_file, []) else Inr (c\<lparr>cf_upstreamProxy := None\<rparr>, [])"
  let ?tenv = "\<lparr>rpc_New = Some (ExtError ''offline''), rpc_LastBlockHeight = Inr 0, rpc_GenesisChainID = Inr '''',
    rpc_BlockHash = (\<lambda>_. Inr None)\<rparr>"
  have 1: "Load example_uni example_penv example_cenv ?dec [] = Ok (Inr c)" using l(1) by (simp add: Load_def)
  have 2: "UpdateTrust ?tenv c = Ok (c, Some (ExtError ''offline''))" using l(3) by (simp add: UpdateTrust_def example_file_def)
  have 3: "\<forall>k. cf_Katzenmint c = Some k \<longrightarrow> ValidateBasic example_cenv (km_TrustOptions k) = None"
    by (simp add: example_cenv_def)
  have "?dec [1] = Inr (c\<lparr>cf_upstreamProxy := None\<rparr>, [])" by simp
  from SaveConfig_reloads [OF 1 2 3 _ _ this, of "\<lambda>_. None" "''client.toml''" "\<lambda>_. ([1], None)" "\<lambda>_. None"] l
  show ?thesis by (auto simp: Debug_fixup_def defaultSessionDialTimeout_def Let_def example_file_def)
qed

end
