(* ===== verification/Meson_Proxy.thy ===== *)
theory Meson_Proxy
  imports Meson_Config
begin

text \<open>
  Dialling through the upstream proxy (\<open>contextSOCKS5.dialContext\<close> and \<open>contextDialer.Dial\<close> of
  \<^verbatim>\<open>src/internal/proxy/proxy.go\<close>) as a step relation.  One goroutine runs the SOCKS client of
  \<^verbatim>\<open>golang.org/x/net/proxy\<close>, which dials the proxy through \<open>contextDialer\<close>; a second one learns of
  that connection on \<open>connCh\<close> and closes it when the context ends first.

  The SOCKS client is third-party code: \<open>SOCKS5\<close> is the outcome of its constructor, and its \<open>Dial\<close>
  either fails without dialling, or dials the proxy once and then fails or returns the connection.
  A connection is a number.
\<close>

section \<open>Definitions\<close>

datatype dial_main =
    DialStart
  | InSocksDial
  | SendingConn "nat option" "go_error option"
  | InHandshake "nat option" "go_error option"
  | DialReturned "nat result"

datatype dial_helper = NoHelper | AwaitConn | WatchCtx "nat option" | HelperDone

record dialing =
  dl_main :: dial_main
  dl_helper :: dial_helper
  dl_connChClosed :: bool
  dl_ctxDone :: bool
  dl_closed :: "nat set"

definition dial_init :: dialing where
  "dial_init = \<lparr>dl_main = DialStart, dl_helper = NoHelper, dl_connChClosed = False, dl_ctxDone = False, dl_closed = {}\<rparr>"

text \<open>Returning from \<open>dialContext\<close> runs the deferred \<open>close\<close> of \<open>connCh\<close>.\<close>

definition dial_return :: "nat result \<Rightarrow> dialing \<Rightarrow> dialing" where
  "dial_return r d = d\<lparr>dl_main := DialReturned r, dl_connChClosed := True\<rparr>"

inductive dial_step ::
  "(string \<Rightarrow> string \<Rightarrow> (string \<times> string) option \<Rightarrow> go_error option) \<Rightarrow> contextSOCKS5 \<Rightarrow> dialing \<Rightarrow> dialing \<Rightarrow> bool"
  for SOCKS5 s where
  socks_error: "dl_main d = DialStart \<Longrightarrow> SOCKS5 (proxyNet s) (proxyAddr s) (proxyAuth s) = Some err \<Longrightarrow>
    dial_step SOCKS5 s d (dial_return (Inl err) d)"
| socks: "dl_main d = DialStart \<Longrightarrow> SOCKS5 (proxyNet s) (proxyAddr s) (proxyAuth s) = None \<Longrightarrow>
    dial_step SOCKS5 s d (d\<lparr>dl_main := InSocksDial, dl_helper := AwaitConn\<rparr>)"
| refused: "dl_main d = InSocksDial \<Longrightarrow> dial_step SOCKS5 s d (dial_return (Inl err) d)"
| forward: "dl_main d = InSocksDial \<Longrightarrow> dial_step SOCKS5 s d (d\<lparr>dl_main := SendingConn conn err\<rparr>)"
| hand_over: "dl_main d = SendingConn conn err \<Longrightarrow> dl_helper d = AwaitConn \<Longrightarrow> \<not> dl_connChClosed d \<Longrightarrow>
    dial_step SOCKS5 s d (d\<lparr>dl_main := InHandshake conn err, dl_helper := WatchCtx conn\<rparr>)"
| failed: "dl_main d = InHandshake conn err \<Longrightarrow> dial_step SOCKS5 s d (dial_return (Inl err') d)"
| connected: "dl_main d = InHandshake (Some c) None \<Longrightarrow> dial_step SOCKS5 s d (dial_return (Inr c) d)"
| not_ok: "dl_helper d = AwaitConn \<Longrightarrow> dl_connChClosed d \<Longrightarrow> dial_step SOCKS5 s d (d\<lparr>dl_helper := HelperDone\<rparr>)"
| ctx_done: "dl_helper d = WatchCtx conn \<Longrightarrow> dl_ctxDone d \<Longrightarrow>
    dial_step SOCKS5 s d (d\<lparr>dl_helper := HelperDone, dl_closed := dl_closed d \<union> set_option conn\<rparr>)"
| ch_closed: "dl_helper d = WatchCtx conn \<Longrightarrow> dl_connChClosed d \<Longrightarrow>
    dial_step SOCKS5 s d (d\<lparr>dl_helper := HelperDone\<rparr>)"
| cancel: "dial_step SOCKS5 s d (d\<lparr>dl_ctxDone := True\<rparr>)"

abbreviation dial_steps ::
  "(string \<Rightarrow> string \<Rightarrow> (string \<times> string) option \<Rightarrow> go_error option) \<Rightarrow> contextSOCKS5 \<Rightarrow> dialing \<Rightarrow> dialing \<Rightarrow> bool" where
  "dial_steps SOCKS5 s \<equiv> (dial_step SOCKS5 s)\<^sup>*\<^sup>*"

section \<open>Lemmas\<close>

text \<open>Where the second goroutine is, relative to the first.\<close>

fun dial_phase :: "dial_main \<Rightarrow> dial_helper \<Rightarrow> bool" where
  "dial_phase DialStart h \<longleftrightarrow> h = NoHelper"
| "dial_phase InSocksDial h \<longleftrightarrow> h = AwaitConn"
| "dial_phase (SendingConn c e) h \<longleftrightarrow> h = AwaitConn"
| "dial_phase (InHandshake c e) h \<longleftrightarrow> h = WatchCtx c \<or> h = HelperDone"
| "dial_phase (DialReturned r) h \<longleftrightarrow> True"

definition dial_inv :: "dialing \<Rightarrow> bool" where
  "dial_inv d \<longleftrightarrow> dial_phase (dl_main d) (dl_helper d) \<and>
     (dl_connChClosed d \<longleftrightarrow> (\<exists>r. dl_main d = DialReturned r)) \<and>
     (dl_closed d \<noteq> {} \<longrightarrow> dl_ctxDone d)"

lemma dial_phase_done: "dial_phase m (WatchCtx conn) \<Longrightarrow> dial_phase m HelperDone"
  by (cases m) auto

lemma dial_step_inv: "dial_step SOCKS5 s d d' \<Longrightarrow> dial_inv d \<Longrightarrow> dial_inv d'"
  by (induction rule: dial_step.induct) (auto simp: dial_inv_def dial_return_def dial_phase_done)

lemma dial_init_inv: "dial_inv dial_init"
  by (simp add: dial_inv_def dial_init_def)

interpretation dialling: preserved "dial_step SOCKS5 s" dial_inv for SOCKS5 s
  by unfold_locales (rule dial_step_inv)

section \<open>Properties\<close>

text \<open>
  C28. Dialling through the proxy is clean whatever the SOCKS client and the context do: the channel
  is closed only when the dial has returned, so nothing is ever sent on a closed channel; the dial
  of the proxy never blocks on handing over its connection; once the dial has returned the second
  goroutine can end at once, so that none is leaked; and no connection is closed behind the
  caller's back unless the context has ended.
\<close>

theorem dialContext_clean:
  assumes "dial_steps SOCKS5 s dial_init d"
  shows "(dl_connChClosed d \<longleftrightarrow> (\<exists>r. dl_main d = DialReturned r)) \<and>
    (\<forall>conn err. dl_main d = SendingConn conn err \<longrightarrow>
       dial_step SOCKS5 s d (d\<lparr>dl_main := InHandshake conn err, dl_helper := WatchCtx conn\<rparr>)) \<and>
    (\<forall>r. dl_main d = DialReturned r \<and> dl_helper d \<notin> {NoHelper, HelperDone} \<longrightarrow>
       dial_step SOCKS5 s d (d\<lparr>dl_helper := HelperDone\<rparr>)) \<and>
    (dl_closed d \<noteq> {} \<longrightarrow> dl_ctxDone d)"
proof -
  have inv: "dial_inv d" using dialling.along [OF assms dial_init_inv] .
  have "dial_step SOCKS5 s d (d\<lparr>dl_helper := HelperDone\<rparr>)"
    if "dl_main d = DialReturned r" "dl_helper d \<notin> {NoHelper, HelperDone}" for r
    using inv that by (cases "dl_helper d") (auto simp: dial_inv_def intro: not_ok ch_closed)
  with inv show ?thesis by (auto simp: dial_inv_def intro: hand_over)
qed

text \<open>A dial that succeeds, for the witness.\<close>

lemma example_dial:
  assumes "SOCKS5 (proxyNet s) (proxyAddr s) (proxyAuth s) = None"
  shows "dial_steps SOCKS5 s dial_init \<lparr>dl_main = DialReturned (Inr 7), dl_helper = WatchCtx (Some 7),
    dl_connChClosed = True, dl_ctxDone = False, dl_closed = {}\<rparr>"
proof -
  note steps = socks [of _ SOCKS5 s] forward [of _ SOCKS5 s] hand_over [of _ _ _ SOCKS5 s] connected [of _ _ SOCKS5 s]
  let ?d = "\<lambda>m h b. \<lparr>dl_main = m, dl_helper = h, dl_connChClosed = b, dl_ctxDone = False, dl_closed = {}\<rparr>"
  have "dial_step SOCKS5 s dial_init (?d InSocksDial AwaitConn False)"
    using steps(1) [of dial_init] assms by (simp add: dial_init_def)
  moreover have "dial_step SOCKS5 s (?d InSocksDial AwaitConn False) (?d (SendingConn (Some 7) None) AwaitConn False)"
    using steps(2) [of "?d InSocksDial AwaitConn False" "Some 7" None] by simp
  moreover have "dial_step SOCKS5 s (?d (SendingConn (Some 7) None) AwaitConn False)
      (?d (InHandshake (Some 7) None) (WatchCtx (Some 7)) False)"
    using steps(3) [of "?d (SendingConn (Some 7) None) AwaitConn False" "Some 7" None] by simp
  moreover have "dial_step SOCKS5 s (?d (InHandshake (Some 7) None) (WatchCtx (Some 7)) False)
      (?d (DialReturned (Inr 7)) (WatchCtx (Some 7)) True)"
    using steps(4) [of "?d (InHandshake (Some 7) None) (WatchCtx (Some 7)) False" 7] by (simp add: dial_return_def)
  ultimately show ?thesis
    by (meson converse_rtranclp_into_rtranclp rtranclp.rtrancl_refl)
qed

theorem dialContext_clean_witness:
  "\<exists>d. dial_steps (\<lambda>_ _ _. None) \<lparr>proxyNet = ''tcp'', proxyAddr = ''127.0.0.1:9050'', proxyAuth = None\<rparr> dial_init d \<and>
     dl_main d = DialReturned (Inr 7) \<and> dl_connChClosed d"
  using dialContext_clean [OF example_dial] example_dial by fastforce

end
