(* ===== verification/Meson_Wire.thy ===== *)
theory Meson_Wire
  imports Meson_MinSend
begin

text \<open>
  \<^verbatim>\<open>src/minclient/connection.go\<close>, the part that runs while a connection is up: \<open>getDescriptor\<close>,
  \<open>IsPeerValid\<close>, \<open>onConnStatusChange\<close> and the command loop of \<open>onWireConn\<close>.  The alternatives of the
  loop's \<open>select\<close> are the datatype \<open>wire_event\<close>; what an iteration observes of its surroundings
  (the result of \<open>w.SendCommand\<close>, elapsed time, peer credentials, the current document) is the
  record \<open>wire_env\<close>.  Callbacks run in goroutines of their own: they are recorded when they are
  started, and a callback's error comes back as the event \<open>CallbackErr\<close>.  How loop, reader and
  callbacks end is the step relation \<open>thread_step\<close>.
\<close>

section \<open>Definitions\<close>

definition ErrNotConnected :: go_error where
  "ErrNotConnected = Sentinel ''minclient/conn: not connected to the Provider''"

definition ErrShutdown :: go_error where
  "ErrShutdown = Sentinel ''shutdown requested''"

definition newConnectError :: "string \<Rightarrow> err_arg list \<Rightarrow> go_error" where
  "newConnectError f a = ConnectError (Errorf f a)"

definition newPKIError :: "string \<Rightarrow> err_arg list \<Rightarrow> go_error" where
  "newPKIError f a = PKIError (Errorf f a)"

definition newProtocolError :: "string \<Rightarrow> err_arg list \<Rightarrow> go_error" where
  "newProtocolError f a = ProtocolError (Errorf f a)"

text \<open>What the connection does to its surroundings, in order.\<close>

datatype conn_event =
    OnConnFn "go_error option"
  | ClockSkewSet int
  | Dialing string
  | ConnClosed
  | SendDone "go_error option"
  | GetConsensusDone "go_error option"

record connection =
  k_pkiEpoch :: u64
  k_descriptor :: "MixDescriptor option"
  k_fetchCh :: bool
  k_retryDelay :: int
  k_isConnected :: bool
  k_trace :: "conn_event list"

definition newConnection :: connection where
  "newConnection = \<lparr>k_pkiEpoch = 0, k_descriptor = None, k_fetchCh = False, k_retryDelay = 0,
     k_isConnected = False, k_trace = []\<rparr>"

definition ForceFetch :: "connection \<Rightarrow> connection" where
  "ForceFetch c = c\<lparr>k_fetchCh := True\<rparr>"

definition call_OnConnFn :: "ClientConfig \<Rightarrow> go_error option \<Rightarrow> connection \<Rightarrow> connection" where
  "call_OnConnFn cfg err c = (if cfg_OnConnFn cfg then c\<lparr>k_trace := k_trace c @ [OnConnFn err]\<rparr> else c)"

definition getDescriptor ::
  "sphinx_ops \<Rightarrow> ClientConfig \<Rightarrow> Document option \<Rightarrow> connection \<Rightarrow> connection \<times> go_error option" where
  "getDescriptor ops cfg doc c =
    (let failed = c\<lparr>k_pkiEpoch := 0, k_descriptor := None\<rparr> in
     case doc of
       None \<Rightarrow> (failed, Some (newPKIError ''no PKI document for current epoch'' []))
     | Some d \<Rightarrow>
         (case GetProvider ops d (cfg_Provider cfg) of
            Inl err \<Rightarrow> (failed, Some (newPKIError ''failed to find descriptor for Provider: %v'' [ArgE err]))
          | Inr desc \<Rightarrow>
              (if cfg_ProviderKeyPin cfg \<noteq> None \<and> the (cfg_ProviderKeyPin cfg) \<noteq> IdentityKey desc then
                 (failed, Some (newPKIError ''identity key for Provider does not match pinned key: %v''
                                 [ArgB (IdentityKey desc)]))
               else (c\<lparr>k_descriptor := Some desc, k_pkiEpoch := Epoch d\<rparr>, None))))"

record PeerCredentials =
  AdditionalData :: bytes
  PublicKey :: bytes

definition IsPeerValid ::
  "sphinx_ops \<Rightarrow> ClientConfig \<Rightarrow> Document option \<Rightarrow> PeerCredentials \<Rightarrow> connection \<Rightarrow> connection \<times> bool" where
  "IsPeerValid ops cfg doc creds c =
    (case getDescriptor ops cfg doc c of
       (c', Some err) \<Rightarrow> (c', False)
     | (c', None) \<Rightarrow>
         (c', (case k_descriptor c' of
                 None \<Rightarrow> False
               | Some desc \<Rightarrow> IdentityKey desc = AdditionalData creds \<and> LinkKey desc = PublicKey creds)))"

text \<open>
  \<open>onConnStatusChange\<close>, once it has the lock.  On a disconnect it takes a request from each of the
  unbuffered channels \<open>sendCh\<close> and \<open>getConsensusCh\<close>, if a goroutine is waiting there (\<open>waiters\<close>, an
  observation), answers it with \<open>ErrNotConnected\<close>, and takes the signal from \<open>fetchCh\<close>.  That a waiting
  \<open>sendPacket\<close> holds the very lock is the subject of the state machine at the end of
  \<open>Meson_Connection\<close>.
\<close>

record waiters =
  on_sendCh :: bool
  on_getConsensusCh :: bool

definition drain_channels :: "waiters \<Rightarrow> connection \<Rightarrow> connection" where
  "drain_channels ws c =
     c\<lparr>k_trace := k_trace c @
         (if on_sendCh ws then [SendDone (Some ErrNotConnected)] else []) @
         (if on_getConsensusCh ws then [GetConsensusDone (Some ErrNotConnected)] else []),
       k_fetchCh := False\<rparr>"

definition onConnStatusChange :: "ClientConfig \<Rightarrow> waiters \<Rightarrow> go_error option \<Rightarrow> connection \<Rightarrow> connection" where
  "onConnStatusChange cfg ws err c =
     call_OnConnFn cfg err
       (if err = None then c\<lparr>k_isConnected := True\<rparr>
        else drain_channels ws (c\<lparr>k_isConnected := False\<rparr>))"

subsection \<open>The command loop\<close>

text \<open>The commands the client sends, and those it receives, of \<^verbatim>\<open>core/wire/commands\<close>.\<close>

datatype sent_command = GetConsensus u64 | SendPacket bytes | RetrieveMessage u32

datatype command =
    NoOp
  | Disconnect
  | MessageEmpty u32
  | Message u32 u8 bytes
  | MessageACK u32 bytes bytes
  | Consensus u8 bytes
  | OtherCommand string

datatype wire_action =
    Sent sent_command
  | SendFailed sent_command go_error
  | DoneFn "go_error option"
  | OnEmptyFn
  | OnMessageFn bytes
  | OnACKFn bytes bytes
  | ReplyConsensus u8 bytes
  | ReplyError go_error

datatype wire_event =
    FetchTimer
  | FetchSignal
  | GetConsensusReq u64
  | SendReq bytes
  | CmdChClosed
  | RecvErr go_error
  | Recv command
  | HaltReq
  | CallbackErr go_error

record wire_env =
  e_sendErr :: "go_error option"
  e_deltaT :: int
  e_creds :: "PeerCredentials result"
  e_doc :: "Document option"
  e_pollInterval :: int

record wire_state =
  w_seq :: u32
  w_nrReqs :: int
  w_nrResps :: int
  w_consensusCtx :: "u64 option"
  w_fetchDelay :: int
  w_out :: "wire_action list"

definition wire_init :: wire_state where
  "wire_init = \<lparr>w_seq = 0, w_nrReqs = 0, w_nrResps = 0, w_consensusCtx = None, w_fetchDelay = 0, w_out = []\<rparr>"

definition emit :: "wire_action \<Rightarrow> wire_state \<Rightarrow> wire_state" where
  "emit a w = w\<lparr>w_out := w_out w @ [a]\<rparr>"

definition adjFetchDelay :: "int \<Rightarrow> wire_state \<Rightarrow> wire_state" where
  "adjFetchDelay deltaT w =
    (if deltaT < w_fetchDelay w then w\<lparr>w_fetchDelay := to_i64 (w_fetchDelay w - deltaT)\<rparr>
     else w\<lparr>w_fetchDelay := 0\<rparr>)"

definition checkSeq :: "wire_state \<Rightarrow> u32 \<Rightarrow> go_error option" where
  "checkSeq w cmdSeq =
    (if w_seq w \<noteq> cmdSeq then
       Some (newProtocolError ''invalid/unexpected sequence: %v (Expecting: %v)''
               [ArgI (uint cmdSeq), ArgI (uint (w_seq w))])
     else None)"

definition dispatchOnEmpty :: "ClientConfig \<Rightarrow> wire_state \<Rightarrow> wire_state" where
  "dispatchOnEmpty cfg w = (if cfg_OnEmptyFn cfg then emit OnEmptyFn w else w)"

text \<open>\<open>w.SendCommand\<close>: the command goes out, or the error of the environment comes back.\<close>

definition SendCommand :: "wire_env \<Rightarrow> sent_command \<Rightarrow> wire_state \<Rightarrow> wire_state" where
  "SendCommand env cmd w =
    (case e_sendErr env of None \<Rightarrow> emit (Sent cmd) w | Some err \<Rightarrow> emit (SendFailed cmd err) w)"

text \<open>What an iteration does: go on, or return with \<open>wireErr\<close>.\<close>

datatype 'a wire_next = Continue 'a | Exit 'a "go_error option"

definition do_fetch :: "wire_env \<Rightarrow> wire_state \<Rightarrow> wire_state wire_next" where
  "do_fetch env w =
    (if w_nrReqs w = w_nrResps w then
       let w1 = SendCommand env (RetrieveMessage (w_seq w)) w in
       if e_sendErr env \<noteq> None then Exit w1 (e_sendErr env)
       else Continue (w1\<lparr>w_nrReqs := w_nrReqs w1 + 1, w_fetchDelay := e_pollInterval env\<rparr>)
     else Continue (w\<lparr>w_fetchDelay := e_pollInterval env\<rparr>))"

text \<open>The requests of other goroutines: a packet, or a consensus.\<close>

definition do_send :: "wire_env \<Rightarrow> bytes \<Rightarrow> wire_state \<Rightarrow> wire_state wire_next" where
  "do_send env pkt w =
    (let w1 = emit (DoneFn (e_sendErr env)) (SendCommand env (SendPacket pkt) w) in
     if e_sendErr env \<noteq> None then Exit w1 (e_sendErr env) else Continue (adjFetchDelay (e_deltaT env) w1))"

definition do_getConsensus :: "wire_env \<Rightarrow> u64 \<Rightarrow> wire_state \<Rightarrow> wire_state wire_next" where
  "do_getConsensus env ep w =
    (case w_consensusCtx w of
       Some outstanding \<Rightarrow>
         Continue (adjFetchDelay (e_deltaT env)
           (emit (DoneFn (Some (Errorf ''outstanding GetConsensus already exists: %v'' [ArgI (uint outstanding)]))) w))
     | None \<Rightarrow>
         let w1 = emit (DoneFn (e_sendErr env))
                    (SendCommand env (GetConsensus ep) (w\<lparr>w_consensusCtx := Some ep\<rparr>)) in
         if e_sendErr env \<noteq> None then Exit w1 (e_sendErr env) else Continue (adjFetchDelay (e_deltaT env) w1))"

text \<open>The type switch on a received command.\<close>

definition handle_command :: "ClientConfig \<Rightarrow> command \<Rightarrow> wire_state \<Rightarrow> wire_state wire_next" where
  "handle_command cfg cmd w =
    (case cmd of
       NoOp \<Rightarrow> Continue w
     | Disconnect \<Rightarrow> Exit w (Some (newProtocolError ''peer send Disconnect'' []))
     | MessageEmpty s \<Rightarrow>
         (if checkSeq w s \<noteq> None then Exit w (checkSeq w s)
          else Continue (dispatchOnEmpty cfg (w\<lparr>w_nrResps := w_nrResps w + 1\<rparr>)))
     | Message s hint payload \<Rightarrow>
         (if checkSeq w s \<noteq> None then Exit w (checkSeq w s)
          else
            let w1 = w\<lparr>w_nrResps := w_nrResps w + 1\<rparr>;
                w2 = (if cfg_OnMessageFn cfg then emit (OnMessageFn payload) w1 else w1);
                w3 = w2\<lparr>w_seq := w_seq w2 + 1\<rparr>
            in Continue (if hint = 0 then dispatchOnEmpty cfg w3 else w3))
     | MessageACK s ident payload \<Rightarrow>
         (if checkSeq w s \<noteq> None then Exit w (checkSeq w s)
          else
            let w1 = w\<lparr>w_nrResps := w_nrResps w + 1\<rparr>;
                w2 = (if cfg_OnACKFn cfg then emit (OnACKFn ident payload) w1 else w1)
            in Continue (w2\<lparr>w_seq := w_seq w2 + 1\<rparr>))
     | Consensus code payload \<Rightarrow>
         (if w_consensusCtx w \<noteq> None then
            Continue ((emit (ReplyConsensus code payload) w)\<lparr>w_consensusCtx := None\<rparr>)
          else Exit w (Some (newProtocolError ''received spurious Consensus'' [])))
     | OtherCommand t \<Rightarrow> Exit w (Some (newProtocolError ''received unknown command: %T'' [ArgS t])))"

definition wire_recv ::
  "sphinx_ops \<Rightarrow> ClientConfig \<Rightarrow> wire_env \<Rightarrow> command \<Rightarrow> connection \<times> wire_state \<Rightarrow>
   (connection \<times> wire_state) wire_next" where
  "wire_recv ops cfg env cmd cw =
    (case cw of (c, w) \<Rightarrow>
      case e_creds env of
        Inl err \<Rightarrow> Continue (c, w)
      | Inr creds \<Rightarrow>
          (case IsPeerValid ops cfg (e_doc env) creds c of
             (c1, False) \<Rightarrow>
               Exit (c1, w) (Some (newProtocolError ''current consensus no longer lists the Provider'' []))
           | (c1, True) \<Rightarrow>
               (case handle_command cfg cmd w of
                  Continue w1 \<Rightarrow> Continue (c1, w1)
                | Exit w1 err \<Rightarrow> Exit (c1, w1) err)))"

text \<open>
  One iteration.  The reader goroutine clears \<open>retryDelay\<close> when it has received a command; the
  signal of \<open>ForceFetch\<close> is taken from its channel.
\<close>

definition lift_next :: "connection \<Rightarrow> wire_state wire_next \<Rightarrow> (connection \<times> wire_state) wire_next" where
  "lift_next c n = (case n of Continue w \<Rightarrow> Continue (c, w) | Exit w err \<Rightarrow> Exit (c, w) err)"

definition wire_iteration ::
  "sphinx_ops \<Rightarrow> ClientConfig \<Rightarrow> wire_env \<Rightarrow> wire_event \<Rightarrow> connection \<times> wire_state \<Rightarrow>
   (connection \<times> wire_state) wire_next" where
  "wire_iteration ops cfg env ev cw =
    (case cw of (c, w) \<Rightarrow>
      case ev of
        FetchTimer \<Rightarrow> lift_next c (do_fetch env w)
      | FetchSignal \<Rightarrow> lift_next (c\<lparr>k_fetchCh := False\<rparr>) (do_fetch env w)
      | GetConsensusReq ep \<Rightarrow> lift_next c (do_getConsensus env ep w)
      | SendReq pkt \<Rightarrow> lift_next c (do_send env pkt w)
      | CmdChClosed \<Rightarrow> Exit cw (Some (newProtocolError ''command receive worker terminated'' []))
      | RecvErr err \<Rightarrow> Exit cw (Some err)
      | Recv cmd \<Rightarrow> wire_recv ops cfg env cmd (c\<lparr>k_retryDelay := 0\<rparr>, w)
      | HaltReq \<Rightarrow> Exit cw (Some ErrShutdown)
      | CallbackErr err \<Rightarrow> Exit cw (Some err))"

fun wire_loop ::
  "sphinx_ops \<Rightarrow> ClientConfig \<Rightarrow> (wire_env \<times> wire_event) list \<Rightarrow> connection \<times> wire_state \<Rightarrow>
   (connection \<times> wire_state) wire_next" where
  "wire_loop ops cfg [] cw = Continue cw"
| "wire_loop ops cfg ((env, ev) # evs) cw =
     (case wire_iteration ops cfg env ev cw of
        Continue cw' \<Rightarrow> wire_loop ops cfg evs cw'
      | Exit cw' err \<Rightarrow> Exit cw' err)"

text \<open>
  The deferred functions, the last one first: an outstanding consensus request is answered, then the
  teardown insists on an error and reports the change of status.
\<close>

definition wire_teardown ::
  "ClientConfig \<Rightarrow> waiters \<Rightarrow> go_error option \<Rightarrow> connection \<times> wire_state \<Rightarrow> (connection \<times> wire_state) outcome" where
  "wire_teardown cfg ws wireErr cw =
    (case cw of (c, w) \<Rightarrow>
      let w1 = (if w_consensusCtx w \<noteq> None then emit (ReplyError ErrNotConnected) w else w) in
      if wireErr = None then Panic ''BUG: wireErr is nil on connection teardown.''
      else Ok (onConnStatusChange cfg ws wireErr c, w1))"

text \<open>
  \<open>onWireConn\<close>: \<open>None\<close> while the connection is still up after the given events; \<open>ws\<close> are the goroutines
  that wait for the loop when it has been left.
\<close>

definition onWireConn ::
  "sphinx_ops \<Rightarrow> ClientConfig \<Rightarrow> (wire_env \<times> wire_event) list \<Rightarrow> waiters \<Rightarrow> connection \<Rightarrow>
   (connection \<times> wire_state) option outcome" where
  "onWireConn ops cfg evs ws c =
    (case wire_loop ops cfg evs (onConnStatusChange cfg ws None c, wire_init) of
       Continue cw \<Rightarrow> Ok None
     | Exit cw wireErr \<Rightarrow> obind (wire_teardown cfg ws wireErr cw) (\<lambda>cw'. Ok (Some cw')))"

subsection \<open>The goroutines of a connection\<close>

text \<open>
  Beside the command loop run a reader, which hands over what it receives on the unbuffered \<open>cmdCh\<close>,
  and the callbacks.  When the loop is left, the deferred function closes \<open>cmdCloseCh\<close>, waits for the
  callbacks, and \<open>onWireConn\<close> returns; then \<open>onTCPConn\<close> closes the session under the reader.  The
  reader offers a command together with \<open>cmdCloseCh\<close>, but an error unconditionally.
\<close>

datatype wloop_phase = LoopRuns | LoopLeft | LoopWaits | LoopReturned

datatype reader_phase = InRecv | OfferCmd | OfferErr | ReaderReturned

record conn_threads =
  ct_loop :: wloop_phase
  ct_reader :: reader_phase
  ct_callbacks :: nat
  ct_sessionClosed :: bool

definition threads_init :: conn_threads where
  "threads_init = \<lparr>ct_loop = LoopRuns, ct_reader = InRecv, ct_callbacks = 0, ct_sessionClosed = False\<rparr>"

inductive thread_step :: "conn_threads \<Rightarrow> conn_threads \<Rightarrow> bool" where
  recv: "ct_reader t = InRecv \<Longrightarrow> \<not> ct_sessionClosed t \<Longrightarrow> thread_step t (t\<lparr>ct_reader := OfferCmd\<rparr>)"
| recv_err: "ct_reader t = InRecv \<Longrightarrow> thread_step t (t\<lparr>ct_reader := OfferErr\<rparr>)"
| take_cmd: "ct_reader t = OfferCmd \<Longrightarrow> ct_loop t = LoopRuns \<Longrightarrow> n \<le> 2 \<Longrightarrow>
    thread_step t (t\<lparr>ct_reader := InRecv, ct_callbacks := ct_callbacks t + n\<rparr>)"
| take_err: "ct_reader t = OfferErr \<Longrightarrow> ct_loop t = LoopRuns \<Longrightarrow>
    thread_step t (t\<lparr>ct_reader := ReaderReturned, ct_loop := LoopLeft\<rparr>)"
| leave_loop: "ct_loop t = LoopRuns \<Longrightarrow> thread_step t (t\<lparr>ct_loop := LoopLeft\<rparr>)"
| close_cmd: "ct_loop t = LoopLeft \<Longrightarrow> thread_step t (t\<lparr>ct_loop := LoopWaits\<rparr>)"
| cmd_closed: "ct_reader t = OfferCmd \<Longrightarrow> ct_loop t \<in> {LoopWaits, LoopReturned} \<Longrightarrow>
    thread_step t (t\<lparr>ct_reader := ReaderReturned\<rparr>)"
| callback: "ct_callbacks t = Suc n \<Longrightarrow> thread_step t (t\<lparr>ct_callbacks := n\<rparr>)"
| waited: "ct_loop t = LoopWaits \<Longrightarrow> ct_callbacks t = 0 \<Longrightarrow>
    thread_step t (t\<lparr>ct_loop := LoopReturned\<rparr>)"
| close_session: "ct_loop t = LoopReturned \<Longrightarrow> thread_step t (t\<lparr>ct_sessionClosed := True\<rparr>)"

inductive_simps thread_step_simps: "thread_step t t'"

section \<open>Lemmas\<close>

text \<open>The fetches among the actions, and the callbacks that hand over messages.\<close>

definition fetches :: "wire_action list \<Rightarrow> u32 list" where
  "fetches acts = concat (map (\<lambda>a. case a of Sent (RetrieveMessage s) \<Rightarrow> [s] | _ \<Rightarrow> []) acts)"

definition deliveries :: "wire_action list \<Rightarrow> wire_action list" where
  "deliveries acts = filter (\<lambda>a. case a of OnMessageFn _ \<Rightarrow> True | OnACKFn _ _ \<Rightarrow> True | _ \<Rightarrow> False) acts"

text \<open>
  The commands that carry a message and were processed (a command is dropped when the peer's
  credentials are not available), their sequence numbers, and the callbacks they call for.
\<close>

fun accepted :: "wire_env \<times> wire_event \<Rightarrow> (u32 \<times> wire_action) list" where
  "accepted (env, Recv (Message s hint payload)) =
     (case e_creds env of Inl _ \<Rightarrow> [] | Inr _ \<Rightarrow> [(s, OnMessageFn payload)])"
| "accepted (env, Recv (MessageACK s ident payload)) =
     (case e_creds env of Inl _ \<Rightarrow> [] | Inr _ \<Rightarrow> [(s, OnACKFn ident payload)])"
| "accepted _ = []"

definition all_accepted :: "(wire_env \<times> wire_event) list \<Rightarrow> (u32 \<times> wire_action) list" where
  "all_accepted evs = concat (map accepted evs)"

definition callback_set :: "ClientConfig \<Rightarrow> wire_action \<Rightarrow> bool" where
  "callback_set cfg a = (case a of OnMessageFn _ \<Rightarrow> cfg_OnMessageFn cfg | OnACKFn _ _ \<Rightarrow> cfg_OnACKFn cfg | _ \<Rightarrow> True)"

lemmas wire_defs = emit_def adjFetchDelay_def checkSeq_def dispatchOnEmpty_def SendCommand_def
  do_fetch_def do_send_def do_getConsensus_def lift_next_def Let_def

lemma fetches_simps [simp]:
  "fetches [] = []" "fetches (as @ bs) = fetches as @ fetches bs"
  "fetches (a # as) = (case a of Sent (RetrieveMessage s) \<Rightarrow> [s] | _ \<Rightarrow> []) @ fetches as"
  by (simp_all add: fetches_def)

lemma deliveries_simps [simp]:
  "deliveries [] = []" "deliveries (as @ bs) = deliveries as @ deliveries bs"
  "deliveries (a # as) = (case a of OnMessageFn _ \<Rightarrow> [a] | OnACKFn _ _ \<Rightarrow> [a] | _ \<Rightarrow> []) @ deliveries as"
  by (simp_all add: deliveries_def split: wire_action.splits)

text \<open>What an iteration that goes on does to the counters and to the actions.\<close>

definition wire_progress ::
  "ClientConfig \<Rightarrow> (u32 \<times> wire_action) list \<Rightarrow> wire_state \<Rightarrow> wire_state \<Rightarrow> bool" where
  "wire_progress cfg acc w w' \<longleftrightarrow>
     w_seq w' = w_seq w + word_of_nat (length acc) \<and>
     map fst acc = map (\<lambda>i. w_seq w + word_of_nat i) [0..<length acc] \<and>
     deliveries (w_out w') = deliveries (w_out w) @ filter (callback_set cfg) (map snd acc) \<and>
     w_nrReqs w' - int (length (fetches (w_out w'))) = w_nrReqs w - int (length (fetches (w_out w))) \<and>
     (w_nrReqs w \<le> w_nrResps w + 1 \<longrightarrow> w_nrReqs w' \<le> w_nrResps w' + 1)"

lemma wire_progress_quiet:
  assumes "w_seq w' = w_seq w" "deliveries (w_out w') = deliveries (w_out w)"
    "fetches (w_out w') = fetches (w_out w)" "w_nrReqs w' = w_nrReqs w" "w_nrResps w \<le> w_nrResps w'"
  shows "wire_progress cfg [] w w'"
  using assms by (simp add: wire_progress_def)

lemma do_fetch_progress:
  "do_fetch env w = Continue w' \<Longrightarrow> wire_progress cfg [] w w'"
  by (auto simp: wire_progress_def wire_defs split: if_splits option.splits)

lemma do_send_progress:
  "do_send env pkt w = Continue w' \<Longrightarrow> wire_progress cfg [] w w'"
  by (rule wire_progress_quiet) (auto simp: wire_defs split: if_splits option.splits)

lemma do_getConsensus_progress:
  "do_getConsensus env ep w = Continue w' \<Longrightarrow> wire_progress cfg [] w w'"
  by (rule wire_progress_quiet) (auto simp: wire_defs split: if_splits option.splits)

lemma handle_command_progress:
  assumes "handle_command cfg cmd w = Continue w'" and "e_creds env = Inr creds"
  shows "wire_progress cfg (accepted (env, Recv cmd)) w w'"
  using assms
  by (cases cmd) (auto simp: handle_command_def wire_progress_def wire_defs callback_set_def
      split: if_splits)

lemma wire_iteration_progress:
  assumes "wire_iteration ops cfg env ev (c, w) = Continue (c', w')"
  shows "wire_progress cfg (accepted (env, ev)) w w'"
proof (cases ev)
  case (Recv cmd)
  show ?thesis
  proof (cases "e_creds env")
    case (Inl err)
    then have "accepted (env, Recv cmd) = []" by (cases cmd) simp_all
    with Inl Recv assms show ?thesis by (simp add: wire_iteration_def wire_recv_def wire_progress_quiet)
  next
    case (Inr creds)
    with Recv assms have "handle_command cfg cmd w = Continue w'"
      by (auto simp: wire_iteration_def wire_recv_def split: prod.splits bool.splits wire_next.splits)
    from handle_command_progress [OF this Inr] Recv show ?thesis by simp
  qed
qed (use assms in \<open>auto simp: wire_iteration_def lift_next_def do_fetch_progress do_send_progress
      do_getConsensus_progress split: wire_next.splits\<close>)

lemma wire_progress_trans:
  assumes "wire_progress cfg a w w1" and "wire_progress cfg b w1 w2"
  shows "wire_progress cfg (a @ b) w w2"
proof -
  have s1: "w_seq w1 = w_seq w + word_of_nat (length a)" using assms(1) by (simp add: wire_progress_def)
  have "map (\<lambda>i. w_seq w1 + word_of_nat i) [0..<length b] =
      map (\<lambda>i. w_seq w + word_of_nat i) (map (\<lambda>i. i + length a) [0..<length b])"
    by (simp add: s1 algebra_simps)
  then have "map (\<lambda>i. w_seq w1 + word_of_nat i) [0..<length b] =
      map (\<lambda>i. w_seq w + word_of_nat i) [length a..<length b + length a]"
    unfolding map_add_upt .
  moreover have "[0..<length a + length b] = [0..<length a] @ [length a..<length b + length a]"
    using upt_add_eq_append [of 0 "length a" "length b"] by (simp add: add.commute)
  ultimately show ?thesis
    using assms by (simp add: wire_progress_def s1 algebra_simps del: map_map)
qed

lemma wire_loop_progress:
  assumes "wire_loop ops cfg evs (c, w) = Continue (c', w')"
  shows "wire_progress cfg (all_accepted evs) w w'"
  using assms
proof (induction evs arbitrary: c w)
  case Nil
  then show ?case by (simp add: all_accepted_def wire_progress_quiet)
next
  case (Cons x evs)
  obtain env ev where x: "x = (env, ev)" by fastforce
  from Cons.prems x obtain c1 w1 where it: "wire_iteration ops cfg env ev (c, w) = Continue (c1, w1)"
      and rest: "wire_loop ops cfg evs (c1, w1) = Continue (c', w')"
    by (auto split: wire_next.splits)
  from wire_progress_trans [OF wire_iteration_progress [OF it] Cons.IH [OF rest]] x
  show ?case by (simp add: all_accepted_def)
qed

lemma wire_iteration_exit:
  assumes "wire_iteration ops cfg env ev (c, w) = Exit cw err"
  shows "err \<noteq> None"
proof (cases "e_sendErr env")
  case None
  with assms show ?thesis
    by (auto simp: wire_iteration_def wire_recv_def handle_command_def wire_defs
        split: wire_event.splits wire_next.splits if_splits option.splits prod.splits sum.splits
          bool.splits command.splits)
next
  case (Some e)
  with assms show ?thesis
    by (auto simp: Some wire_iteration_def wire_recv_def handle_command_def wire_defs
        split: wire_event.splits wire_next.splits if_splits prod.splits sum.splits
          bool.splits command.splits option.splits)
qed

lemma wire_loop_exit:
  assumes "wire_loop ops cfg evs cw = Exit cw' err"
  shows "err \<noteq> None"
  using assms
proof (induction evs arbitrary: cw)
  case (Cons x evs)
  obtain c w env ev where "cw = (c, w)" "x = (env, ev)" by fastforce
  with Cons show ?case by (auto split: wire_next.splits dest: wire_iteration_exit)
qed simp

text \<open>What it means that the current document lists the peer as our provider.\<close>

definition listed :: "sphinx_ops \<Rightarrow> ClientConfig \<Rightarrow> Document option \<Rightarrow> PeerCredentials \<Rightarrow> bool" where
  "listed ops cfg doc creds \<longleftrightarrow>
     (\<exists>d desc. doc = Some d \<and> GetProvider ops d (cfg_Provider cfg) = Inr desc \<and>
       cfg_ProviderKeyPin cfg \<in> {None, Some (IdentityKey desc)} \<and>
       AdditionalData creds = IdentityKey desc \<and> PublicKey creds = LinkKey desc)"

lemma IsPeerValid_listed: "snd (IsPeerValid ops cfg doc creds c) \<longleftrightarrow> listed ops cfg doc creds"
  by (cases "cfg_ProviderKeyPin cfg")
    (auto simp: IsPeerValid_def getDescriptor_def listed_def Let_def split: option.splits sum.splits)

lemma wire_recv_listed:
  assumes "e_creds env = Inr creds"
  shows "\<exists>c'. wire_iteration ops cfg env (Recv cmd) (c, w) =
    (if listed ops cfg (e_doc env) creds then lift_next c' (handle_command cfg cmd w)
     else Exit (c', w) (Some (newProtocolError ''current consensus no longer lists the Provider'' [])))"
proof -
  obtain c' b where v: "IsPeerValid ops cfg (e_doc env) creds (c\<lparr>k_retryDelay := 0\<rparr>) = (c', b)" by fastforce
  with IsPeerValid_listed [of ops cfg "e_doc env" creds "c\<lparr>k_retryDelay := 0\<rparr>"] assms show ?thesis
    by (intro exI [of _ c']) (cases b, auto simp: wire_iteration_def wire_recv_def lift_next_def split: wire_next.splits)
qed

lemma wire_loop_append:
  "wire_loop ops cfg (evs @ evs') cw =
    (case wire_loop ops cfg evs cw of Continue cw' \<Rightarrow> wire_loop ops cfg evs' cw' | Exit cw' err \<Rightarrow> Exit cw' err)"
  by (induction evs arbitrary: cw) (auto split: wire_next.splits)

lemma wire_loop_listed:
  assumes "wire_loop ops cfg evs (c, w) = Continue cw'" and "(env, Recv cmd) \<in> set evs" and "e_creds env = Inr creds"
  shows "listed ops cfg (e_doc env) creds"
proof -
  obtain as bs where evs: "evs = as @ (env, Recv cmd) # bs" using split_list [OF assms(2)] by blast
  with assms(1) obtain c1 w1 cw2 where it: "wire_iteration ops cfg env (Recv cmd) (c1, w1) = Continue cw2"
    by (auto simp: wire_loop_append split: wire_next.splits)
  with wire_recv_listed [OF assms(3), of ops cfg cmd c1 w1] show ?thesis by (auto split: if_splits)
qed

text \<open>The goroutines: no callback outlives \<open>onWireConn\<close>, and the session is closed only after it returned.\<close>

definition threads_ok :: "conn_threads \<Rightarrow> bool" where
  "threads_ok t \<longleftrightarrow> (ct_loop t = LoopReturned \<longrightarrow> ct_callbacks t = 0) \<and>
     (ct_sessionClosed t \<longrightarrow> ct_loop t = LoopReturned)"

definition reader_behind :: "conn_threads \<Rightarrow> bool" where
  "reader_behind t \<longleftrightarrow> ct_loop t \<noteq> LoopRuns \<and>
     (ct_reader t = OfferErr \<or> ct_reader t = InRecv \<and> ct_sessionClosed t)"

lemma thread_step_ok: "thread_step t t' \<Longrightarrow> threads_ok t \<Longrightarrow> threads_ok t'"
  by (induction rule: thread_step.induct) (auto simp: threads_ok_def)

lemma thread_step_behind: "thread_step t t' \<Longrightarrow> reader_behind t \<Longrightarrow> reader_behind t'"
  by (induction rule: thread_step.induct) (auto simp: reader_behind_def)

lemma threads_init_ok: "threads_ok threads_init"
  by (simp add: threads_ok_def threads_init_def)

interpretation threads: preserved thread_step threads_ok
  by unfold_locales (rule thread_step_ok)

interpretation behind: preserved thread_step reader_behind
  by unfold_locales (rule thread_step_behind)

section \<open>Properties\<close>

text \<open>
  C5. On a connection that is up, whatever arrives in whatever order, the messages and
  acknowledgements processed carry the consecutive sequence numbers \<open>0, 1, 2, \<dots>\<close> (32 bits, wrapping
  around), the callback of each is started exactly once and in that order, and at most one
  request for messages is outstanding.
\<close>

theorem wire_sequence:
  assumes "wire_loop ops cfg evs (c, wire_init) = Continue (c', w)"
  shows "map fst (all_accepted evs) = map word_of_nat [0..<length (all_accepted evs)] \<and>
    w_seq w = word_of_nat (length (all_accepted evs)) \<and>
    deliveries (w_out w) = filter (callback_set cfg) (map snd (all_accepted evs)) \<and>
    w_nrReqs w = int (length (fetches (w_out w))) \<and> w_nrReqs w \<le> w_nrResps w + 1"
  using wire_loop_progress [OF assms]
  by (simp add: wire_progress_def wire_init_def fetches_def deliveries_def)

definition example_env :: wire_env where
  "example_env = \<lparr>e_sendErr = None, e_deltaT = 1, e_creds = Inr \<lparr>AdditionalData = [7, 7], PublicKey = []\<rparr>,
     e_doc = Some doc4, e_pollInterval = Second\<rparr>"

lemma example_loop:
  "wire_loop example_ops example_cfg
     (map (Pair example_env) [FetchTimer, Recv (Message 0 1 [9]), Recv (MessageACK 1 [3] [4])])
     (newConnection, wire_init) =
   Continue (newConnection\<lparr>k_descriptor := Some (prov ''a'' 7), k_pkiEpoch := 4\<rparr>,
     \<lparr>w_seq = 2, w_nrReqs = 1, w_nrResps = 2, w_consensusCtx = None, w_fetchDelay = Second,
      w_out = [Sent (RetrieveMessage 0), OnMessageFn [9], OnACKFn [3] [4]]\<rparr>)"
  by (simp add: wire_iteration_def wire_recv_def handle_command_def wire_defs IsPeerValid_def
      getDescriptor_def example_env_def example_ops_def example_cfg_def prov_def doc4_def empty_desc_def
      newConnection_def wire_init_def)

theorem wire_sequence_witness:
  "map fst (all_accepted (map (Pair example_env) [FetchTimer, Recv (Message 0 1 [9]),
       Recv (MessageACK 1 [3] [4])])) = [0, 1]"
  using wire_sequence [OF example_loop]
  by (simp add: all_accepted_def example_env_def upt_rec)

text \<open>
  A connection never ends without an error (the panics of the teardown are unreachable): when
  the loop returns, an outstanding consensus request has been answered with \<open>ErrNotConnected\<close>, as
  have the requests of goroutines that waited for the loop, the client counts as disconnected, a
  pending fetch signal is dropped, and the error is what \<open>OnConnFn\<close> is told.
\<close>

lemma onWireConn_teardown:
  "case wire_loop ops cfg evs (onConnStatusChange cfg ws None c, wire_init) of
     Continue _ \<Rightarrow> onWireConn ops cfg evs ws c = Ok None
   | Exit (c1, w1) wireErr \<Rightarrow> (\<exists>err c' w'. wireErr = Some err \<and> onWireConn ops cfg evs ws c = Ok (Some (c', w')) \<and>
       \<not> k_isConnected c' \<and> \<not> k_fetchCh c' \<and>
       k_trace c' = k_trace (drain_channels ws c1) @ (if cfg_OnConnFn cfg then [OnConnFn (Some err)] else []) \<and>
       w_out w' = w_out w1 @ (if w_consensusCtx w1 = None then [] else [ReplyError ErrNotConnected]))"
proof (cases "wire_loop ops cfg evs (onConnStatusChange cfg ws None c, wire_init)")
  case (Exit cw err)
  with wire_loop_exit [OF this] show ?thesis
    by (auto simp: onWireConn_def wire_teardown_def Let_def onConnStatusChange_def call_OnConnFn_def drain_channels_def
        emit_def split: prod.splits)
qed (simp add: onWireConn_def)

text \<open>A response that nobody asked for.\<close>

lemma no_fetch_iteration:
  assumes "w_nrReqs w < w_nrResps w" and "wire_iteration ops cfg env ev (c, w) = nxt"
    and "(\<exists>c'. nxt = Continue (c', w')) \<or> (\<exists>c' err. nxt = Exit (c', w') err)"
  shows "w_nrReqs w' < w_nrResps w' \<and> fetches (w_out w') = fetches (w_out w)"
  using assms
  by (cases ev)
    (auto simp: wire_iteration_def wire_recv_def handle_command_def wire_defs
        split: wire_next.splits if_splits prod.splits sum.splits bool.splits command.splits option.splits)

lemma no_fetch_loop:
  assumes "w_nrReqs w < w_nrResps w" and "wire_loop ops cfg evs (c, w) = nxt"
    and "(\<exists>c'. nxt = Continue (c', w')) \<or> (\<exists>c' err. nxt = Exit (c', w') err)"
  shows "fetches (w_out w') = fetches (w_out w)"
  using assms
proof (induction evs arbitrary: c w)
  case Nil
  then show ?case by auto
next
  case (Cons x evs)
  obtain env ev where x: "x = (env, ev)" by fastforce
  show ?case
  proof (cases "wire_iteration ops cfg env ev (c, w)")
    case (Continue cw)
    then obtain c1 w1 where cw: "wire_iteration ops cfg env ev (c, w) = Continue (c1, w1)"
      by (cases cw) auto
    have "w_nrReqs w1 < w_nrResps w1 \<and> fetches (w_out w1) = fetches (w_out w)"
      by (rule no_fetch_iteration [OF Cons.prems(1) cw]) simp
    with Cons.IH [of w1 c1] Cons.prems(2,3) cw x show ?thesis by simp
  next
    case (Exit cw err)
    with no_fetch_iteration [OF Cons.prems(1) Exit, of w'] Cons.prems(2,3) x show ?thesis
      by (cases cw) auto
  qed
qed

text \<open>
  The loop accepts a response with the expected sequence number even when no request is
  outstanding.  After that the two counters never meet again: as long as the connection lives
  the client sends no further request for messages, neither by its timer nor when forced.
\<close>

lemma unsolicited_response_stops_fetching:
  assumes "w_nrReqs w = w_nrResps w" and "handle_command cfg (MessageEmpty (w_seq w)) w = Continue w1"
    and "wire_loop ops cfg evs (c, w1) = Continue (c', w')"
  shows "fetches (w_out w') = fetches (w_out w)"
proof -
  have lt: "w_nrReqs w1 < w_nrResps w1" and eq: "fetches (w_out w1) = fetches (w_out w)"
    using assms(1,2) by (auto simp: handle_command_def wire_defs split: if_splits)
  from no_fetch_loop [OF lt assms(3), of w'] eq show ?thesis by simp
qed

lemma wire_recv_no_creds:
  "e_creds env = Inl err \<Longrightarrow> wire_iteration ops cfg env (Recv cmd) (c, w) = Continue (c\<lparr>k_retryDelay := 0\<rparr>, w)"
  by (simp add: wire_iteration_def wire_recv_def)

text \<open>
  C22. Every command is answered for by the current document: on a connection that has gone on, each
  command received from a peer with known credentials came while the document listed that peer as
  our provider, under the pinned identity key if there is a pin.  The next command is handled if
  its peer is listed; if the peer is not listed it has no effect but to end the connection; and if
  the peer's credentials are not available it is dropped, and the connection goes on unchanged but
  for the back-off, which the reader has cleared.
\<close>

theorem commands_only_from_listed_peer:
  assumes "wire_loop ops cfg evs (c, w) = Continue (c1, w1)"
  shows "(\<forall>env cmd creds. (env, Recv cmd) \<in> set evs \<and> e_creds env = Inr creds \<longrightarrow> listed ops cfg (e_doc env) creds) \<and>
    (\<forall>env cmd creds. e_creds env = Inr creds \<longrightarrow>
      (\<exists>c2. wire_loop ops cfg (evs @ [(env, Recv cmd)]) (c, w) =
        (if listed ops cfg (e_doc env) creds then lift_next c2 (handle_command cfg cmd w1)
         else Exit (c2, w1) (Some (newProtocolError ''current consensus no longer lists the Provider'' []))))) \<and>
    (\<forall>env cmd err. e_creds env = Inl err \<longrightarrow>
      wire_loop ops cfg (evs @ [(env, Recv cmd)]) (c, w) = Continue (c1\<lparr>k_retryDelay := 0\<rparr>, w1))"
proof (intro conjI allI impI)
  fix env :: wire_env and cmd :: command and creds :: PeerCredentials
  assume "e_creds env = Inr creds"
  from wire_recv_listed [OF this, of ops cfg cmd c1 w1] obtain c2 where
    "wire_iteration ops cfg env (Recv cmd) (c1, w1) =
      (if listed ops cfg (e_doc env) creds then lift_next c2 (handle_command cfg cmd w1)
       else Exit (c2, w1) (Some (newProtocolError ''current consensus no longer lists the Provider'' [])))" by blast
  with assms show "\<exists>c2. wire_loop ops cfg (evs @ [(env, Recv cmd)]) (c, w) =
        (if listed ops cfg (e_doc env) creds then lift_next c2 (handle_command cfg cmd w1)
         else Exit (c2, w1) (Some (newProtocolError ''current consensus no longer lists the Provider'' [])))"
    by (intro exI [of _ c2]) (simp add: wire_loop_append split: wire_next.splits)
next
  fix env :: wire_env and cmd :: command and err
  assume "e_creds env = Inl err"
  with assms show "wire_loop ops cfg (evs @ [(env, Recv cmd)]) (c, w) = Continue (c1\<lparr>k_retryDelay := 0\<rparr>, w1)"
    by (simp add: wire_loop_append wire_recv_no_creds)
qed (use wire_loop_listed [OF assms] in blast)

theorem commands_only_from_listed_peer_witness:
  "listed example_ops example_cfg (Some doc4) \<lparr>AdditionalData = [7, 7], PublicKey = []\<rparr>"
proof -
  have "(example_env, Recv (Message 0 1 [9])) \<in> set (map (Pair example_env) [FetchTimer, Recv (Message 0 1 [9]),
      Recv (MessageACK 1 [3] [4])])" "e_creds example_env = Inr \<lparr>AdditionalData = [7, 7], PublicKey = []\<rparr>"
      "e_doc example_env = Some doc4"
    by (simp_all add: example_env_def)
  with commands_only_from_listed_peer [OF example_loop] show ?thesis by metis
qed

text \<open>
  C38. The goroutines of a connection: no callback outlives \<open>onWireConn\<close>, which waits for all of them,
  and the session is closed only after \<open>onWireConn\<close> has returned.  But the reader may stay behind: once
  the loop is left, a reader that has an error to offer never ends, and neither does one that still
  waits for the peer when the session is closed; and such states are reachable.
\<close>

theorem reader_left_behind:
  "(\<nexists>t. thread_step\<^sup>*\<^sup>* threads_init t \<and> ct_loop t = LoopReturned \<and> ct_callbacks t \<noteq> 0) \<and>
   (\<nexists>t. thread_step\<^sup>*\<^sup>* threads_init t \<and> ct_sessionClosed t \<and> ct_loop t \<noteq> LoopReturned) \<and>
   (\<nexists>t t'. thread_step\<^sup>*\<^sup>* threads_init t \<and>
      (ct_sessionClosed t \<and> ct_reader t \<in> {InRecv, OfferErr} \<or> ct_loop t \<noteq> LoopRuns \<and> ct_reader t = OfferErr) \<and>
      thread_step\<^sup>*\<^sup>* t t' \<and> ct_reader t' \<notin> {InRecv, OfferErr}) \<and>
   (\<exists>t. thread_step\<^sup>*\<^sup>* threads_init t \<and> ct_loop t = LoopReturned \<and> ct_sessionClosed t \<and> ct_reader t = OfferErr)"
proof (intro conjI)
  show "\<nexists>t t'. thread_step\<^sup>*\<^sup>* threads_init t \<and>
      (ct_sessionClosed t \<and> ct_reader t \<in> {InRecv, OfferErr} \<or> ct_loop t \<noteq> LoopRuns \<and> ct_reader t = OfferErr) \<and>
      thread_step\<^sup>*\<^sup>* t t' \<and> ct_reader t' \<notin> {InRecv, OfferErr}"
  proof (intro notI, elim exE conjE)
    fix t t'
    assume r: "thread_step\<^sup>*\<^sup>* threads_init t" "thread_step\<^sup>*\<^sup>* t t'" "ct_reader t' \<notin> {InRecv, OfferErr}"
      and b: "ct_sessionClosed t \<and> ct_reader t \<in> {InRecv, OfferErr} \<or> ct_loop t \<noteq> LoopRuns \<and> ct_reader t = OfferErr"
    have "reader_behind t" using threads.along [OF r(1) threads_init_ok] b by (auto simp: threads_ok_def reader_behind_def)
    from behind.along [OF r(2) this] r(3) show False by (auto simp: reader_behind_def)
  qed
next
  let ?t1 = "threads_init\<lparr>ct_loop := LoopLeft\<rparr>"
  let ?t2 = "?t1\<lparr>ct_loop := LoopWaits\<rparr>"
  let ?t3 = "?t2\<lparr>ct_loop := LoopReturned\<rparr>"
  let ?t4 = "?t3\<lparr>ct_sessionClosed := True\<rparr>"
  let ?t5 = "?t4\<lparr>ct_reader := OfferErr\<rparr>"
  have "thread_step threads_init ?t1" "thread_step ?t1 ?t2" "thread_step ?t2 ?t3" "thread_step ?t3 ?t4" "thread_step ?t4 ?t5"
    by (rule thread_step.leave_loop thread_step.close_cmd thread_step.waited thread_step.close_session
        thread_step.recv_err; simp add: threads_init_def)+
  then have "thread_step\<^sup>*\<^sup>* threads_init ?t5"
    by (meson converse_rtranclp_into_rtranclp rtranclp.rtrancl_refl)
  then show "\<exists>t. thread_step\<^sup>*\<^sup>* threads_init t \<and> ct_loop t = LoopReturned \<and> ct_sessionClosed t \<and> ct_reader t = OfferErr"
    by (intro exI [of _ ?t5]) simp
qed (use threads.along [OF _ threads_init_ok] in \<open>auto simp: threads_ok_def\<close>)

end
