(* ===== verification/Meson_Connection.thy ===== *)
theory Meson_Connection
  imports Meson_Wire Meson_PKI
begin

text \<open>
  \<^verbatim>\<open>src/minclient/connection.go\<close>, the part that brings connections up: the connect worker, the
  dialling loop with its back-off, the handling of a TCP connection; and \<open>sendPacket\<close>, whose use
  of the lock and of the unbuffered \<open>sendCh\<close> is a state machine.  What a dial attempt met is the
  datatype \<open>dial_obs\<close>; the wire handshake is third-party code, observed by its result.
\<close>

section \<open>Definitions\<close>

definition retryIncrement :: int where "retryIncrement = 2 * Second"
definition maxRetryDelay :: int where "maxRetryDelay = 5 * Second"

text \<open>The addresses of the provider, in decreasing order of preference.\<close>

definition dstAddrs :: "kconst \<Rightarrow> ClientConfig \<Rightarrow> MixDescriptor \<Rightarrow> string list" where
  "dstAddrs K cfg desc =
    (let transports = (case cfg_PreferedTransports cfg of None \<Rightarrow> ClientTransports K | Some ts \<Rightarrow> ts) in
     concat (map (\<lambda>t. case map_of (Addresses desc) t of None \<Rightarrow> [] | Some v \<Rightarrow> v) transports))"

text \<open>
  What \<open>onTCPConn\<close> met: no session could be allocated, the handshake failed, or the wire protocol ran
  after the handshake measured a clock skew, with the goroutines that waited for the loop at its end.
\<close>

datatype tcp_obs =
    NewSessionErr go_error
  | HandshakeErr go_error
  | Handshaken int "(wire_env \<times> wire_event) list" waiters

definition close_conn :: "connection \<Rightarrow> connection" where
  "close_conn c = c\<lparr>k_trace := k_trace c @ [ConnClosed]\<rparr>"

definition onTCPConn ::
  "sphinx_ops \<Rightarrow> ClientConfig \<Rightarrow> tcp_obs \<Rightarrow> connection \<Rightarrow> connection option outcome" where
  "onTCPConn ops cfg tcp c =
    (case tcp of
       NewSessionErr err \<Rightarrow> Ok (Some (close_conn (call_OnConnFn cfg (Some (ConnectError err)) c)))
     | HandshakeErr err \<Rightarrow> Ok (Some (close_conn (call_OnConnFn cfg (Some (ConnectError err)) c)))
     | Handshaken skew evs ws \<Rightarrow>
         obind (onWireConn ops cfg evs ws (c\<lparr>k_trace := k_trace c @ [ClockSkewSet skew]\<rparr>)) (\<lambda>r.
           case r of None \<Rightarrow> Ok None | Some (c', w) \<Rightarrow> Ok (Some (close_conn c'))))"

definition backoff :: "connection \<Rightarrow> connection" where
  "backoff c =
    (let d = to_i64 (k_retryDelay c + retryIncrement) in
     c\<lparr>k_retryDelay := (if d > maxRetryDelay then maxRetryDelay else d)\<rparr>)"

text \<open>
  One attempt on an address: the halt signal while waiting or after dialling (with the connection,
  if there is one, then closed), a dialling error, or a connection, with the goroutines that wait for
  the loop when it is over.
\<close>

datatype dial_obs = HaltWaiting | HaltDialed bool | DialErr go_error | Dialed tcp_obs waiters

datatype dial_end = AddrsDone "dial_obs list" | DialStop go_error | DialRunning

fun dial_addrs ::
  "sphinx_ops \<Rightarrow> ClientConfig \<Rightarrow> string list \<Rightarrow> dial_obs list \<Rightarrow> connection \<Rightarrow> (connection \<times> dial_end) outcome" where
  "dial_addrs ops cfg [] obs c = Ok (c, AddrsDone obs)"
| "dial_addrs ops cfg (a # as) [] c = Ok (c, DialRunning)"
| "dial_addrs ops cfg (a # as) (HaltWaiting # obs) c = Ok (c, DialStop ErrShutdown)"
| "dial_addrs ops cfg (a # as) (HaltDialed got # obs) c =
     (let c1 = backoff c; c2 = c1\<lparr>k_trace := k_trace c1 @ [Dialing a]\<rparr> in
      Ok (if got then close_conn c2 else c2, DialStop ErrShutdown))"
| "dial_addrs ops cfg (a # as) (DialErr err # obs) c =
     (let c1 = backoff c; c2 = c1\<lparr>k_trace := k_trace c1 @ [Dialing a]\<rparr> in
      dial_addrs ops cfg as obs (call_OnConnFn cfg (Some (ConnectError err)) c2))"
| "dial_addrs ops cfg (a # as) (Dialed tcp ws # obs) c =
     (let c1 = backoff c; c2 = c1\<lparr>k_trace := k_trace c1 @ [Dialing a]\<rparr> in
      obind (onTCPConn ops cfg tcp c2) (\<lambda>r. case r of
        None \<Rightarrow> Ok (c2, DialRunning)
      | Some c3 \<Rightarrow> Ok (onConnStatusChange cfg ws (Some ErrNotConnected) c3, AddrsDone obs)))"

text \<open>
  \<open>doConnect\<close>: each turn of the loop sees a current document.  The result is the connection and
  \<open>connErr\<close> at the return, or \<open>None\<close> when the loop is still running at the end of the observations;
  the deferred function is \<open>connect_teardown\<close>.
\<close>

fun doConnect_loop ::
  "kconst \<Rightarrow> sphinx_ops \<Rightarrow> ClientConfig \<Rightarrow> Document option list \<Rightarrow> dial_obs list \<Rightarrow> connection \<Rightarrow>
   (connection \<times> go_error option) option outcome" where
  "doConnect_loop K ops cfg [] obs c = Ok None"
| "doConnect_loop K ops cfg (doc # docs) obs c =
     (case getDescriptor ops cfg doc c of
        (c1, Some err) \<Rightarrow> Ok (Some (c1, Some err))
      | (c1, None) \<Rightarrow>
          (case k_descriptor c1 of
             None \<Rightarrow> Panic ''nil pointer dereference''
           | Some desc \<Rightarrow>
               (let addrs = dstAddrs K cfg desc in
                if length addrs = 0 then
                  Ok (Some (c1\<lparr>k_descriptor := None\<rparr>, Some (newConnectError ''no suitable addreses found'' [])))
                else
                  obind (dial_addrs ops cfg addrs obs c1) (\<lambda>(c2, e).
                    case e of
                      AddrsDone obs' \<Rightarrow> doConnect_loop K ops cfg docs obs' c2
                    | DialStop err \<Rightarrow> Ok (Some (c2, Some err))
                    | DialRunning \<Rightarrow> Ok None))))"

definition connect_teardown ::
  "ClientConfig \<Rightarrow> connection \<times> go_error option \<Rightarrow> connection outcome" where
  "connect_teardown cfg r =
    (case r of
       (c, None) \<Rightarrow> Panic ''BUG: connErr is nil on connection teardown.''
     | (c, Some err) \<Rightarrow> Ok (call_OnConnFn cfg (Some err) c))"

definition doConnect ::
  "kconst \<Rightarrow> sphinx_ops \<Rightarrow> ClientConfig \<Rightarrow> Document option list \<Rightarrow> dial_obs list \<Rightarrow> connection \<Rightarrow>
   connection option outcome" where
  "doConnect K ops cfg docs obs c =
    obind (doConnect_loop K ops cfg docs obs c) (\<lambda>r.
      case r of None \<Rightarrow> Ok None | Some ce \<Rightarrow> obind (connect_teardown cfg ce) (\<lambda>c'. Ok (Some c')))"

text \<open>
  A tick of the connect worker.  The error of \<open>epochtime.Now\<close> is ignored.
\<close>

definition pkiFlushInterval :: int where
  "pkiFlushInterval = (if WarpedEpoch = ''true'' then 3 * Second else 180 * Second)"

definition connectWorker_tick ::
  "kconst \<Rightarrow> sphinx_ops \<Rightarrow> ClientConfig \<Rightarrow> epoch_info \<Rightarrow> Document option \<Rightarrow> Document option list \<Rightarrow>
   dial_obs list \<Rightarrow> connection \<Rightarrow> connection option outcome" where
  "connectWorker_tick K ops cfg ei doc docs obs c =
    (if fst (Now ei) \<noteq> k_pkiEpoch c then
       (case getDescriptor ops cfg doc c of
          (c1, None) \<Rightarrow> doConnect K ops cfg docs obs c1
        | (c1, Some err) \<Rightarrow> Ok (Some (call_OnConnFn cfg (Some err) c1)))
     else Ok (Some c))"

text \<open>
  The connect worker over what its \<open>select\<close> yields: the halt signal, or a tick with what is
  observed after it; \<open>None\<close> when a tick is still being served.
\<close>

datatype connect_wake =
    ConnectHalt
  | ConnectTick epoch_info "Document option" "Document option list" "dial_obs list"

fun connectWorker ::
  "kconst \<Rightarrow> sphinx_ops \<Rightarrow> ClientConfig \<Rightarrow> connect_wake list \<Rightarrow> connection \<Rightarrow> connection option outcome" where
  "connectWorker K ops cfg [] c = Ok (Some c)"
| "connectWorker K ops cfg (ConnectHalt # ws) c = Ok (Some c)"
| "connectWorker K ops cfg (ConnectTick ei doc docs obs # ws) c =
     obind (connectWorker_tick K ops cfg ei doc docs obs c) (\<lambda>r.
       case r of None \<Rightarrow> Ok None | Some c' \<Rightarrow> connectWorker K ops cfg ws c')"

subsection \<open>Handing packets to the connection\<close>

text \<open>
  \<open>sendPacket\<close> takes the lock, refuses when the client is not connected, and otherwise hands the
  packet over on the unbuffered \<open>sendCh\<close>, still holding the lock, before it releases the lock and
  waits for the result.  The command loop receives from \<open>sendCh\<close> while it runs; when it returns it
  calls \<open>onConnStatusChange\<close>, which takes the lock.  The state: where the loop is, whether the
  client is connected, the packet in the hands of the goroutine that holds the lock, and the
  answers given so far.
\<close>

datatype loop_phase = NoLoop | InLoop | LeavingLoop go_error

record send_state =
  ss_phase :: loop_phase
  ss_isConnected :: bool
  ss_lock :: "bytes option"
  ss_answers :: "(bytes \<times> go_error option) list"

definition send_init :: send_state where
  "send_init = \<lparr>ss_phase = NoLoop, ss_isConnected = False, ss_lock = None, ss_answers = []\<rparr>"

inductive send_step :: "send_state \<Rightarrow> send_state \<Rightarrow> bool" where
  refuse: "ss_lock s = None \<Longrightarrow> \<not> ss_isConnected s \<Longrightarrow>
    send_step s (s\<lparr>ss_answers := ss_answers s @ [(pkt, Some ErrNotConnected)]\<rparr>)"
| enter: "ss_lock s = None \<Longrightarrow> ss_isConnected s \<Longrightarrow> send_step s (s\<lparr>ss_lock := Some pkt\<rparr>)"
| handoff: "ss_lock s = Some pkt \<Longrightarrow> ss_phase s = InLoop \<Longrightarrow>
    send_step s (s\<lparr>ss_lock := None, ss_answers := ss_answers s @ [(pkt, res)],
      ss_phase := (case res of None \<Rightarrow> InLoop | Some err \<Rightarrow> LeavingLoop err)\<rparr>)"
| leave: "ss_phase s = InLoop \<Longrightarrow> send_step s (s\<lparr>ss_phase := LeavingLoop err\<rparr>)"
| disconnected: "ss_phase s = LeavingLoop err \<Longrightarrow> ss_lock s = None \<Longrightarrow>
    send_step s (s\<lparr>ss_phase := NoLoop, ss_isConnected := False\<rparr>)"
| connected: "ss_phase s = NoLoop \<Longrightarrow> ss_lock s = None \<Longrightarrow>
    send_step s (s\<lparr>ss_phase := InLoop, ss_isConnected := True\<rparr>)"

inductive send_reachable :: "send_state \<Rightarrow> bool" where
  init: "send_reachable send_init"
| step: "send_reachable s \<Longrightarrow> send_step s s' \<Longrightarrow> send_reachable s'"

inductive_simps send_step_simps: "send_step s s'"

section \<open>Lemmas\<close>

definition retry_ok :: "connection \<Rightarrow> bool" where
  "retry_ok c \<longleftrightarrow> 0 \<le> k_retryDelay c \<and> k_retryDelay c \<le> maxRetryDelay"

lemma retry_call_OnConnFn [simp]: "k_retryDelay (call_OnConnFn cfg err c) = k_retryDelay c"
  by (simp add: call_OnConnFn_def)

lemma retry_onConnStatusChange [simp]: "k_retryDelay (onConnStatusChange cfg ws err c) = k_retryDelay c"
  by (simp add: onConnStatusChange_def drain_channels_def)

lemma retry_close_conn [simp]: "k_retryDelay (close_conn c) = k_retryDelay c"
  by (simp add: close_conn_def)

lemma retry_getDescriptor:
  "getDescriptor ops cfg doc c = (c1, e) \<Longrightarrow> k_retryDelay c1 = k_retryDelay c"
  by (auto simp: getDescriptor_def Let_def split: option.splits sum.splits if_splits)

lemma getDescriptor_ok:
  "getDescriptor ops cfg doc c = (c1, None) \<Longrightarrow> k_descriptor c1 \<noteq> None"
  by (auto simp: getDescriptor_def Let_def split: option.splits sum.splits if_splits)

lemma retry_wire_iteration:
  assumes "wire_iteration ops cfg env ev (c, w) = nxt"
    and "(nxt = Continue (c', w')) \<or> (\<exists>err. nxt = Exit (c', w') err)"
  shows "k_retryDelay c' = k_retryDelay c \<or> k_retryDelay c' = 0"
  using assms
  by (cases ev)
    (auto simp: wire_iteration_def lift_next_def wire_recv_def IsPeerValid_def
      split: wire_next.splits prod.splits sum.splits bool.splits option.splits if_splits
      dest!: retry_getDescriptor)

lemma retry_wire_loop:
  assumes "wire_loop ops cfg evs (c, w) = Exit (c', w') err"
  shows "k_retryDelay c' = k_retryDelay c \<or> k_retryDelay c' = 0"
  using assms
proof (induction evs arbitrary: c w)
  case (Cons x evs)
  obtain env ev where x: "x = (env, ev)" by fastforce
  show ?case
  proof (cases "wire_iteration ops cfg env ev (c, w)")
    case (Continue cw)
    obtain c1 w1 where cw: "cw = (c1, w1)" by fastforce
    with Continue have "k_retryDelay c1 = k_retryDelay c \<or> k_retryDelay c1 = 0"
      using retry_wire_iteration by blast
    with Cons.IH [of c1 w1] Cons.prems Continue cw x show ?thesis by auto
  next
    case (Exit cw e)
    with Cons.prems x retry_wire_iteration [OF Exit] show ?thesis by auto
  qed
qed simp

lemma retry_onTCPConn:
  assumes "onTCPConn ops cfg tcp c = Ok (Some c')" and "retry_ok c"
  shows "retry_ok c'"
proof (cases tcp)
  case (Handshaken skew evs ws)
  let ?c0 = "onConnStatusChange cfg ws None (c\<lparr>k_trace := k_trace c @ [ClockSkewSet skew]\<rparr>)"
  from Handshaken assms(1) obtain cw err where
      l: "wire_loop ops cfg evs (?c0, wire_init) = Exit cw err"
    by (auto simp: onTCPConn_def onWireConn_def go_simps split: wire_next.splits)
  obtain c1 w1 where cw: "cw = (c1, w1)" by fastforce
  from retry_wire_loop [of ops cfg evs ?c0 wire_init c1 w1 err] l cw
  have "k_retryDelay c1 = k_retryDelay c \<or> k_retryDelay c1 = 0" by simp
  moreover have "k_retryDelay c' = k_retryDelay c1"
    using assms(1) Handshaken l cw wire_loop_exit [OF l]
    by (auto simp: onTCPConn_def onWireConn_def wire_teardown_def Let_def)
  ultimately show ?thesis using assms(2) by (auto simp: retry_ok_def maxRetryDelay_def Second_def)
qed (use assms in \<open>auto simp: onTCPConn_def retry_ok_def\<close>)

lemma onTCPConn_no_panic: "no_panic (onTCPConn ops cfg tcp c)"
proof (cases tcp)
  case (Handshaken skew evs ws)
  then show ?thesis
    by (auto simp: onTCPConn_def onWireConn_def wire_teardown_def Let_def no_panic_iff
        split: wire_next.splits dest: wire_loop_exit)
qed (simp_all add: onTCPConn_def)

lemma retry_backoff: "retry_ok c \<Longrightarrow> retry_ok (backoff c)"
proof -
  assume r: "retry_ok c"
  then have "to_i64 (k_retryDelay c + retryIncrement) = k_retryDelay c + retryIncrement"
    by (intro to_i64_id) (simp add: retry_ok_def is_i64_def maxRetryDelay_def retryIncrement_def Second_def)
  with r show ?thesis
    by (simp add: backoff_def Let_def retry_ok_def retryIncrement_def maxRetryDelay_def Second_def)
qed

lemma dial_addrs_ok:
  assumes "retry_ok c"
  shows "\<exists>c' e. dial_addrs ops cfg as obs c = Ok (c', e) \<and> retry_ok c'"
  using assms
proof (induction ops cfg as obs c rule: dial_addrs.induct)
  case (4 ops cfg a as got obs c)
  then show ?case using retry_backoff [OF 4] by (simp add: Let_def retry_ok_def)
next
  case (5 ops cfg a as err obs c)
  from retry_backoff [OF 5(2)] 5(1) [OF refl refl] show ?case by (simp add: Let_def retry_ok_def)
next
  case (6 ops cfg a as tcp ws obs c)
  let ?c2 = "(backoff c)\<lparr>k_trace := k_trace (backoff c) @ [Dialing a]\<rparr>"
  have r2: "retry_ok ?c2" using retry_backoff [OF 6] by (simp add: retry_ok_def)
  obtain r where r: "onTCPConn ops cfg tcp ?c2 = Ok r"
    using onTCPConn_no_panic [of ops cfg tcp ?c2] by (auto simp: no_panic_iff)
  show ?case
  proof (cases r)
    case None
    with r r2 show ?thesis by (simp add: Let_def)
  next
    case (Some c3)
    with r retry_onTCPConn [of ops cfg tcp ?c2 c3] r2 have "retry_ok c3" by simp
    with Some r show ?thesis by (simp add: Let_def retry_ok_def)
  qed
qed simp_all

lemma doConnect_loop_ok:
  assumes "retry_ok c"
  shows "\<exists>r. doConnect_loop K ops cfg docs obs c = Ok r \<and>
    (\<forall>c' e. r = Some (c', e) \<longrightarrow> retry_ok c' \<and> e \<noteq> None)"
  using assms
proof (induction docs arbitrary: obs c)
  case (Cons doc docs)
  obtain c1 e1 where g: "getDescriptor ops cfg doc c = (c1, e1)" by fastforce
  have r1: "retry_ok c1" using Cons.prems retry_getDescriptor [OF g] by (simp add: retry_ok_def)
  show ?case
  proof (cases e1)
    case None
    with g obtain desc where desc: "k_descriptor c1 = Some desc" using getDescriptor_ok by blast
    obtain c2 e where d: "dial_addrs ops cfg (dstAddrs K cfg desc) obs c1 = Ok (c2, e)" "retry_ok c2"
      using dial_addrs_ok [OF r1] by blast
    show ?thesis
      using Cons.IH [OF d(2)] r1 g None desc d by (cases e) (auto simp: Let_def retry_ok_def)
  next
    case (Some err)
    with g r1 show ?thesis by simp
  qed
qed simp

text \<open>A goroutine that waits on \<open>sendCh\<close> found the client connected, and it still counts as connected.\<close>

lemma send_reachable_connected:
  assumes "send_reachable s"
  shows "(ss_lock s \<noteq> None \<longrightarrow> ss_isConnected s) \<and> (ss_isConnected s \<longleftrightarrow> ss_phase s \<noteq> NoLoop)"
  using assms
proof (induction rule: send_reachable.induct)
  case (step s s')
  from step.hyps(2) step.IH show ?case by cases (auto split: option.splits)
qed (simp add: send_init_def)

lemma doConnect_bounded:
  assumes "retry_ok c"
  shows "\<exists>r. doConnect K ops cfg docs obs c = Ok r \<and> (\<forall>c'. r = Some c' \<longrightarrow> retry_ok c' \<and>
      (cfg_OnConnFn cfg \<longrightarrow> (\<exists>tr err. k_trace c' = tr @ [OnConnFn (Some err)])))"
proof -
  obtain r where r: "doConnect_loop K ops cfg docs obs c = Ok r"
      "\<forall>c' e. r = Some (c', e) \<longrightarrow> retry_ok c' \<and> e \<noteq> None"
    using doConnect_loop_ok [OF assms] by blast
  then show ?thesis
    by (cases r) (auto simp: doConnect_def connect_teardown_def retry_ok_def call_OnConnFn_def)
qed

section \<open>Properties\<close>

text \<open>
  C23. Connecting never panics, and the back-off stays between zero and \<open>maxRetryDelay\<close> whatever the
  dialling meets; when \<open>doConnect\<close> returns, its last act is to report a non-nil error to \<open>OnConnFn\<close>.
\<close>

theorem doConnect_safe:
  assumes "retry_ok c"
  shows "\<exists>r. doConnect K ops cfg docs obs c = Ok r \<and>
    (\<forall>c'. r = Some c' \<longrightarrow> retry_ok c' \<and>
      (cfg_OnConnFn cfg \<longrightarrow> (\<exists>tr err. k_trace c' = tr @ [OnConnFn (Some err)])))"
  by (rule doConnect_bounded [OF assms])

theorem doConnect_safe_witness:
  "\<exists>r. doConnect example_const example_ops example_cfg [None] [] newConnection = Ok r \<and>
     (\<forall>c'. r = Some c' \<longrightarrow> retry_ok c')"
  using doConnect_safe [of newConnection example_const example_ops example_cfg "[None]" "[]"]
  by (auto simp: retry_ok_def newConnection_def maxRetryDelay_def Second_def)

text \<open>The connect worker keeps the back-off bounded over all its ticks and never panics.\<close>

lemma connectWorker_ok:
  "retry_ok c \<Longrightarrow> \<exists>r. connectWorker K ops cfg ws c = Ok r \<and> (\<forall>c'. r = Some c' \<longrightarrow> retry_ok c')"
proof (induction K ops cfg ws c rule: connectWorker.induct)
  case (3 K ops cfg ei doc docs obs ws c)
  obtain c1 e where g: "getDescriptor ops cfg doc c = (c1, e)" by fastforce
  then have r1: "retry_ok c1" using 3(2) retry_getDescriptor [OF g] by (simp add: retry_ok_def)
  have "\<exists>r. connectWorker_tick K ops cfg ei doc docs obs c = Ok r \<and> (\<forall>c'. r = Some c' \<longrightarrow> retry_ok c')"
  proof (cases e)
    case None
    have "\<exists>r. doConnect K ops cfg docs obs c1 = Ok r \<and> (\<forall>c'. r = Some c' \<longrightarrow> retry_ok c')"
      using doConnect_bounded [OF r1, of K ops cfg docs obs] by blast
    with 3(2) None g show ?thesis by (simp add: connectWorker_tick_def)
  next
    case (Some err)
    with 3(2) g r1 show ?thesis by (simp add: connectWorker_tick_def retry_ok_def)
  qed
  then obtain r where r: "connectWorker_tick K ops cfg ei doc docs obs c = Ok r"
      "\<forall>c'. r = Some c' \<longrightarrow> retry_ok c'" by blast
  with 3(1) show ?case by (cases r) auto
qed auto

text \<open>
  C31. In every reachable state a goroutine that waits on \<open>sendCh\<close> counts as connected; but the
  hand-over can deadlock: if the command loop returns while a goroutine waits on \<open>sendCh\<close>, that
  goroutine holds the lock that \<open>onConnStatusChange\<close> needs, no step is possible any more, and the
  state is reachable from the start; without a waiting sender the loop can always leave.
\<close>

theorem sendPacket_deadlock:
  "(\<nexists>s. send_reachable s \<and> ss_lock s \<noteq> None \<and> \<not> ss_isConnected s) \<and>
   (\<exists>s. send_reachable s \<and> ss_phase s = LeavingLoop err \<and> ss_lock s = Some pkt \<and> ss_answers s = [] \<and>
     (\<nexists>s'. send_step s s')) \<and>
   (\<forall>s. ss_phase s = LeavingLoop err \<and> ss_lock s = None \<longleftrightarrow>
     ss_phase s = LeavingLoop err \<and> (\<exists>s'. send_step s s' \<and> ss_phase s' = NoLoop))"
proof (intro conjI allI)
  show "\<nexists>s. send_reachable s \<and> ss_lock s \<noteq> None \<and> \<not> ss_isConnected s"
    using send_reachable_connected by blast
next
  let ?s1 = "send_init\<lparr>ss_phase := InLoop, ss_isConnected := True\<rparr>"
  let ?s2 = "?s1\<lparr>ss_lock := Some pkt\<rparr>"
  let ?s3 = "?s2\<lparr>ss_phase := LeavingLoop err\<rparr>"
  have 1: "send_step send_init ?s1" by (rule send_step.connected) (simp_all add: send_init_def)
  have 2: "send_step ?s1 ?s2" by (rule send_step.enter) (simp_all add: send_init_def)
  have 3: "send_step ?s2 ?s3" by (rule send_step.leave) simp
  have "send_reachable ?s3"
    using send_reachable.step [OF send_reachable.step [OF send_reachable.step [OF send_reachable.init 1] 2] 3] .
  moreover have "\<nexists>s'. send_step ?s3 s'" by (auto simp: send_step_simps)
  ultimately show "\<exists>s. send_reachable s \<and> ss_phase s = LeavingLoop err \<and> ss_lock s = Some pkt \<and>
      ss_answers s = [] \<and> (\<nexists>s'. send_step s s')"
    by (intro exI [of _ ?s3]) (simp add: send_init_def)
next
  fix s
  show "ss_phase s = LeavingLoop err \<and> ss_lock s = None \<longleftrightarrow>
     ss_phase s = LeavingLoop err \<and> (\<exists>s'. send_step s s' \<and> ss_phase s' = NoLoop)"
    by (auto simp: send_step_simps)
qed

end
