(* ===== verification/Meson_Client.thy ===== *)
theory Meson_Client
  imports Meson_Worker Meson_Connection Meson_Config
begin

text \<open>
  \<^verbatim>\<open>src/client.go\<close> and \<open>NewSession\<close> of \<^verbatim>\<open>src/session.go\<close>: the client that ties the parts together,
  its life cycle, the registration of a fresh account, and the check of a reply.  The files, the
  logging backend, the key generator, the URL parser and the registration service are third-party
  or I/O and are arguments, given by their answers.
\<close>

section \<open>Definitions\<close>

definition ValidateReply :: "bytes \<Rightarrow> bytes result outcome" where
  "ValidateReply reply =
    obind (go_slice reply 0 4) (\<lambda>b.
      obind (Uint32 b) (\<lambda>w.
        let realLen = uint w in
        if int (length reply) < realLen + 4 then Ok (Inl (Errorf ''reply len error'' []))
        else obind (go_slice reply 4 (length reply)) (\<lambda>p. Ok (Inr p))))"

subsection \<open>Life cycle\<close>

datatype client_event = SessionShutdown | FatalErrChClosed | HaltedChClosed'

record client =
  c_cfg :: Config
  c_hasLog :: bool
  c_haltOnce :: bool
  c_session :: "Client option"
  c_linkKey :: bytes
  c_service :: string
  c_events :: "client_event list"

text \<open>
  Key pairs are their public keys; \<open>new(ecdh.PrivateKey)\<close>, the zero key, is the empty string.
  \<open>log.New\<close> is given by its error; an absolute path starts with a slash.
\<close>

definition IsAbs :: "string \<Rightarrow> bool" where
  "IsAbs f \<longleftrightarrow> (case f of [] \<Rightarrow> False | c # _ \<Rightarrow> c = CHR ''/'')"

definition InitLogging :: "(Logging \<Rightarrow> go_error option) \<Rightarrow> client \<Rightarrow> (client \<times> go_error option) outcome" where
  "InitLogging logNew c =
    (case cf_Logging (c_cfg c) of
       None \<Rightarrow> Panic ''nil pointer dereference''
     | Some lg \<Rightarrow>
         (if \<not> log_Disable lg \<and> log_File lg \<noteq> '''' \<and> \<not> IsAbs (log_File lg) then
            Ok (c, Some (Errorf ''log file path must be absolute path'' []))
          else
            let err = logNew lg in
            Ok (if err = None then c\<lparr>c_hasLog := True\<rparr> else c, err)))"

text \<open>\<open>New\<close> and \<open>NewFromConfig\<close> have the same body; the watcher of fatal errors is started last.\<close>

definition client_New :: "(Logging \<Rightarrow> go_error option) \<Rightarrow> Config \<Rightarrow> string \<Rightarrow> client result outcome" where
  "client_New logNew cfg service =
    (let client = \<lparr>c_cfg = cfg, c_hasLog = False, c_haltOnce = False, c_session = None, c_linkKey = [],
                   c_service = service, c_events = []\<rparr> in
     obind (InitLogging logNew client) (\<lambda>(client, err).
       case err of Some e \<Rightarrow> Ok (Inl e) | None \<Rightarrow> Ok (Inr client)))"

definition NewFromConfig :: "(Logging \<Rightarrow> go_error option) \<Rightarrow> Config \<Rightarrow> string \<Rightarrow> client result outcome" where
  "NewFromConfig logNew cfg service = client_New logNew cfg service"

definition close_ch :: "client_event \<Rightarrow> client \<Rightarrow> client outcome" where
  "close_ch e c = (if e \<in> set (c_events c) then Panic ''close of closed channel''
                   else Ok (c\<lparr>c_events := c_events c @ [e]\<rparr>))"

text \<open>
  \<open>Session.Shutdown\<close>: \<open>s.Halt()\<close> waits for the session's goroutines, then the minimal client is shut down,
  which waits for its connection and PKI goroutines, and is itself waited for.  Whether all these
  goroutines return when they are told to is an observation, \<open>halts\<close> (they may not: see
  \<open>sendPacket_deadlock\<close> in \<open>Meson_Connection\<close>); \<open>None\<close> when the call never returns.
\<close>

definition Session_Shutdown :: "bool \<Rightarrow> Client \<Rightarrow> Client option outcome" where
  "Session_Shutdown halts mc =
    (if \<not> halts then Ok None
     else obind (min_Shutdown mc) (\<lambda>mc'. if min_Wait_returns mc' then Ok (Some mc') else Ok None))"

definition close_channels :: "client \<Rightarrow> client option outcome" where
  "close_channels c = obind (close_ch FatalErrChClosed c) (\<lambda>c1. obind (close_ch HaltedChClosed' c1) (\<lambda>c2. Ok (Some c2)))"

definition client_halt :: "bool \<Rightarrow> client \<Rightarrow> client option outcome" where
  "client_halt halts c =
    (if \<not> c_hasLog c then Panic ''nil pointer dereference'' else
     case c_session c of
       None \<Rightarrow> close_channels c
     | Some mc \<Rightarrow> obind (Session_Shutdown halts mc) (\<lambda>r. case r of
           None \<Rightarrow> Ok None
         | Some mc' \<Rightarrow> close_channels (c\<lparr>c_session := Some mc', c_events := c_events c @ [SessionShutdown]\<rparr>)))"

definition client_Shutdown :: "bool \<Rightarrow> client \<Rightarrow> client option outcome" where
  "client_Shutdown halts c = (if c_haltOnce c then Ok (Some c) else client_halt halts (c\<lparr>c_haltOnce := True\<rparr>))"

text \<open>The watcher of fatal errors: what it receives from \<open>fatalErrCh\<close>, or \<open>None\<close> once that is closed.\<close>

definition fatal_watcher :: "bool \<Rightarrow> go_error option \<Rightarrow> client \<Rightarrow> client option outcome" where
  "fatal_watcher halts received c =
    (case received of None \<Rightarrow> Ok (Some c) | Some err \<Rightarrow> client_Shutdown halts c)"

text \<open>\<open>Wait\<close> returns once \<open>haltedCh\<close> is closed.\<close>

definition client_Wait_returns :: "client \<Rightarrow> bool" where
  "client_Wait_returns c \<longleftrightarrow> HaltedChClosed' \<in> set (c_events c)"

subsection \<open>Sessions\<close>

text \<open>The minimal client's configuration that \<open>NewSession\<close> builds.\<close>

definition session_clientCfg :: "Account \<Rightarrow> Debug \<Rightarrow> contextSOCKS5 option \<Rightarrow> bytes \<Rightarrow> ClientConfig" where
  "session_clientCfg acc dbg dial linkKey =
    \<lparr>cfg_User = acc_User acc, cfg_Provider = acc_Provider acc, cfg_ProviderKeyPin = acc_ProviderKeyPin acc,
     cfg_LinkKey = Some linkKey, cfg_LogBackend = Some (), cfg_PKIClient = Some (), cfg_OnConnFn = True,
     cfg_OnEmptyFn = False, cfg_OnMessageFn = True, cfg_OnACKFn = True, cfg_OnDocumentFn = True,
     cfg_DialContextFn = (dial \<noteq> None), cfg_PreferedTransports = PreferedTransports dbg,
     cfg_MessagePollInterval = to_i64 (PollingInterval dbg * Millisecond), cfg_EnableTimeSync = False\<rparr>"

text \<open>
  \<open>NewSession\<close>: the answer of the Katzenmint client's constructor to the configuration that
  \<open>cfg.NewPKIClient\<close> builds, and what \<open>awaitFirstPKIDoc\<close> meets, are arguments.  The
  result is the session with its minimal client; \<open>None\<close> while it still waits for a document.
\<close>

definition NewSession ::
  "kconst \<Rightarrow> proxy_env \<Rightarrow> (PKIClientConfig \<Rightarrow> go_error option) \<Rightarrow> await_event list \<Rightarrow> Config \<Rightarrow> bytes \<Rightarrow>
   (Session \<times> Client) result option outcome" where
  "NewSession K env newPKIClient evs cfg linkKey =
    obind (Config_NewPKIClient (cf_Katzenmint cfg)) (\<lambda>pkiCfg. case newPKIClient pkiCfg of
       Some err \<Rightarrow> Ok (Some (Inl err))
     | None \<Rightarrow>
         (case (cf_Account cfg, cf_Debug cfg, cf_upstreamProxy cfg) of
            (Some acc, Some dbg, Some px) \<Rightarrow>
              obind (ToDialContext env px ''authority'') (\<lambda>dial.
                case min_New K (session_clientCfg acc dbg dial linkKey) of
                  Inl err \<Rightarrow> Ok (Some (Inl err))
                | Inr mc \<Rightarrow>
                    (case awaitFirstPKIDoc K evs (new_Session K) of
                       (s, None) \<Rightarrow> Ok None
                     | (s, Some (Some err)) \<Rightarrow> Ok (Some (Inl err))
                     | (s, Some None) \<Rightarrow> Ok (Some (Inr (s, mc)))))
          | _ \<Rightarrow> Panic ''nil pointer dereference''))"

text \<open>The deadline of \<open>Client.NewSession\<close>, relative to the call.\<close>

definition session_timeout :: "Debug \<Rightarrow> int" where
  "session_timeout dbg = to_i64 (SessionDialTimeout dbg * Second)"

text \<open>
  \<open>Client.NewSession\<close>: beside the result stands the deadline under which \<open>evs\<close> was observed; the
  client's session is the new one, or nil after an error.
\<close>

definition client_NewSession ::
  "kconst \<Rightarrow> proxy_env \<Rightarrow> (PKIClientConfig \<Rightarrow> go_error option) \<Rightarrow> await_event list \<Rightarrow> client \<Rightarrow> bytes \<Rightarrow>
   (int \<times> (client \<times> (Session \<times> Client) result) option) outcome" where
  "client_NewSession K env newPKIClient evs c linkKey =
    (case cf_Debug (c_cfg c) of
       None \<Rightarrow> Panic ''nil pointer dereference''
     | Some dbg \<Rightarrow>
         obind (NewSession K env newPKIClient evs (c_cfg c) linkKey) (\<lambda>r. Ok (session_timeout dbg,
           case r of
             None \<Rightarrow> None
           | Some (Inl err) \<Rightarrow> Some (c\<lparr>c_session := None\<rparr>, Inl err)
           | Some (Inr (s, mc)) \<Rightarrow> Some (c\<lparr>c_session := Some mc\<rparr>, Inr (s, mc)))))"

subsection \<open>Registration\<close>

record register_env =
  r_tempFile :: "go_error option"
  r_logNew :: "go_error option"
  r_pkiClient :: "PKIClientConfig \<Rightarrow> go_error option"
  r_epoch :: epoch_info
  r_GetDoc :: "u64 \<Rightarrow> (Document \<times> bytes) result"
  r_Intn :: "nat \<Rightarrow> nat"
  r_NewKeypair :: "bytes result"
  r_urlParse :: "string \<Rightarrow> (string \<times> string) result"
  r_register :: "string \<Rightarrow> (string \<times> bool \<times> string \<times> string) option \<Rightarrow> string \<Rightarrow> bytes \<Rightarrow> go_error option"

definition RegisterClient :: "register_env \<Rightarrow> Config \<Rightarrow> bytes \<Rightarrow> go_error option outcome" where
  "RegisterClient env cfg linkKey =
    (case (cf_Registration cfg, cf_Account cfg) of
       (Some reg, Some acc) \<Rightarrow> Ok (r_register env (reg_Address reg) (reg_Options reg) (acc_User acc) linkKey)
     | _ \<Rightarrow> Panic ''nil pointer dereference'')"

definition panic_on :: "go_error option \<Rightarrow> unit outcome" where
  "panic_on err = (case err of None \<Rightarrow> Ok () | Some _ \<Rightarrow> Panic ''panic(err)'')"

definition must :: "'a result \<Rightarrow> 'a outcome" where
  "must r = (case r of Inr x \<Rightarrow> Ok x | Inl _ \<Rightarrow> Panic ''panic(err)'')"

definition registerProviders :: "Document \<Rightarrow> MixDescriptor list" where
  "registerProviders d = filter (\<lambda>p. RegistrationHTTPAddresses p \<noteq> None) (Providers d)"

text \<open>The account and the registration section for a chosen provider, link key and parsed URL.\<close>

definition registration_config ::
  "UpstreamProxy \<Rightarrow> MixDescriptor \<Rightarrow> bytes \<Rightarrow> string \<times> string \<Rightarrow> Config \<Rightarrow> Config" where
  "registration_config up prv pub u cfg =
    cfg\<lparr>cf_Account := Some \<lparr>acc_User = EncodeToString pub, acc_Provider = Name prv,
          acc_ProviderKeyPin = Some (IdentityKey prv)\<rparr>,
        cf_Registration := Some \<lparr>reg_Address = fst u, reg_Options = Some (snd u,
          take 5 (up_Type up) = ''socks'', up_Network up, up_Address up)\<rparr>\<rparr>"

text \<open>
  \<open>AutoRegisterRandomClient\<close>: what follows once the PKI client exists, then the whole function with
  the deferred calls that ran (also when it panics, the last one deferred first).
\<close>

definition register_account :: "register_env \<Rightarrow> Config \<Rightarrow> (Config \<times> bytes) outcome" where
  "register_account env cfg =
    (case Now (r_epoch env) of (currentEpoch, _, _, eerr) \<Rightarrow>
    obind (panic_on eerr) (\<lambda>_.
    obind (must (r_GetDoc env currentEpoch)) (\<lambda>(d, _).
      if length (registerProviders d) = 0 then
        Panic ''zero registration Providers found in the consensus''
      else
    obind (get_at (registerProviders d) (int (r_Intn env (length (registerProviders d))))) (\<lambda>prv.
    obind (must (r_NewKeypair env)) (\<lambda>pub.
    obind (get_at (the (RegistrationHTTPAddresses prv)) 0) (\<lambda>addr.
    obind (must (r_urlParse env addr)) (\<lambda>u.
      case cf_UpstreamProxy cfg of
        None \<Rightarrow> Panic ''nil pointer dereference''
      | Some up \<Rightarrow>
          (let cfg1 = registration_config up prv pub u cfg in
           obind (RegisterClient env cfg1 pub) (\<lambda>err.
           obind (panic_on err) (\<lambda>_. Ok (cfg1, pub)))))))))))"

datatype register_event = LogFileRemoved | PKIClientShutdown

definition AutoRegisterRandomClient ::
  "register_env \<Rightarrow> Config \<Rightarrow> register_event list \<times> (Config \<times> bytes) outcome" where
  "AutoRegisterRandomClient env cfg =
    (case panic_on (r_tempFile env) of
       Panic e \<Rightarrow> ([], Panic e)
     | Ok _ \<Rightarrow>
         (case obind (panic_on (r_logNew env)) (\<lambda>_.
               obind (Config_NewPKIClient (cf_Katzenmint cfg)) (\<lambda>pkiCfg. panic_on (r_pkiClient env pkiCfg))) of
            Panic e \<Rightarrow> ([LogFileRemoved], Panic e)
          | Ok _ \<Rightarrow> ([PKIClientShutdown, LogFileRemoved], register_account env cfg)))"

text \<open>\<open>Start\<close>: register, keep the key, open the session.\<close>

definition client_Start ::
  "kconst \<Rightarrow> register_env \<Rightarrow> proxy_env \<Rightarrow> await_event list \<Rightarrow> client \<Rightarrow> (client \<times> go_error option) option outcome" where
  "client_Start K renv env evs c =
    obind (snd (AutoRegisterRandomClient renv (c_cfg c))) (\<lambda>(cfg', linkKey).
      obind (client_NewSession K env (r_pkiClient renv) evs (c\<lparr>c_cfg := cfg', c_linkKey := linkKey\<rparr>) linkKey)
        (\<lambda>(_, r). case r of
           None \<Rightarrow> Ok None
         | Some (c', Inl err) \<Rightarrow> Ok (Some (c', Some err))
         | Some (c', Inr _) \<Rightarrow> Ok (Some (c', None))))"

section \<open>Lemmas\<close>

lemma ValidateReply_framed:
  assumes "length rest < 2 ^ 32" and "n \<le> length rest"
  shows "ValidateReply (PutUint32 (word_of_nat n) @ rest) = Ok (Inr rest)"
proof -
  have "uint (word_of_nat n :: u32) = int n"
    using assms by (simp add: uint_word_of_int unsigned_of_nat take_bit_int_eq_self take_bit_nat_eq_self)
  moreover have "Uint32 (PutUint32 (word_of_nat n)) = Ok (word_of_nat n)"
    using Uint32_PutUint32 [of "word_of_nat n" "[]"] by simp
  ultimately show ?thesis
    using assms by (simp add: ValidateReply_def go_slice_def)
qed

lemma must_eq_Ok: "must r = Ok x \<longleftrightarrow> r = Inr x"
  by (cases r) (simp_all add: must_def)

lemma panic_on_eq_Ok: "panic_on e = Ok u \<longleftrightarrow> e = None"
  by (cases e) (simp_all add: panic_on_def)

lemma RegisterClient_config:
  "RegisterClient env (registration_config up prv pub u cfg) key =
    Ok (r_register env (fst u) (Some (snd u, take 5 (up_Type up) = ''socks'', up_Network up, up_Address up))
      (EncodeToString pub) key)"
  by (simp add: RegisterClient_def registration_config_def)

text \<open>
  Every exit of the registration, by return or by panic, has removed the log file once it exists
  and has shut the PKI client down once that exists.
\<close>

lemma AutoRegister_deferred:
  "fst (AutoRegisterRandomClient env cfg) =
    (if r_tempFile env \<noteq> None then []
     else if r_logNew env = None \<and> (\<exists>pkiCfg. Config_NewPKIClient (cf_Katzenmint cfg) = Ok pkiCfg \<and> r_pkiClient env pkiCfg = None)
     then [PKIClientShutdown, LogFileRemoved] else [LogFileRemoved])"
  by (cases "Config_NewPKIClient (cf_Katzenmint cfg)")
    (auto simp: AutoRegisterRandomClient_def panic_on_def split: option.splits)

lemma AutoRegister_returns:
  "AutoRegisterRandomClient env cfg = (ds, Ok r) \<Longrightarrow>
    register_account env cfg = Ok r \<and> ds = [PKIClientShutdown, LogFileRemoved]"
  by (auto simp: AutoRegisterRandomClient_def split: outcome.splits)

lemma client_New_fresh:
  assumes "client_New logNew cfg service = Ok (Inr c)"
  shows "c_hasLog c \<and> c_events c = [] \<and> \<not> c_haltOnce c"
  using assms by (auto simp: client_New_def InitLogging_def Let_def split: option.splits if_splits)

text \<open>
  \<open>Shutdown\<close> of a client that \<open>New\<close> returned does not panic: with no session, or with a session whose
  goroutines return, the channels are closed once, the session being shut down before, \<open>Wait\<close>
  returns, and further calls change nothing; with a session whose goroutines do not return, it
  never returns.
\<close>

lemma client_Shutdown_once:
  assumes "c_hasLog c" and "c_events c = []" and "\<not> c_haltOnce c" and "c_session c = Some mc" and "min_New K cfg = Inr mc"
  shows "client_Shutdown False c = Ok None"
    and "\<exists>c' mc'. client_Shutdown True c = Ok (Some c') \<and> client_Shutdown h c' = Ok (Some c') \<and> client_Wait_returns c' \<and>
      c_events c' = [SessionShutdown, FatalErrChClosed, HaltedChClosed'] \<and> c_session c' = Some mc' \<and>
      cl_trace mc' = [PkiStarted, ConnStarted, ConnHalted, PkiHalted, HaltedChClosed]"
proof -
  show "client_Shutdown False c = Ok None"
    using assms by (simp add: client_Shutdown_def client_halt_def Session_Shutdown_def)
  obtain mc' where mc': "min_Shutdown mc = Ok mc'" "cl_trace mc' = [PkiStarted, ConnStarted, ConnHalted, PkiHalted, HaltedChClosed]"
    using Shutdown_New [OF assms(5)] by blast
  then have "min_Wait_returns mc'" by (simp add: min_Wait_returns_def)
  with assms mc' show "\<exists>c' mc'. client_Shutdown True c = Ok (Some c') \<and> client_Shutdown h c' = Ok (Some c') \<and>
      client_Wait_returns c' \<and> c_events c' = [SessionShutdown, FatalErrChClosed, HaltedChClosed'] \<and> c_session c' = Some mc' \<and>
      cl_trace mc' = [PkiStarted, ConnStarted, ConnHalted, PkiHalted, HaltedChClosed]"
    by (simp add: client_Shutdown_def client_halt_def Session_Shutdown_def close_channels_def close_ch_def client_Wait_returns_def)
qed

lemma client_Shutdown_no_session:
  assumes "client_New logNew cfg service = Ok (Inr c)"
  shows "\<exists>c'. client_Shutdown halts c = Ok (Some c') \<and> client_Shutdown h c' = Ok (Some c') \<and> client_Wait_returns c' \<and>
    c_events c' = [FatalErrChClosed, HaltedChClosed']"
proof -
  have "c_session c = None"
    using assms by (auto simp: client_New_def InitLogging_def Let_def split: option.splits if_splits)
  with client_New_fresh [OF assms] show ?thesis
    by (simp add: client_Shutdown_def client_halt_def close_channels_def close_ch_def client_Wait_returns_def)
qed

section \<open>Properties\<close>

text \<open>
  Messages survive framing: a message of at most \<open>UserForwardPayloadLength - 4\<close> bytes is composed
  into a payload of exactly \<open>UserForwardPayloadLength\<close> bytes, and \<open>ValidateReply\<close> of that payload
  returns the message, followed by the zero bytes that filled the payload up: the length in the
  frame is checked but not used to cut the padding off.
\<close>

lemma reply_roundtrip:
  assumes "composeMessage K env recipient provider message isBlocking = Inr m"
    and "UserForwardPayloadLength K < 2 ^ 32"
  shows "length (m_Payload m) = UserForwardPayloadLength K \<and>
    ValidateReply (m_Payload m) =
      Ok (Inr (message @ replicate (UserForwardPayloadLength K - 4 - length message) 0))"
proof -
  note c = composeMessage_payload [OF assms(1)]
  have "ValidateReply (PutUint32 (word_of_nat (length message)) @ message @
        replicate (UserForwardPayloadLength K - 4 - length message) 0) =
      Ok (Inr (message @ replicate (UserForwardPayloadLength K - 4 - length message) 0))"
    by (rule ValidateReply_framed) (use c assms(2) in auto)
  with c show ?thesis by simp
qed

text \<open>
  C30. When registration returns, the account names a provider of the current epoch's document that offers
  registration, pins that provider's identity key, and its user name is the link key in
  hexadecimal; the registration service was told so, and both the PKI client and the log file that
  were needed for it are released.  It goes through SOCKS exactly when the
  configured proxy type begins with \<open>socks\<close>, hence not through a Tor proxy, whose type is
  \<open>tor+socks5\<close>.
\<close>

theorem AutoRegister_account:
  assumes "AutoRegisterRandomClient env cfg = (deferred, Ok (cfg', pub))"
  shows "deferred = [PKIClientShutdown, LogFileRemoved] \<and>
    (\<exists>d rw prv up u addr. r_GetDoc env (fst (Now (r_epoch env))) = Inr (d, rw) \<and>
    prv \<in> set (Providers d) \<and> RegistrationHTTPAddresses prv = Some (addr # tl (the (RegistrationHTTPAddresses prv))) \<and>
    r_urlParse env addr = Inr u \<and> cf_UpstreamProxy cfg = Some up \<and>
    cf_Account cfg' = Some \<lparr>acc_User = EncodeToString pub, acc_Provider = Name prv,
      acc_ProviderKeyPin = Some (IdentityKey prv)\<rparr> \<and>
    r_register env (fst u) (Some (snd u, take 5 (up_Type up) = ''socks'', up_Network up, up_Address up))
      (EncodeToString pub) pub = None \<and>
    (up_Type up = typeTorSocks5 \<longrightarrow> take 5 (up_Type up) \<noteq> ''socks''))"
proof -
  note ret = AutoRegister_returns [OF assms]
  obtain ep el till eerr where nw: "Now (r_epoch env) = (ep, el, till, eerr)" by (metis prod_cases4)
  from ret nw obtain d rw prv addr u up where
      doc: "r_GetDoc env ep = Inr (d, rw)" and
      prv: "get_at (registerProviders d) (int (r_Intn env (length (registerProviders d)))) = Ok prv" and
      addr: "get_at (the (RegistrationHTTPAddresses prv)) 0 = Ok addr" and
      u: "r_urlParse env addr = Inr u" and up: "cf_UpstreamProxy cfg = Some up" and
      cfg': "cfg' = registration_config up prv pub u cfg" and
      reg: "r_register env (fst u) (Some (snd u, take 5 (up_Type up) = ''socks'', up_Network up, up_Address up))
        (EncodeToString pub) pub = None"
    by (auto simp: register_account_def must_eq_Ok panic_on_eq_Ok obind_eq_Ok RegisterClient_config
        Let_def split: if_splits option.splits simp del: split_paired_All split_paired_Ex)
  have "prv \<in> set (registerProviders d)" using prv by (auto simp: get_at_def split: if_splits)
  then have in_doc: "prv \<in> set (Providers d)" "RegistrationHTTPAddresses prv \<noteq> None"
    by (auto simp: registerProviders_def)
  then obtain as where as: "RegistrationHTTPAddresses prv = Some as" by blast
  with addr have "as = addr # tl as" by (cases as) (auto simp: get_at_def)
  with as in_doc doc nw u up cfg' reg ret show ?thesis
    by (intro conjI exI [of _ d] exI [of _ rw] exI [of _ prv] exI [of _ up] exI [of _ u] exI [of _ addr])
      (auto simp: registration_config_def typeTorSocks5_def)
qed

definition example_renv :: register_env where
  "example_renv = \<lparr>r_tempFile = None, r_logNew = None, r_pkiClient = (\<lambda>_. None), r_epoch = (5, 0, None),
     r_GetDoc = (\<lambda>e. Inr (doc4\<lparr>Providers := [(prov ''a'' 7)\<lparr>RegistrationHTTPAddresses := Some [''http://a'']\<rparr>]\<rparr>, [])),
     r_Intn = (\<lambda>_. 0), r_NewKeypair = Inr [1, 2], r_urlParse = (\<lambda>_. Inr (''a'', ''http'')),
     r_register = (\<lambda>_ _ _ _. None)\<rparr>"

theorem AutoRegister_account_witness:
  "\<exists>cfg'. AutoRegisterRandomClient example_renv (example_file\<lparr>cf_UpstreamProxy := Some \<lparr>up_Type = ''tor+socks5'',
       up_Network = ''tcp'', up_Address = ''x'', up_User = '''', up_Password = ''''\<rparr>\<rparr>) =
       ([PKIClientShutdown, LogFileRemoved], Ok (cfg', [1, 2])) \<and>
     (\<exists>acc. cf_Account cfg' = Some acc \<and> acc_User acc = ''0102'')"
proof -
  let ?cfg = "example_file\<lparr>cf_UpstreamProxy := Some \<lparr>up_Type = ''tor+socks5'',
       up_Network = ''tcp'', up_Address = ''x'', up_User = '''', up_Password = ''''\<rparr>\<rparr>"
  have "\<exists>cfg'. AutoRegisterRandomClient example_renv ?cfg = ([PKIClientShutdown, LogFileRemoved], Ok (cfg', [1, 2]))"
    by (simp add: AutoRegisterRandomClient_def register_account_def example_renv_def panic_on_def must_def Now_def Let_def
        registerProviders_def get_at_def RegisterClient_def registration_config_def Config_NewPKIClient_def
        example_file_def)
  then obtain cfg' where c: "AutoRegisterRandomClient example_renv ?cfg = ([PKIClientShutdown, LogFileRemoved], Ok (cfg', [1, 2]))" ..
  from AutoRegister_account [OF c] c show ?thesis by (auto simp: EncodeToString_def hexdigit_def)
qed

end
