(* ===== verification/Meson_Ping.thy ===== *)
theory Meson_Ping
  imports Meson_Client
begin

text \<open>
  \<^verbatim>\<open>src/cmd/ping/main.go\<close>: the command that registers, opens a session, sends one message to a service
  and prints the reply.  It ties the parts of the library together; every error is a panic.  What
  the surroundings answer is the record \<open>ping_env\<close>; the flags are arguments.
\<close>

section \<open>Definitions\<close>

record ping_env =
  g_uni :: unicode_ops
  g_proxy :: proxy_env
  g_config :: config_env
  g_decode :: "bytes \<Rightarrow> (Config \<times> string list) result"
  g_encode :: "Config \<Rightarrow> bytes \<times> go_error option"
  g_create :: "string \<Rightarrow> go_error option"
  g_trust :: trust_env
  g_register :: register_env
  g_logNew :: "Logging \<Rightarrow> go_error option"
  g_await :: "await_event list"
  g_send :: senv
  g_sent :: "Message option"
  g_reply :: "bytes option"
  g_halts :: bool

text \<open>\<open>register\<close>: the errors of \<open>UpdateTrust\<close> and \<open>SaveConfig\<close> are ignored.\<close>

definition ping_register :: "ping_env \<Rightarrow> string \<Rightarrow> files \<Rightarrow> (files \<times> Config \<times> bytes) outcome" where
  "ping_register env configFile fs =
    obind (LoadFile (g_uni env) (g_proxy env) (g_config env) (g_decode env) (ReadFile fs) configFile) (\<lambda>r.
    obind (must r) (\<lambda>cfg.
    obind (UpdateTrust (g_trust env) cfg) (\<lambda>(cfg1, _).
      case SaveConfig (g_create env) (g_encode env) cfg1 configFile fs of (fs', _) \<Rightarrow>
    obind (snd (AutoRegisterRandomClient (g_register env) cfg1)) (\<lambda>(cfg2, linkKey). Ok (fs', cfg2, linkKey)))))"

definition ping_message :: bytes where
  "ping_message = bytes_of_string ''Data encryption is used widely today!''"

text \<open>
  \<open>main\<close>: the printed payload, and the client after its shutdown; \<open>None\<close> while the session still waits,
  or when the shutdown, after the printing, does not return.
\<close>

definition ping_main ::
  "kconst \<Rightarrow> ping_env \<Rightarrow> string \<Rightarrow> string \<Rightarrow> files \<Rightarrow> (bytes \<times> client) option outcome" where
  "ping_main K env configFile service fs =
    (if service = '''' then Panic ''must specify service name with -s'' else
     obind (ping_register env configFile fs) (\<lambda>(fs', cfg, linkKey).
     obind (NewFromConfig (g_logNew env) cfg service) (\<lambda>r.
     obind (must r) (\<lambda>c.
     obind (client_NewSession K (g_proxy env) (r_pkiClient (g_register env)) (g_await env) c linkKey) (\<lambda>(_, r).
       case r of
         None \<Rightarrow> Ok None
       | Some (c1, r) \<Rightarrow>
     obind (must r) (\<lambda>(s, mc).
     obind (GetService (g_send env) service) (\<lambda>r.
     obind (must r) (\<lambda>serviceDesc.
     obind (BlockingSendUnreliableMessage K (g_send env) (sd_Name serviceDesc) (sd_Provider serviceDesc)
              ping_message (g_sent env) (g_reply env) s) (\<lambda>r.
     obind (must r) (\<lambda>resp.
     obind (ValidateReply resp) (\<lambda>r.
     obind (must r) (\<lambda>payload.
     obind (client_Shutdown (g_halts env) c1) (\<lambda>r. Ok (map_option (Pair payload) r))))))))))))))"

section \<open>Lemmas\<close>

lemma BlockingSend_begin_cases:
  assumes "BlockingSend_begin K env rcpt prv message s = Ok (s1, b)"
  shows "(\<exists>err. b = BlockReturn (Inl err)) \<or>
    (\<exists>m. composeMessage K env rcpt prv message True = Inr m \<and> b = AwaitSent (m_ID m))"
  using assms
  by (cases "composeMessage K env rcpt prv message True")
    (auto simp: BlockingSend_begin_def obind_eq_Ok Let_def split: option.splits)

lemma BlockingSend_reply_only:
  assumes "BlockingSendUnreliableMessage K env rcpt prv message sent reply s = Ok (Inr r)"
  shows "reply = Some r \<and> sent \<noteq> None \<and> (\<exists>m. composeMessage K env rcpt prv message True = Inr m)"
proof -
  obtain s1 b where b: "BlockingSend_begin K env rcpt prv message s = Ok (s1, b)"
    using assms by (auto simp: BlockingSendUnreliableMessage_def obind_eq_Ok)
  from BlockingSend_begin_cases [OF b] assms b show ?thesis
    by (cases sent; cases reply)
      (auto simp: BlockingSendUnreliableMessage_def BlockingSend_sent_def BlockingSend_reply_def)
qed

lemma ValidateReply_tail: "ValidateReply r = Ok (Inr p) \<Longrightarrow> p = drop 4 r"
  by (auto simp: ValidateReply_def obind_eq_Ok go_slice_def Let_def split: if_splits)

lemma client_NewSession_ok:
  assumes "client_NewSession K env newPKIClient evs c linkKey = Ok (d, Some (c1, Inr sm))"
  shows "\<exists>cfg. min_New K cfg = Inr (snd sm) \<and> c1 = c\<lparr>c_session := Some (snd sm)\<rparr>"
  using assms by (cases "NewSession K env newPKIClient evs (c_cfg c) linkKey")
    (auto simp: client_NewSession_def NewSession_def obind_eq_Ok split: option.splits sum.splits prod.splits)

section \<open>Properties\<close>

text \<open>
  C29. What ping prints: if it returns, the service name was given, the session had a reply to a message
  that was sent, and what is printed is all of that reply behind its four bytes of length; so for a
  service that echoes the payload it is the message sent and then the zero bytes of the padding.
  The client has been shut down, its session first (with the minimal client's connection and then
  its PKI worker) and each of its channels closed once.
\<close>

theorem ping_prints_echo:
  assumes "ping_main K env configFile service fs = Ok (Some (payload, c))"
  shows "service \<noteq> '''' \<and> g_sent env \<noteq> None \<and>
    (\<exists>reply. g_reply env = Some reply \<and> payload = drop 4 reply) \<and>
    (\<forall>rcpt prv m. composeMessage K (g_send env) rcpt prv ping_message True = Inr m \<and>
        g_reply env = Some (m_Payload m) \<longrightarrow>
      payload = ping_message @ replicate (UserForwardPayloadLength K - 4 - length ping_message) 0) \<and>
    c_events c = [SessionShutdown, FatalErrChClosed, HaltedChClosed'] \<and>
    (\<exists>mc. c_session c = Some mc \<and> cl_trace mc = [PkiStarted, ConnStarted, ConnHalted, PkiHalted, HaltedChClosed])"
proof -
  obtain fs' cfg linkKey cl d c1 s mc sd resp where
      cl: "NewFromConfig (g_logNew env) cfg service = Ok (Inr cl)" and
      ns: "client_NewSession K (g_proxy env) (r_pkiClient (g_register env)) (g_await env) cl linkKey =
        Ok (d, Some (c1, Inr (s, mc)))" and
      sd: "GetService (g_send env) service = Ok (Inr sd)" and
      bs: "BlockingSendUnreliableMessage K (g_send env) (sd_Name sd) (sd_Provider sd) ping_message (g_sent env)
        (g_reply env) s = Ok (Inr resp)" and
      vr: "ValidateReply resp = Ok (Inr payload)" and sh: "client_Shutdown (g_halts env) c1 = Ok (Some c)" and sv: "service \<noteq> ''''"
    using assms(1)
    by (auto simp: ping_main_def obind_eq_Ok must_eq_Ok split: if_splits option.splits
        simp del: split_paired_All split_paired_Ex)
  note r = BlockingSend_reply_only [OF bs]
  have "c_hasLog cl \<and> c_events cl = [] \<and> \<not> c_haltOnce cl"
    using client_New_fresh cl by (simp add: NewFromConfig_def)
  moreover obtain mcfg where n: "min_New K mcfg = Inr mc" "c1 = cl\<lparr>c_session := Some mc\<rparr>"
    using client_NewSession_ok [OF ns] by auto
  ultimately have f: "c_hasLog c1" "c_events c1 = []" "\<not> c_haltOnce c1" "c_session c1 = Some mc" by simp_all
  note once = client_Shutdown_once [OF f n(1)]
  have "g_halts env" using sh once(1) by (cases "g_halts env") simp_all
  with sh once(2) have "c_events c = [SessionShutdown, FatalErrChClosed, HaltedChClosed'] \<and>
    (\<exists>mc. c_session c = Some mc \<and> cl_trace mc = [PkiStarted, ConnStarted, ConnHalted, PkiHalted, HaltedChClosed])" by auto
  moreover have "payload = ping_message @ replicate (UserForwardPayloadLength K - 4 - length ping_message) 0"
    if "composeMessage K (g_send env) rcpt prv ping_message True = Inr m" "g_reply env = Some (m_Payload m)" for rcpt prv m
    using composeMessage_payload [OF that(1)] that(2) r ValidateReply_tail [OF vr] length_PutUint32 by simp
  ultimately show ?thesis using r sv ValidateReply_tail [OF vr] by auto
qed

text \<open>A run for the witness: a service that echoes.\<close>

definition ping_const :: kconst where
  "ping_const = example_const\<lparr>UserForwardPayloadLength := 64, ForwardPayloadLength := 66\<rparr>"

definition example_ping :: ping_env where
  "example_ping = \<lparr>g_uni = example_uni, g_proxy = example_penv, g_config = example_cenv,
     g_decode = (\<lambda>_. Inr (example_file, [])), g_encode = (\<lambda>_. ([], None)), g_create = (\<lambda>_. None),
     g_trust = \<lparr>rpc_New = Some (ExtError ''offline''), rpc_LastBlockHeight = Inr 0, rpc_GenesisChainID = Inr '''',
       rpc_BlockHash = (\<lambda>_. Inr None)\<rparr>,
     g_register = example_renv, g_logNew = (\<lambda>_. None), g_await = [AwaitOp (opNewDocument (empty_doc 4))],
     g_send = example_senv, g_sent = Some blank_Message,
     g_reply = Some (PutUint32 37 @ ping_message @ replicate 23 0), g_halts = True\<rparr>"

lemma example_ping_runs:
  "\<exists>payload c. ping_main ping_const example_ping ''client.toml'' ''echo'' [''client.toml'' \<mapsto> []] = Ok (Some (payload, c))"
proof -
  obtain m where m: "composeMessage ping_const example_senv ''loop'' ''a'' ping_message True = Inr m" "m_ID m = [9, 9]"
    by (simp add: composeMessage_def ping_const_def example_senv_def ping_message_def bytes_of_string_def)
  obtain q where q: "Queue_Push 3 (new_Queue 3) m = Ok (q, None)"
    using example_push [of m] by (elim exE conjE) (rule that)
  have N: "MaxEgressQueueSize ping_const = 3" by (simp add: ping_const_def example_const_def)
  have b: "BlockingSendUnreliableMessage ping_const example_senv ''loop'' ''a'' ping_message (Some blank_Message)
      (Some (PutUint32 37 @ ping_message @ replicate 23 0)) (new_Session ping_const) =
    Ok (Inr (PutUint32 37 @ ping_message @ replicate 23 0))"
    using m q by (simp add: BlockingSendUnreliableMessage_def BlockingSend_begin_def BlockingSend_sent_def
        BlockingSend_reply_def new_Session_def N)
  have v: "ValidateReply (PutUint32 37 @ ping_message @ replicate 23 0) = Ok (Inr (ping_message @ replicate 23 0))"
    using ValidateReply_framed [of "ping_message @ replicate 23 0" 37]
    by (simp add: ping_message_def bytes_of_string_def)
  obtain cfg d px where l: "Load example_uni example_penv example_cenv (\<lambda>_. Inr (example_file, [])) [] = Ok (Inr cfg)"
      "cf_Debug cfg = Some d" "cf_Katzenmint cfg = cf_Katzenmint example_file" "cf_Logging cfg = cf_Logging example_file"
      "cf_UpstreamProxy cfg = cf_UpstreamProxy example_file" "cf_upstreamProxy cfg = Some px" "px_Type px = typeNone"
    using example_load by blast
  let ?cfg = "registration_config (the (cf_UpstreamProxy example_file))
    ((prov ''a'' 7)\<lparr>RegistrationHTTPAddresses := Some [''http://a'']\<rparr>) [1, 2] (''a'', ''http'') cfg"
  have "UpdateTrust (g_trust example_ping) cfg = Ok (cfg, Some (ExtError ''offline''))"
    using l(3) by (simp add: UpdateTrust_def example_file_def example_ping_def)
  moreover have "snd (AutoRegisterRandomClient example_renv cfg) = Ok (?cfg, [1, 2])"
    using l(3,5) by (simp add: AutoRegisterRandomClient_def register_account_def example_renv_def panic_on_def must_def Now_def Let_def
        registerProviders_def get_at_def RegisterClient_config Config_NewPKIClient_def example_file_def)
  ultimately have r: "ping_register example_ping ''client.toml'' [''client.toml'' \<mapsto> []] =
      Ok ([''client.toml'' \<mapsto> []], ?cfg, [1, 2])"
    using l(1) by (simp add: ping_register_def LoadFile_def ReadFile_def must_def SaveConfig_def) (simp add: example_ping_def)
  obtain c where c: "NewFromConfig (\<lambda>_. None) ?cfg ''echo'' = Ok (Inr c)" "c_cfg c = ?cfg"
    using l(4) by (simp add: NewFromConfig_def client_New_def InitLogging_def registration_config_def example_file_def)
  obtain mc where ns: "NewSession ping_const example_penv (\<lambda>_. None) [AwaitOp (opNewDocument (empty_doc 4))] ?cfg [1, 2] =
      Ok (Some (Inr (new_Session ping_const, mc)))"
    using l by (simp add: NewSession_def Config_NewPKIClient_def registration_config_def example_file_def
        ToDialContext_def session_clientCfg_def min_New_def validate_def prov_def EncodeToString_def hexdigit_def
        isDocValid_def empty_doc_def ping_const_def example_const_def)
  have "client_NewSession ping_const example_penv (\<lambda>_. None) [AwaitOp (opNewDocument (empty_doc 4))] c [1, 2] =
      Ok (session_timeout d, Some (c\<lparr>c_session := Some mc\<rparr>, Inr (new_Session ping_const, mc)))"
    using ns c(2) l(2) by (simp add: client_NewSession_def registration_config_def)
  moreover from this obtain mcn where "min_New ping_const mcn = Inr mc" using client_NewSession_ok by force
  moreover have "GetService example_senv ''echo'' = Ok (Inr \<lparr>sd_Name = ''loop'', sd_Provider = ''a''\<rparr>)"
    by (simp add: GetService_def example_senv_def get_at_def)
  moreover obtain c2 where "client_Shutdown True (c\<lparr>c_session := Some mc\<rparr>) = Ok (Some c2)"
    using client_Shutdown_once(2) [of "c\<lparr>c_session := Some mc\<rparr>" mc, OF _ _ _ _ \<open>min_New ping_const mcn = Inr mc\<close>]
      client_New_fresh [of "\<lambda>_. None" ?cfg "''echo''" c] c(1) by (auto simp: NewFromConfig_def)
  ultimately show ?thesis using r c(1) b v
    by (simp add: ping_main_def must_def) (simp add: example_ping_def example_renv_def must_def)
qed

theorem ping_prints_echo_witness:
  "\<exists>c. ping_main ping_const example_ping ''client.toml'' ''echo'' [''client.toml'' \<mapsto> []] =
     Ok (Some (ping_message @ replicate 23 0, c)) \<and> c_events c = [SessionShutdown, FatalErrChClosed, HaltedChClosed']"
proof -
  obtain payload c where run: "ping_main ping_const example_ping ''client.toml'' ''echo'' [''client.toml'' \<mapsto> []] =
      Ok (Some (payload, c))"
    using example_ping_runs by blast
  have "g_reply example_ping = Some (PutUint32 37 @ ping_message @ replicate 23 0)" by (simp add: example_ping_def)
  with ping_prints_echo [OF run] run show ?thesis by auto
qed

end
