(* ===== verification/Spec2Isabelle.thy ===== *)
theory Spec2Isabelle
  imports Meson_Runtime Meson_Frames Meson_TimerQueue Meson_Proxy Meson_Ping
begin

text \<open>
  A verification of the Meson client, the Go client library of the Meson mix network (package
  \<^verbatim>\<open>client\<close> and its sub-packages under \<^verbatim>\<open>src/\<close>).

  \<^bold>\<open>The program.\<close>  A \<^emph>\<open>session\<close> (\<^verbatim>\<open>session.go\<close>, \<^verbatim>\<open>send.go\<close>) takes messages from its user and puts them
  in an \<^emph>\<open>egress queue\<close> (\<^verbatim>\<open>queue.go\<close>).  Its \<^emph>\<open>worker\<close> (\<^verbatim>\<open>worker.go\<close>) sends one message or decoy whenever
  one of three random timers fires.  Sending goes through the \<^emph>\<open>minimal client\<close> (\<^verbatim>\<open>minclient/\<close>), which
  picks a path through the mixes (\<^verbatim>\<open>path.go\<close>), composes a Sphinx packet (\<^verbatim>\<open>send.go\<close>) and hands it to
  its \<^emph>\<open>connection\<close> (\<^verbatim>\<open>connection.go\<close>); the connection's command loop also fetches messages and replies
  and calls the session back.  The directory documents that all this needs are kept by the
  \<^emph>\<open>PKI worker\<close> (\<^verbatim>\<open>minclient/pki.go\<close>), which asks a \<^emph>\<open>cache\<close> (\<^verbatim>\<open>pkiclient/cache.go\<close>) in front of the
  \<^emph>\<open>Katzenmint client\<close> (\<^verbatim>\<open>pkiclient/katzenmint.go\<close>), for epochs that come from the \<^emph>\<open>epoch clock\<close>
  (\<^verbatim>\<open>pkiclient/epochtime\<close>).  The \<^emph>\<open>client\<close> (\<^verbatim>\<open>client.go\<close>) registers an account, opens the session and shuts
  everything down; \<^emph>\<open>configuration\<close> and \<^emph>\<open>upstream proxy\<close> are \<^verbatim>\<open>config/\<close> and \<^verbatim>\<open>internal/proxy\<close>; \<^verbatim>\<open>cmd/ping\<close>
  is a program that uses the library.

  \<^bold>\<open>The theories.\<close>  Each holds definitions, then lemmas, then properties.
  \<^item> \<open>Meson_Prelude\<close>: Go's integers at their width (\<open>u64\<close>, \<open>to_i64\<close>), errors (\<open>go_error\<close>), functions that may
    panic (\<open>outcome\<close>), slices, big-endian and hexadecimal encodings; the locale \<open>preserved\<close> for
    properties that every step of a state machine keeps.
  \<^item> \<open>Meson_Types\<close>: documents, descriptors, the constants of the mix network (\<open>kconst\<close>), random sources.
  \<^item> \<open>Meson_Queue\<close> (\<^verbatim>\<open>queue.go\<close>): \<open>Queue_Push\<close>, \<open>Queue_Pop\<close>, \<open>Queue_Peek\<close> on the ring buffer; the interfaces
    \<open>nqueue\<close> and \<open>EgressQueue\<close> are the locales \<open>nqueue\<close> and \<open>egress_queue\<close>, interpreted as \<open>ring\<close>.
    The buffer refines a bounded FIFO list.
  \<^item> \<open>Meson_TimerQueue\<close> (\<^verbatim>\<open>timer_queue.go\<close>): the operations, and worker and wake-up goroutine as the step
    relation \<open>tq_step\<close>, with its callers in \<open>tq_reach\<close>.  Items leave in time and in order as long as nobody
    calls \<open>Remove\<close>; what \<open>Remove\<close> does; lost wake-ups.
  \<^item> \<open>Meson_Epochtime\<close>: \<open>Now\<close> and its bounds.
  \<^item> \<open>Meson_Katzenmint\<close>: queries, epochs down to their varints, documents, posting, construction; the locale
    \<open>pki_source\<close> is what clients of a PKI client rely on.
  \<^item> \<open>Meson_Cache\<close>: list and map of the LRU cache, fetch queue, worker, halt; step relation \<open>cache_step\<close>.
    The invariant, refinement of a most-recently-used list, transparency; the cache is itself a PKI
    source (sublocale \<open>cached\<close>).
  \<^item> \<open>Meson_MinClient\<close> (\<^verbatim>\<open>minclient/client.go\<close>): configuration and life cycle.
  \<^item> \<open>Meson_Path\<close>: \<open>NewPath\<close> with every draw of hops and delays; soundness and success.
  \<^item> \<open>Meson_MinSend\<close> (\<^verbatim>\<open>minclient/send.go\<close>): the composing loop; what a packet is, and that one is made.
  \<^item> \<open>Meson_PKI\<close>: worker goroutine and callers as the step relation \<open>pki_step\<close>; documents are those asked for,
    a round provides the current one, and how the worker can be lost.
  \<^item> \<open>Meson_Wire\<close>: the command loop of \<^verbatim>\<open>connection.go\<close> (\<open>wire_loop\<close>), peer validation, teardown, and the
    goroutines of a connection (\<open>thread_step\<close>).  Sequence numbers, who may command, what is left behind.
  \<^item> \<open>Meson_Connection\<close>: connect worker, dialling with back-off, and the lock of \<open>sendPacket\<close> (\<open>send_step\<close>).
  \<^item> \<open>Meson_Session\<close>: messages, events, \<open>Session\<close>, its callbacks and sending; the locale \<open>sphinx_sender\<close> is what
    it relies on in the minimal client, interpreted as \<open>min\<close>.  Replies match requests, and their
    entries expire.  \<open>onACK\<close> is three steps, with the accesses to \<open>surbIDMap\<close> one by one.
  \<^item> \<open>Meson_Worker\<close>: the select loop of the session worker: what it sends and how it is paced.
  \<^item> \<open>Meson_System\<close>: all goroutines of a session together (\<open>sys_step\<close>): the failures the code calls
    impossible are impossible, a blocked sender is served within as many ticks as the queue has
    places; and the two ways in which a goroutine can be left waiting for ever.  Callbacks for
    acknowledgements overlap.
  \<^item> \<open>Meson_Delivery\<close>: whole runs of a session: replies answer messages that were sent, once for every
    acknowledgement that found its entry; two overlapping callbacks can both find it.
  \<^item> \<open>Meson_Frames\<close>: the type invariant of messages over whole runs.
  \<^item> \<open>Meson_Runtime\<close>: the session's goroutines over the PKI worker (\<open>rt_step\<close>): the worker's look-ups of the
    current document, and the announcements of new ones.  The composition refines \<open>sys_step\<close>; documents
    arrive in order; how a change of the epoch ends a session, and how the two workers can block.
  \<^item> \<open>Meson_Config\<close>: proxy and configuration with defaults, validation, loading and saving.
  \<^item> \<open>Meson_Proxy\<close>: dialling through the proxy (\<open>dial_step\<close>).
  \<^item> \<open>Meson_Client\<close>: the client's life cycle, registration, sessions, the watcher of fatal errors, reply
    validation.
  \<^item> \<open>Meson_Ping\<close>: the ping program.
  \<^item> This theory: the property that spans them, from a queued message to the connection.

  \<^bold>\<open>Conventions.\<close>  A struct is a record and keeps the names of its fields (with a prefix); a value that
  may be nil is an option; an operation that changes its receiver returns it.  Errors are \<open>Inl\<close> of a
  sum, a panic (also an index out of range and the use of a nil pointer) is \<open>Panic\<close>.  Goroutines that
  share state are step relations whose steps lie between two accesses to shared state; \<open>select\<close> is a
  choice among the steps that are enabled.  Code outside \<^verbatim>\<open>src/\<close> (the Sphinx and wire libraries,
  the light client, codecs, random sources, clocks, files) is an argument: a function, or what a
  loop observed.  What a property needs of it is a hypothesis of the property: \<open>rng_ok\<close> for random
  sources, \<open>pq_ok\<close> for the priority queue, \<open>sphinx_accepts\<close> for the Sphinx constructors (which refuse paths
  of more than \<open>NrHops\<close> hops), \<open>client_route_ok\<close> for a network in order.

  \<^bold>\<open>Bounds.\<close>  A loop over a \<open>select\<close> takes the list of what it observes; \<open>None\<close> means that it still runs at
  the end of that list, and properties that claim a result claim it for a list they give.  The three
  attempts of \<open>NewPath\<close> are the code's.

  \<^bold>\<open>Not modelled.\<close>  Logging; the accessors that only return a field; the text of the connection errors
  (their values are kept); the memory model of Go (a step is atomic); the blocking of a send on the
  unbuffered \<open>fatalErrCh\<close>, a list of the errors sent so far (that a second fatal error finds nobody who
  receives it is therefore not proved); whether a goroutine that is told to halt returns, which is
  an observation of \<open>Session_Shutdown\<close>; the interface in
  \<^verbatim>\<open>pkiclient/client.go\<close>, which has no code (its contract for \<open>GetDoc\<close> is \<open>pki_source\<close>).
\<close>

section \<open>From a queued message to the connection\<close>




end
